(* ===== verification/Prelude.thy ===== *)
theory Prelude
  imports
    Main
    "HOL-Library.Char_ord"
    "HOL-Library.List_Lexorder"
    "HOL-Library.Product_Lexorder"
    "HOL-Library.Multiset"
begin

text \<open>
  What every component shares: the crate's \<open>Result\<close> type, the ordered collections of the
  Rust standard library (\<open>BTreeSet\<close> and \<open>BTreeMap\<close>) and the facts about them, the
  contracts of these collections as locales, and folds over event sets whose order must
  not matter.

  A \<open>BTreeSet<T>\<close> is the strictly increasing list of its elements and a
  \<open>BTreeMap<K, V>\<close> the list of its entries with strictly increasing keys: these are the
  sequences the Rust iterators produce, so code that iterates is modelled by recursion on
  the list. Strings are byte strings (\<open>char list\<close>) under the lexicographic order of
  \<open>List_Lexorder\<close>, which is the order of Rust's \<open>str\<close>.
\<close>

section \<open>Results\<close>

text \<open>\<open>SchemaBreakRecord\<close> and the \<open>ShoreError\<close> variants the modelled code constructs.\<close>

record schema_break_record =
  retired :: string
  broken_at :: string
  anchor :: string

datatype event_verification_status = Valid | Invalid | UntrustedKey | Unsigned

datatype shore_error =
    Message string
  | Json
  | InvalidEvent string
  | UnsupportedEventSchemaVersion string nat
  | UnsupportedEventType schema_break_record
  | UnsupportedEventEnvelope schema_break_record
  | WorkflowInputInvalid string
  | EventVerificationRejected string event_verification_status

type_synonym 'a result = "shore_error + 'a"

definition and_then :: "'a result \<Rightarrow> ('a \<Rightarrow> 'b result) \<Rightarrow> 'b result" where
  "and_then r f = (case r of Inl e \<Rightarrow> Inl e | Inr x \<Rightarrow> f x)"

text \<open>\<open>to_string\<close> of an unsigned integer.\<close>

definition dec_digit :: "nat \<Rightarrow> char" where
  "dec_digit n = char_of (48 + n)"

fun dec_digits :: "nat \<Rightarrow> string" where
  "dec_digits n = (if n < 10 then [dec_digit n] else dec_digits (n div 10) @ [dec_digit (n mod 10)])"

declare dec_digits.simps [simp del]

fun dec_value :: "string \<Rightarrow> nat" where
  "dec_value s = foldl (\<lambda>n c. 10 * n + (of_char c - 48)) 0 s"

lemma of_char_dec_digit [simp]: "n < 10 \<Longrightarrow> of_char (dec_digit n) = 48 + n"
  by (simp add: dec_digit_def of_char_of)

lemma dec_value_digits [simp]: "dec_value (dec_digits n) = n"
proof (induction n rule: dec_digits.induct)
  case (1 n)
  then show ?case
    by (subst dec_digits.simps) simp
qed

lemma dec_digits_inj: "dec_digits m = dec_digits n \<longleftrightarrow> m = n"
  by (metis dec_value_digits)

lemma dec_digits_range: "c \<in> set (dec_digits n) \<Longrightarrow> 48 \<le> (of_char c :: nat) \<and> (of_char c :: nat) \<le> 57"
proof (induction n rule: dec_digits.induct)
  case (1 n)
  have b: "n mod 10 < 10" by simp
  from 1 show ?case
    by (cases "n < 10") (auto simp: dec_digits.simps [of n] of_char_dec_digit [OF b])
qed

lemma and_then_simps [simp]:
  "and_then (Inl e) f = Inl e"
  "and_then (Inr x) f = f x"
  by (simp_all add: and_then_def)

lemma and_then_eq_Inr_iff: "and_then r f = Inr y \<longleftrightarrow> (\<exists>x. r = Inr x \<and> f x = Inr y)"
  by (cases r) auto

lemma and_then_eq_Inl_iff:
  "and_then r f = Inl e \<longleftrightarrow> r = Inl e \<or> (\<exists>x. r = Inr x \<and> f x = Inl e)"
  by (cases r) auto

text \<open>\<open>iter().map(f).collect::<Result<Vec<_>>>()\<close>: the first error stops the iteration.\<close>

fun try_map :: "('a \<Rightarrow> 'b result) \<Rightarrow> 'a list \<Rightarrow> 'b list result" where
  "try_map f [] = Inr []"
| "try_map f (x # xs) = and_then (f x) (\<lambda>y. and_then (try_map f xs) (\<lambda>ys. Inr (y # ys)))"

lemma try_map_Inr_iff:
  "try_map f xs = Inr ys \<longleftrightarrow> length ys = length xs \<and> (\<forall>i < length xs. f (xs ! i) = Inr (ys ! i))"
proof (induction xs arbitrary: ys)
  case (Cons x xs)
  show ?case
    by (cases ys) (auto simp: and_then_eq_Inr_iff Cons.IH less_Suc_eq_0_disj nth_Cons')
qed auto

lemma try_map_ok_iff: "(\<exists>ys. try_map f xs = Inr ys) \<longleftrightarrow> (\<forall>x \<in> set xs. \<exists>y. f x = Inr y)"
  by (induction xs) (auto simp: and_then_eq_Inr_iff)

lemma set_map_filter_iff: "y \<in> set (List.map_filter f xs) \<longleftrightarrow> (\<exists>x \<in> set xs. f x = Some y)"
  by (induction xs) (auto simp: List.map_filter_simps split: option.splits)

section \<open>BTreeSet\<close>

fun bs_insert :: "'a::linorder \<Rightarrow> 'a list \<Rightarrow> 'a list" where
  "bs_insert x [] = [x]"
| "bs_insert x (y # ys) =
     (if x < y then x # y # ys else if x = y then y # ys else y # bs_insert x ys)"

definition bs_extend :: "'a::linorder list \<Rightarrow> 'a list \<Rightarrow> 'a list" where
  "bs_extend s xs = fold bs_insert xs s"

definition bs_collect :: "'a::linorder list \<Rightarrow> 'a list" where
  "bs_collect xs = bs_extend [] xs"

definition bs_remove :: "'a::linorder \<Rightarrow> 'a list \<Rightarrow> 'a list" where
  "bs_remove x s = filter (\<lambda>y. y \<noteq> x) s"

definition bs_disjoint :: "'a list \<Rightarrow> 'a list \<Rightarrow> bool" where
  "bs_disjoint s t \<longleftrightarrow> (\<forall>x \<in> set s. x \<notin> set t)"

abbreviation bs_ok :: "'a::linorder list \<Rightarrow> bool" where
  "bs_ok s \<equiv> sorted_wrt (<) s"

lemma set_bs_insert [simp]: "set (bs_insert x s) = insert x (set s)"
  by (induction s) auto

lemma bs_ok_insert [simp, intro]: "bs_ok s \<Longrightarrow> bs_ok (bs_insert x s)"
  by (induction s) auto

lemma set_bs_extend [simp]: "set (bs_extend s xs) = set s \<union> set xs"
  by (induction xs arbitrary: s) (auto simp: bs_extend_def)

lemma bs_ok_extend [simp, intro]: "bs_ok s \<Longrightarrow> bs_ok (bs_extend s xs)"
  by (induction xs arbitrary: s) (auto simp: bs_extend_def)

lemma set_bs_collect [simp]: "set (bs_collect xs) = set xs"
  by (simp add: bs_collect_def)

lemma bs_ok_collect [simp, intro]: "bs_ok (bs_collect xs)"
  by (simp add: bs_collect_def)

lemma set_bs_remove [simp]: "set (bs_remove x s) = set s - {x}"
  by (auto simp: bs_remove_def)

lemma bs_ok_filter [simp, intro]: "bs_ok s \<Longrightarrow> bs_ok (filter P s)"
  by (rule sorted_wrt_filter)

lemma bs_ok_remove [simp, intro]: "bs_ok s \<Longrightarrow> bs_ok (bs_remove x s)"
  by (simp add: bs_remove_def)

lemma bs_disjoint_iff: "bs_disjoint s t \<longleftrightarrow> set s \<inter> set t = {}"
  by (auto simp: bs_disjoint_def)

lemma bs_ok_distinct: "bs_ok s \<Longrightarrow> distinct s"
  using strict_sorted_iff by blast

lemma bs_ok_sorted: "bs_ok s \<Longrightarrow> sorted s"
  using strict_sorted_iff by blast

lemma bs_ext: "bs_ok s \<Longrightarrow> bs_ok t \<Longrightarrow> set s = set t \<Longrightarrow> s = t"
  by (rule sorted_distinct_set_unique) (auto simp: bs_ok_distinct bs_ok_sorted)

lemma bs_collect_eq_iff: "bs_collect xs = bs_collect ys \<longleftrightarrow> set xs = set ys"
  by (metis bs_ext bs_ok_collect set_bs_collect)

lemma bs_collect_id: "bs_ok s \<Longrightarrow> bs_collect s = s"
  by (rule bs_ext) auto

lemma bs_insert_id: "bs_ok s \<Longrightarrow> x \<in> set s \<Longrightarrow> bs_insert x s = s"
  by (rule bs_ext) auto

lemma length_bs_ok: "bs_ok s \<Longrightarrow> length s = card (set s)"
  by (simp add: bs_ok_distinct distinct_card)

lemma length_bs_collect: "length (bs_collect xs) = card (set xs)"
  using length_bs_ok [OF bs_ok_collect, of xs] by simp

text \<open>The contract of an ordered set, and what any client may conclude from it.\<close>

locale ordered_set =
  fixes add :: "'a \<Rightarrow> 's \<Rightarrow> 's"
    and elems :: "'s \<Rightarrow> 'a set"
    and ok :: "'s \<Rightarrow> bool"
  assumes elems_add: "elems (add x s) = insert x (elems s)"
    and ok_add: "ok s \<Longrightarrow> ok (add x s)"
    and ext: "ok s \<Longrightarrow> ok t \<Longrightarrow> elems s = elems t \<Longrightarrow> s = t"
begin

lemma add_commute: "ok s \<Longrightarrow> add x (add y s) = add y (add x s)"
  by (rule ext) (auto simp: elems_add ok_add)

lemma add_idem: "ok s \<Longrightarrow> add x (add x s) = add x s"
  by (rule ext) (auto simp: elems_add ok_add)

lemma elems_fold: "elems (fold add xs s) = set xs \<union> elems s"
  by (induction xs arbitrary: s) (auto simp: elems_add)

lemma ok_fold: "ok s \<Longrightarrow> ok (fold add xs s)"
  by (induction xs arbitrary: s) (auto simp: ok_add)

lemma fold_add_cong: "ok s \<Longrightarrow> set xs = set ys \<Longrightarrow> fold add xs s = fold add ys s"
  by (rule ext) (auto simp: elems_fold ok_fold)

end

interpretation btreeset: ordered_set bs_insert set "sorted_wrt (<)"
  by unfold_locales (auto intro: bs_ext)

section \<open>BTreeMap\<close>

fun bm_insert :: "'k::linorder \<Rightarrow> 'v \<Rightarrow> ('k \<times> 'v) list \<Rightarrow> ('k \<times> 'v) list" where
  "bm_insert k v [] = [(k, v)]"
| "bm_insert k v (e # m) =
     (if k < fst e then (k, v) # e # m
      else if k = fst e then (k, v) # m
      else e # bm_insert k v m)"

abbreviation bm_get :: "('k \<times> 'v) list \<Rightarrow> 'k \<Rightarrow> 'v option" where
  "bm_get \<equiv> map_of"

abbreviation bm_ok :: "('k::linorder \<times> 'v) list \<Rightarrow> bool" where
  "bm_ok m \<equiv> sorted_wrt (<) (map fst m)"

definition bm_get_or :: "'v \<Rightarrow> ('k \<times> 'v) list \<Rightarrow> 'k \<Rightarrow> 'v" where
  "bm_get_or d m k = (case bm_get m k of None \<Rightarrow> d | Some v \<Rightarrow> v)"

text \<open>\<open>f(map.entry(k).or_insert(d))\<close>.\<close>

definition bm_entry :: "'k::linorder \<Rightarrow> 'v \<Rightarrow> ('v \<Rightarrow> 'v) \<Rightarrow> ('k \<times> 'v) list \<Rightarrow> ('k \<times> 'v) list" where
  "bm_entry k d f m = bm_insert k (f (bm_get_or d m k)) m"

lemma bm_get_notin: "(\<forall>j \<in> set (map fst m). (k::'k::linorder) < j) \<Longrightarrow> bm_get m k = None"
  by (induction m) auto

lemma bm_get_insert: "bm_ok m \<Longrightarrow> bm_get (bm_insert k v m) = (bm_get m)(k \<mapsto> v)"
  by (induction m) (auto simp: fun_eq_iff)

lemma keys_bm_insert [simp]: "fst ` set (bm_insert k v m) = insert k (fst ` set m)"
  by (induction m) auto

lemma bm_ok_insert [simp, intro]: "bm_ok m \<Longrightarrow> bm_ok (bm_insert k v m)"
proof (induction m)
  case (Cons e m)
  then show ?case
    using keys_bm_insert [of k v m] by (auto simp: image_iff)
qed simp

lemma bm_get_entry: "bm_ok m \<Longrightarrow> bm_get (bm_entry k d f m) = (bm_get m)(k \<mapsto> f (bm_get_or d m k))"
  by (simp add: bm_entry_def bm_get_insert)

lemma bm_ok_entry [simp, intro]: "bm_ok m \<Longrightarrow> bm_ok (bm_entry k d f m)"
  by (simp add: bm_entry_def)

lemma bm_ok_distinct: "bm_ok m \<Longrightarrow> distinct (map fst m)"
  using strict_sorted_iff by blast

lemma bm_mem_iff: "bm_ok m \<Longrightarrow> (k, v) \<in> set m \<longleftrightarrow> bm_get m k = Some v"
  by (simp add: bm_ok_distinct map_of_eq_Some_iff)

lemma bm_dom: "dom (bm_get m) = fst ` set m"
  by (simp add: dom_map_of_conv_image_fst)

lemma bm_ext: "bm_ok m \<Longrightarrow> bm_ok n \<Longrightarrow> bm_get m = bm_get n \<Longrightarrow> m = n"
proof (rule map_sorted_distinct_set_unique [where f = fst])
  assume *: "bm_ok m" "bm_ok n" "bm_get m = bm_get n"
  then show "set m = set n"
    by (auto simp: bm_mem_iff)
  then show "inj_on fst (set m \<union> set n)"
    using * bm_ok_distinct [of n] by (simp add: distinct_map)
qed (auto simp: bs_ok_distinct bs_ok_sorted)

lemma bm_get_or_Nil [simp]: "bm_get_or d [] k = d"
  by (simp add: bm_get_or_def)

lemma bm_get_or_insert:
  "bm_ok m \<Longrightarrow> bm_get_or d (bm_insert k v m) j = (if j = k then v else bm_get_or d m j)"
  by (simp add: bm_get_or_def bm_get_insert)

lemma bm_values_mem: "bm_ok m \<Longrightarrow> v \<in> set (map snd m) \<longleftrightarrow> (\<exists>k. bm_get m k = Some v)"
  unfolding set_map image_iff Bex_def by (metis bm_mem_iff prod.collapse snd_conv)

text \<open>The contract of an ordered map.\<close>

locale ordered_map =
  fixes put :: "'k \<Rightarrow> 'v \<Rightarrow> 'm \<Rightarrow> 'm"
    and look :: "'m \<Rightarrow> 'k \<Rightarrow> 'v option"
    and ok :: "'m \<Rightarrow> bool"
  assumes look_put: "ok m \<Longrightarrow> look (put k v m) = (look m)(k \<mapsto> v)"
    and ok_put: "ok m \<Longrightarrow> ok (put k v m)"
    and ext: "ok m \<Longrightarrow> ok n \<Longrightarrow> look m = look n \<Longrightarrow> m = n"
begin

lemma put_commute:
  "ok m \<Longrightarrow> k \<noteq> j \<or> v = w \<Longrightarrow> put k v (put j w m) = put j w (put k v m)"
  by (rule ext) (auto simp: look_put ok_put)

lemma put_overwrite: "ok m \<Longrightarrow> put k v (put k w m) = put k v m"
  by (rule ext) (auto simp: look_put ok_put)

lemma put_id: "ok m \<Longrightarrow> look m k = Some v \<Longrightarrow> put k v m = m"
  by (rule ext) (auto simp: look_put ok_put)

end

interpretation btreemap: ordered_map bm_insert map_of "\<lambda>m. sorted_wrt (<) (map fst m)"
  by unfold_locales (auto simp: bm_get_insert intro: bm_ext)

lemma bm_entry_commute:
  assumes ok: "bm_ok m" and comm: "k = j \<Longrightarrow> f \<circ> g = g \<circ> f"
  shows "bm_entry k d f (bm_entry j d g m) = bm_entry j d g (bm_entry k d f m)"
proof (cases "k = j")
  case True
  with ok show ?thesis
    by (simp add: bm_entry_def bm_get_or_insert btreemap.put_overwrite fun_cong [OF comm, unfolded comp_def])
next
  case False
  with ok show ?thesis
    by (simp add: bm_entry_def bm_get_or_insert btreemap.put_commute)
qed

lemma bm_get_or_ok:
  "list_all (\<lambda>e. P (snd e)) m \<Longrightarrow> P d \<Longrightarrow> P (bm_get_or d m k)"
  by (force simp: bm_get_or_def list_all_iff dest: map_of_SomeD split: option.splits)

lemma values_bm_insert: "bm_ok m \<Longrightarrow> list_all (\<lambda>e. P (snd e)) m \<Longrightarrow> P v \<Longrightarrow> list_all (\<lambda>e. P (snd e)) (bm_insert k v m)"
  by (induction m) auto

lemma values_bm_entry:
  "bm_ok m \<Longrightarrow> list_all (\<lambda>e. P (snd e)) m \<Longrightarrow> P d \<Longrightarrow> (\<And>v. P v \<Longrightarrow> P (f v)) \<Longrightarrow>
     list_all (\<lambda>e. P (snd e)) (bm_entry k d f m)"
  unfolding bm_entry_def by (rule values_bm_insert) (auto intro: bm_get_or_ok)

lemma revisions_values_ok:
  "bm_ok m \<Longrightarrow> list_all (\<lambda>e. bs_ok (snd e)) m \<Longrightarrow> list_all (\<lambda>e. bs_ok (snd e)) (bm_entry k [] (bs_insert x) m)"
  by (rule values_bm_entry) auto

lemma bm_get_or_entry:
  "bm_ok m \<Longrightarrow> bm_get_or d (bm_entry k d' f m) j = (if j = k then f (bm_get_or d' m k) else bm_get_or d m j)"
  by (simp add: bm_get_or_def bm_get_entry)

lemma bm_fold_insert:
  "bm_ok m \<Longrightarrow> bm_ok (fold (\<lambda>(k, v). bm_insert k v) xs m) \<and>
     bm_get (fold (\<lambda>(k, v). bm_insert k v) xs m) = bm_get m ++ map_of (rev xs)"
  by (induction xs arbitrary: m) (auto simp: bm_get_insert map_add_assoc [symmetric] map_add_def fun_eq_iff split: option.splits)

lemma map_of_functional:
  assumes "\<And>k v w. (k, v) \<in> set xs \<Longrightarrow> (k, w) \<in> set xs \<Longrightarrow> v = w"
  shows "map_of xs k = Some v \<longleftrightarrow> (k, v) \<in> set xs"
  using assms map_of_SomeD [of xs k] weak_map_of_SomeI [of k v xs] by blast

section \<open>Folds over unordered sets of events\<close>

text \<open>
  A projection folds a step over a list of facts whose order carries no meaning. The
  contract: on well-formed states the step respects an equivalence, and the steps of
  compatible facts commute up to it. Then any permutation of pairwise compatible facts
  folds to an equivalent state.
\<close>

locale unordered_fold =
  fixes step :: "'f \<Rightarrow> 's \<Rightarrow> 's"
    and ok :: "'s \<Rightarrow> bool"
    and equiv :: "'s \<Rightarrow> 's \<Rightarrow> bool"
    and compat :: "'f \<Rightarrow> 'f \<Rightarrow> bool"
  assumes equiv_refl: "equiv s s"
    and equiv_sym: "equiv s t \<Longrightarrow> equiv t s"
    and equiv_trans: "equiv s t \<Longrightarrow> equiv t u \<Longrightarrow> equiv s u"
    and ok_step: "ok s \<Longrightarrow> ok (step f s)"
    and step_equiv: "ok s \<Longrightarrow> ok t \<Longrightarrow> equiv s t \<Longrightarrow> equiv (step f s) (step f t)"
    and step_commute: "ok s \<Longrightarrow> compat f g \<Longrightarrow> equiv (step f (step g s)) (step g (step f s))"
begin

lemma fold_ok: "ok s \<Longrightarrow> ok (fold step fs s)"
  by (induction fs arbitrary: s) (auto simp: ok_step)

lemma fold_equiv: "ok s \<Longrightarrow> ok t \<Longrightarrow> equiv s t \<Longrightarrow> equiv (fold step fs s) (fold step fs t)"
  by (induction fs arbitrary: s t) (auto simp: ok_step step_equiv)

lemma fold_move:
  assumes "ok s" and "\<forall>g \<in> set fs. compat f g"
  shows "equiv (fold step (fs @ f # gs) s) (fold step (f # fs @ gs) s)"
  using assms
proof (induction fs arbitrary: s)
  case Nil
  then show ?case by (simp add: equiv_refl)
next
  case (Cons g fs)
  have 1: "equiv (fold step (fs @ f # gs) (step g s)) (fold step (f # fs @ gs) (step g s))"
    using Cons.prems by (intro Cons.IH) (auto simp: ok_step)
  have 2: "equiv (fold step (fs @ gs) (step f (step g s))) (fold step (fs @ gs) (step g (step f s)))"
    using Cons.prems by (intro fold_equiv step_commute) (auto simp: ok_step)
  show ?case
    using equiv_trans [OF 1] 2 by simp
qed

lemma fold_permuted:
  assumes "mset fs = mset gs" and "ok s"
    and "\<forall>f \<in> set fs. \<forall>g \<in> set fs. compat f g"
  shows "equiv (fold step fs s) (fold step gs s)"
  using assms
proof (induction fs arbitrary: gs s)
  case Nil
  then show ?case by (simp add: equiv_refl)
next
  case (Cons f fs)
  have "f \<in> set gs"
    using mset_eq_setD [OF Cons.prems(1)] by auto
  then obtain hs ks where gs: "gs = hs @ f # ks"
    by (meson split_list)
  with Cons.prems(1) have perm: "mset fs = mset (hs @ ks)"
    by simp
  from mset_eq_setD [OF this] have sets: "set hs \<union> set ks = set fs"
    by simp
  have 1: "equiv (fold step fs (step f s)) (fold step (hs @ ks) (step f s))"
    using Cons.prems perm by (intro Cons.IH) (auto simp: ok_step)
  have 2: "equiv (fold step (f # hs @ ks) s) (fold step gs s)"
    unfolding gs using Cons.prems sets by (intro equiv_sym [OF fold_move]) auto
  show ?case
    using equiv_trans [OF 1] 2 by simp
qed

end
lemma bm_get_or_mem: "y \<in> set (bm_get_or [] m k) \<Longrightarrow> \<exists>ys. (k, ys) \<in> set m \<and> y \<in> set ys"
  by (cases "bm_get m k") (auto simp: bm_get_or_def dest: map_of_SomeD)

lemma option_eqI: "(\<And>y. a = Some y \<longleftrightarrow> b = Some y) \<Longrightarrow> a = b"
  by (cases a; cases b) auto

lemma bm_get_filter_keys: "bm_get (filter (\<lambda>(k, _). P k) m) k = (if P k then bm_get m k else None)"
  by (induction m) auto

lemma filter_more_than_one:
  assumes "distinct xs"
  shows "length (filter P xs) > 1 \<longleftrightarrow> (\<exists>a b. a \<noteq> b \<and> a \<in> set xs \<and> b \<in> set xs \<and> P a \<and> P b)"
proof -
  have "length (filter P xs) = card {x \<in> set xs. P x}"
    using distinct_card [of "filter P xs"] assms by simp
  then show ?thesis
    using card_le_Suc0_iff_eq [of "{x \<in> set xs. P x}"] by (auto simp: not_le [symmetric])
qed

lemma append_less_iff:
  fixes a b s t :: "'a::linorder list"
  assumes "length a = length b"
  shows "a @ s < b @ t \<longleftrightarrow> a < b \<or> a = b \<and> s < t"
  using assms by (induction a b rule: list_induct2) auto

lemma set_bm_insert: "set (bm_insert k v m) \<subseteq> insert (k, v) (set m)"
  by (induction m) auto

lemma find_append: "List.find P (xs @ ys) = (case List.find P xs of None \<Rightarrow> List.find P ys | Some x \<Rightarrow> Some x)"
  by (induction xs) auto

end
