(* ===== verification/Revision_Graph.thy ===== *)
theory Revision_Graph
  imports Prelude
begin

text \<open>
  The graph algorithms of \<open>src/src/model/change.rs\<close> on the replacement edges of one
  Change. An edge \<open>(successor, predecessor)\<close> says that the successor Revision replaces
  the predecessor; the edges are a \<open>BTreeSet\<close>, so a strictly increasing list of pairs.
  The algorithms are the code's own (a depth-first search with a \<open>visiting\<close> and a
  \<open>visited\<close> set, an ancestor search with an explicit stack); the lemmas relate them to
  reachability in the relation \<open>set supersedes\<close>.
\<close>

section \<open>Current Revisions\<close>

definition current_revisions :: "'a list \<Rightarrow> ('a \<times> 'a) list \<Rightarrow> 'a list" where
  "current_revisions members supersedes =
     (let replaced = map snd supersedes in filter (\<lambda>m. m \<notin> set replaced) members)"

lemma set_current_revisions:
  "set (current_revisions members supersedes) = set members - snd ` set supersedes"
  by (auto simp: current_revisions_def)

lemma bs_ok_current_revisions: "bs_ok members \<Longrightarrow> bs_ok (current_revisions members supersedes)"
  by (simp add: current_revisions_def)

section \<open>Cycle detection\<close>

definition predecessors_of :: "('a \<times> 'a) list \<Rightarrow> 'a \<Rightarrow> 'a list" where
  "predecessors_of supersedes node = map snd (filter (\<lambda>e. fst e = node) supersedes)"

text \<open>
  \<open>visit\<close> returns whether a cycle was found and the two mutable sets; \<open>visit_any\<close> is the
  iterator's short-circuiting \<open>any\<close> over the predecessors of a node.
\<close>

function visit :: "('a::linorder \<times> 'a) list \<Rightarrow> 'a \<Rightarrow> 'a list \<Rightarrow> 'a list \<Rightarrow> bool \<times> 'a list \<times> 'a list"
  and visit_any :: "('a \<times> 'a) list \<Rightarrow> 'a list \<Rightarrow> 'a list \<Rightarrow> 'a list \<Rightarrow> bool \<times> 'a list \<times> 'a list"
where
  "visit supersedes node visiting visited =
     (if node \<in> set visiting then (True, visiting, visited)
      else if node \<in> set visited then (False, visiting, visited)
      else case visit_any supersedes (predecessors_of supersedes node)
                  (bs_insert node visiting) (bs_insert node visited) of
             (cycle, visiting', visited') \<Rightarrow> (cycle, bs_remove node visiting', visited'))"
| "visit_any supersedes [] visiting visited = (False, visiting, visited)"
| "visit_any supersedes (p # ps) visiting visited =
     (case visit supersedes p visiting visited of
        (cycle, visiting', visited') \<Rightarrow>
          if cycle then (True, visiting', visited')
          else visit_any supersedes ps visiting' visited')"
  by pat_completeness auto

lemma visit_dom_mono:
  "visit_visit_any_dom (Inl (g, n, vg, vd)) \<Longrightarrow> set vd \<subseteq> set (snd (snd (visit g n vg vd)))"
  "visit_visit_any_dom (Inr (g, ps, vg, vd)) \<Longrightarrow> set vd \<subseteq> set (snd (snd (visit_any g ps vg vd)))"
proof (induction g n vg vd and g ps vg vd rule: visit_visit_any.pinduct)
  case (1 g n vg vd)
  then show ?case
    by (auto simp: visit.psimps split: prod.splits)
next
  case (2 g vg vd)
  then show ?case by (simp add: visit_any.psimps)
next
  case (3 g p ps vg vd)
  obtain c vg' vd' where "visit g p vg vd = (c, vg', vd')"
    by (cases "visit g p vg vd")
  with 3 show ?case
    by (auto simp: visit_any.psimps(2))
qed

termination visit
proof (relation "measures
    [\<lambda>a. case a of Inl (g, n, vg, vd) \<Rightarrow> card (fst ` set g - set vd)
               | Inr (g, ps, vg, vd) \<Rightarrow> card (fst ` set g - set vd),
     \<lambda>a. case a of Inl (g, n, vg, vd) \<Rightarrow> 1
               | Inr (g, ps, vg, vd) \<Rightarrow> 2 * length ps]", goal_cases)
  case 1
  then show ?case by simp
next
  case (2 g n vg vd)
  show ?case
  proof (cases "n \<in> fst ` set g")
    case True
    with 2 have "card (fst ` set g - set (bs_insert n vd)) < card (fst ` set g - set vd)"
      by (intro psubset_card_mono) auto
    then show ?thesis by simp
  next
    case False
    then have "predecessors_of g n = []" and "fst ` set g - set (bs_insert n vd) = fst ` set g - set vd"
      by (auto simp: predecessors_of_def filter_empty_conv)
    then show ?thesis by simp
  qed
next
  case (3 g p ps vg vd)
  then show ?case by simp
next
  case (4 g p ps vg vd x y vg' vd')
  then have "visit g p vg vd = (x, vg', vd')"
    by simp
  then have "set vd \<subseteq> set vd'"
    using visit_dom_mono(1) [OF 4(4)] by simp
  then have "card (fst ` set g - set vd') \<le> card (fst ` set g - set vd)"
    by (intro card_mono) auto
  then show ?case by auto
qed

declare visit.simps [simp del] visit_any.simps(2) [simp del]

text \<open>\<open>members.iter().any(...)\<close>: a fresh \<open>visiting\<close> set per member, one shared \<open>visited\<close> set.\<close>

fun visit_members :: "('a::linorder \<times> 'a) list \<Rightarrow> 'a list \<Rightarrow> 'a list \<Rightarrow> bool" where
  "visit_members supersedes [] visited = False"
| "visit_members supersedes (m # ms) visited =
     (case visit supersedes m [] visited of
        (cycle, _, visited') \<Rightarrow> cycle \<or> visit_members supersedes ms visited')"

definition revision_graph_has_cycle :: "'a::linorder list \<Rightarrow> ('a \<times> 'a) list \<Rightarrow> bool" where
  "revision_graph_has_cycle members supersedes = visit_members supersedes members []"

definition on_cycle :: "('a \<times> 'a) list \<Rightarrow> 'a \<Rightarrow> bool" where
  "on_cycle g n \<longleftrightarrow> (\<exists>x. (n, x) \<in> (set g)\<^sup>* \<and> (x, x) \<in> (set g)\<^sup>+)"

text \<open>The finished nodes (visited, not on the current path) are closed and lie on no cycle.\<close>

definition dfs_inv :: "('a \<times> 'a) list \<Rightarrow> 'a list \<Rightarrow> 'a list \<Rightarrow> bool" where
  "dfs_inv g visiting visited \<longleftrightarrow>
     set visiting \<subseteq> set visited \<and>
     (\<forall>x \<in> set visited - set visiting.
        set g `` {x} \<subseteq> set visited - set visiting \<and> (x, x) \<notin> (set g)\<^sup>+)"

lemma set_predecessors_of: "set (predecessors_of g n) = set g `` {n}"
  by (auto simp: predecessors_of_def image_iff)

lemma trancl_closed:
  assumes "(a, b) \<in> r\<^sup>+" and "r `` {a} \<subseteq> D" and "r `` D \<subseteq> D"
  shows "b \<in> D"
  using assms by (induction rule: trancl_induct) auto

lemma dfs_inv_push: "dfs_inv g vg vd \<Longrightarrow> n \<notin> set vd \<Longrightarrow> dfs_inv g (bs_insert n vg) (bs_insert n vd)"
  by (auto simp: dfs_inv_def)

lemma dfs_inv_finish:
  assumes inv: "dfs_inv g vg' vd'" and vg': "set vg' = insert n (set vg)" and "n \<notin> set vg"
    and fin: "set g `` {n} \<subseteq> set vd' - set vg'" and "n \<in> set vd'"
  shows "dfs_inv g (bs_remove n vg') vd'"
proof -
  have "(n, n) \<notin> (set g)\<^sup>+"
  proof
    assume "(n, n) \<in> (set g)\<^sup>+"
    then have "n \<in> set vd' - set vg'"
      by (rule trancl_closed) (use inv fin in \<open>auto simp: dfs_inv_def\<close>)
    with vg' show False by simp
  qed
  with assms show ?thesis
    unfolding dfs_inv_def by auto
qed

lemma visit_spec:
  "dfs_inv g vg vd \<Longrightarrow> \<forall>v \<in> set vg. (v, n) \<in> (set g)\<^sup>+ \<Longrightarrow> visit g n vg vd = (c, vg', vd') \<Longrightarrow>
     (c \<longrightarrow> on_cycle g n) \<and>
     (\<not> c \<longrightarrow> dfs_inv g vg' vd' \<and> set vg' = set vg \<and> set vd \<subseteq> set vd' \<and> n \<in> set vd' - set vg')"
  "dfs_inv g vg vd \<Longrightarrow> \<forall>p \<in> set ps. \<forall>v \<in> set vg. (v, p) \<in> (set g)\<^sup>+ \<Longrightarrow>
     visit_any g ps vg vd = (c, vg', vd') \<Longrightarrow>
     (c \<longrightarrow> (\<exists>p \<in> set ps. on_cycle g p)) \<and>
     (\<not> c \<longrightarrow> dfs_inv g vg' vd' \<and> set vg' = set vg \<and> set vd \<subseteq> set vd' \<and> set ps \<subseteq> set vd' - set vg')"
proof (induction g n vg vd and g ps vg vd arbitrary: c vg' vd' and c vg' vd' rule: visit_visit_any.induct)
  case (1 g n vg vd)
  show ?case
  proof (cases "n \<in> set vg \<or> n \<in> set vd")
    case True
    with "1.prems" show ?thesis
      by (auto simp: visit.simps on_cycle_def split: if_splits)
  next
    case False
    obtain vg1 where any: "visit_any g (predecessors_of g n) (bs_insert n vg) (bs_insert n vd) = (c, vg1, vd')"
      and vg': "vg' = bs_remove n vg1"
      using "1.prems"(3) False by (auto simp: visit.simps split: prod.splits)
    have "\<forall>p \<in> set (predecessors_of g n). \<forall>v \<in> set (bs_insert n vg). (v, p) \<in> (set g)\<^sup>+"
      using "1.prems"(2) by (auto simp: set_predecessors_of intro: trancl_into_trancl)
    then have
      *: "(c \<longrightarrow> (\<exists>p \<in> set (predecessors_of g n). on_cycle g p)) \<and>
          (\<not> c \<longrightarrow> dfs_inv g vg1 vd' \<and> set vg1 = insert n (set vg) \<and> insert n (set vd) \<subseteq> set vd' \<and>
               set (predecessors_of g n) \<subseteq> set vd' - set vg1)"
      using "1.IH" [OF _ _ dfs_inv_push [OF "1.prems"(1)] _ any] False by auto
    show ?thesis
    proof (cases c)
      case True
      with * show ?thesis
        by (auto simp: on_cycle_def set_predecessors_of intro: converse_rtrancl_into_rtrancl)
    next
      case False': False
      with * False have "dfs_inv g vg' vd'"
        unfolding vg' by (intro dfs_inv_finish) (auto simp: set_predecessors_of)
      with * False False' show ?thesis
        by (auto simp: vg')
    qed
  qed
next
  case (2 g vg vd)
  then show ?case by auto
next
  case (3 g p ps vg vd)
  obtain c1 vg1 vd1 where v: "visit g p vg vd = (c1, vg1, vd1)"
    by (cases "visit g p vg vd")
  have *: "(c1 \<longrightarrow> on_cycle g p) \<and>
     (\<not> c1 \<longrightarrow> dfs_inv g vg1 vd1 \<and> set vg1 = set vg \<and> set vd \<subseteq> set vd1 \<and> p \<in> set vd1 - set vg1)"
    using "3.prems"(2) by (intro "3.IH"(1) [OF "3.prems"(1) _ v]) simp
  show ?case
  proof (cases c1)
    case True
    with * "3.prems"(3) v show ?thesis
      by (auto simp: visit_any.simps(2))
  next
    case False
    with "3.prems"(3) v have "visit_any g ps vg1 vd1 = (c, vg', vd')"
      by (simp add: visit_any.simps(2))
    then have "(c \<longrightarrow> (\<exists>p \<in> set ps. on_cycle g p)) \<and>
       (\<not> c \<longrightarrow> dfs_inv g vg' vd' \<and> set vg' = set vg1 \<and> set vd1 \<subseteq> set vd' \<and>
          set ps \<subseteq> set vd' - set vg')"
      using * False "3.prems"(2) by (intro "3.IH"(2) [OF v [symmetric] refl]) auto
    with * False show ?thesis by auto
  qed
qed

lemma visit_members_spec:
  "dfs_inv g [] vd \<Longrightarrow> visit_members g ms vd \<longleftrightarrow> (\<exists>m \<in> set ms. on_cycle g m)"
proof (induction ms arbitrary: vd)
  case (Cons m ms)
  obtain c vg' vd' where v: "visit g m [] vd = (c, vg', vd')"
    by (cases "visit g m [] vd")
  have *: "(c \<longrightarrow> on_cycle g m) \<and>
     (\<not> c \<longrightarrow> dfs_inv g vg' vd' \<and> set vg' = {} \<and> set vd \<subseteq> set vd' \<and> m \<in> set vd' - set vg')"
    using visit_spec(1) [OF Cons.prems _ v] by auto
  show ?case
  proof (cases c)
    case True
    with * v show ?thesis by simp
  next
    case False
    with * have inv: "dfs_inv g [] vd'" and "m \<in> set vd'"
      by (auto simp: dfs_inv_def)
    have "\<not> on_cycle g m"
    proof
      assume "on_cycle g m"
      then obtain x where x: "(m, x) \<in> (set g)\<^sup>*" "(x, x) \<in> (set g)\<^sup>+"
        by (auto simp: on_cycle_def)
      from x(1) have "x \<in> set vd'"
        by (induction rule: rtrancl_induct) (use inv \<open>m \<in> set vd'\<close> in \<open>auto simp: dfs_inv_def\<close>)
      with inv x(2) show False by (auto simp: dfs_inv_def)
    qed
    with v False Cons.IH [OF inv] show ?thesis by simp
  qed
qed simp

lemma revision_graph_has_cycle_iff:
  "revision_graph_has_cycle members supersedes \<longleftrightarrow> (\<exists>m \<in> set members. on_cycle supersedes m)"
  unfolding revision_graph_has_cycle_def by (rule visit_members_spec) (simp add: dfs_inv_def)

text \<open>When every endpoint is a member, the search decides acyclicity of the whole relation.\<close>

lemma revision_graph_has_cycle_acyclic:
  assumes "fst ` set supersedes \<subseteq> set members"
  shows "revision_graph_has_cycle members supersedes \<longleftrightarrow> \<not> acyclic (set supersedes)"
proof -
  have "x \<in> set members" if "(x, x) \<in> (set supersedes)\<^sup>+" for x
    using that assms by (auto dest!: tranclD)
  then show ?thesis
    by (auto simp: revision_graph_has_cycle_iff acyclic_def on_cycle_def)
qed

section \<open>Divergence of replacement heads\<close>

text \<open>
  The ancestor search of one head: \<open>pending\<close> is the Rust vector used as a stack, its last
  element first. The inner loop walks the edges in order; a newly found predecessor is
  pushed.
\<close>

fun push_found :: "'a::linorder list \<Rightarrow> 'a list \<times> 'a list \<Rightarrow> 'a list \<times> 'a list" where
  "push_found [] (found, pending) = (found, pending)"
| "push_found (p # ps) (found, pending) =
     (if p \<in> set found then push_found ps (found, pending)
      else push_found ps (bs_insert p found, p # pending))"

lemma push_found_set:
  "push_found ps (found, pending) = (found', pending') \<Longrightarrow>
     set found' = set found \<union> set ps \<and> set pending' = set pending \<union> (set ps - set found) \<and>
     card (set found') = card (set found) + (length pending' - length pending) \<and>
     length pending \<le> length pending'"
proof (induction ps arbitrary: found pending)
  case (Cons p ps)
  show ?case
  proof (cases "p \<in> set found")
    case True
    with Cons.IH [of found pending] Cons.prems show ?thesis by auto
  next
    case False
    with Cons.prems have "push_found ps (bs_insert p found, p # pending) = (found', pending')"
      by simp
    from Cons.IH [OF this] False show ?thesis by auto
  qed
qed simp

function ancestors_loop :: "('a::linorder \<times> 'a) list \<Rightarrow> 'a list \<Rightarrow> 'a list \<Rightarrow> 'a list" where
  "ancestors_loop supersedes found [] = found"
| "ancestors_loop supersedes found (node # pending) =
     (case push_found (predecessors_of supersedes node) (found, pending) of
        (found', pending') \<Rightarrow> ancestors_loop supersedes found' pending')"
  by pat_completeness auto
termination
proof (relation "measures
    [\<lambda>(g, found, pending). card (snd ` set g - set found), \<lambda>(g, found, pending). length pending]", goal_cases)
  case (2 g found node pending found' pending')
  then have p: "push_found (predecessors_of g node) (found, pending) = (found', pending')"
    by simp
  note * = push_found_set [OF p]
  show ?case
  proof (cases "set (predecessors_of g node) \<subseteq> set found")
    case True
    with * have "set found' = set found" by auto
    with * have "length pending' = length pending" by simp
    with \<open>set found' = set found\<close> show ?thesis by simp
  next
    case False
    then obtain y where "y \<in> set (predecessors_of g node)" "y \<notin> set found" by auto
    then have "y \<in> snd ` set g" "y \<in> set found'"
      using * by (force simp: set_predecessors_of)+
    with \<open>y \<notin> set found\<close> * have "card (snd ` set g - set found') < card (snd ` set g - set found)"
      by (intro psubset_card_mono) auto
    then show ?thesis by simp
  qed
qed simp

declare ancestors_loop.simps(2) [simp del]

definition ancestors_of :: "('a::linorder \<times> 'a) list \<Rightarrow> 'a \<Rightarrow> 'a list" where
  "ancestors_of supersedes head = ancestors_loop supersedes [] [head]"

definition replacement_heads_diverge :: "'a::linorder list \<Rightarrow> ('a \<times> 'a) list \<Rightarrow> bool" where
  "replacement_heads_diverge current supersedes =
     (let ancestors = map (ancestors_of supersedes) current
      in \<exists>left \<in> set [0..<length ancestors]. \<exists>right \<in> set [left + 1..<length ancestors].
           \<not> bs_disjoint (ancestors ! left) (ancestors ! right))"

text \<open>
  Invariant of the loop: found nodes are proper ancestors of the head, and every
  predecessor of the head or of a found node is found already unless its source is still
  pending.
\<close>

lemma ancestors_loop_spec:
  assumes "set found \<subseteq> {x. (h, x) \<in> (set g)\<^sup>+}"
    and "set pending \<subseteq> insert h (set found)"
    and "set g `` (insert h (set found) - set pending) \<subseteq> set found"
  shows "set (ancestors_loop g found pending) = {x. (h, x) \<in> (set g)\<^sup>+}"
  using assms
proof (induction g found pending rule: ancestors_loop.induct)
  case (1 g found)
  show ?case
  proof
    show "{x. (h, x) \<in> (set g)\<^sup>+} \<subseteq> set (ancestors_loop g found [])"
    proof
      fix x
      assume "x \<in> {x. (h, x) \<in> (set g)\<^sup>+}"
      then have "(h, x) \<in> (set g)\<^sup>+" by simp
      then have "x \<in> set found"
        by (rule trancl_closed) (use "1.prems"(3) in auto)
      then show "x \<in> set (ancestors_loop g found [])" by simp
    qed
  qed (use "1.prems"(1) in simp)
next
  case (2 g found node pending)
  obtain found' pending' where p: "push_found (predecessors_of g node) (found, pending) = (found', pending')"
    by (cases "push_found (predecessors_of g node) (found, pending)")
  note * = push_found_set [OF p, unfolded set_predecessors_of]
  have node: "node = h \<or> (h, node) \<in> (set g)\<^sup>+"
    using "2.prems"(1,2) by auto
  have "set (ancestors_loop g found' pending') = {x. (h, x) \<in> (set g)\<^sup>+}"
  proof (rule "2.IH" [OF p [symmetric]])
    show "set found' \<subseteq> {x. (h, x) \<in> (set g)\<^sup>+}"
      using * node "2.prems"(1) by (auto intro: trancl_into_trancl)
    show "set pending' \<subseteq> insert h (set found')"
      using * "2.prems"(2) by auto
    show "set g `` (insert h (set found') - set pending') \<subseteq> set found'"
      using * "2.prems"(3) by auto
  qed
  with p show ?case by (simp add: ancestors_loop.simps(2))
qed

lemma set_ancestors_of: "set (ancestors_of supersedes head) = {x. (head, x) \<in> (set supersedes)\<^sup>+}"
  unfolding ancestors_of_def by (rule ancestors_loop_spec) auto

lemma replacement_heads_diverge_iff:
  assumes "bs_ok current"
  shows "replacement_heads_diverge current supersedes \<longleftrightarrow>
    (\<exists>a \<in> set current. \<exists>b \<in> set current. a \<noteq> b \<and>
       (\<exists>x. (a, x) \<in> (set supersedes)\<^sup>+ \<and> (b, x) \<in> (set supersedes)\<^sup>+))"
    (is "?l \<longleftrightarrow> ?r")
proof -
  let ?meet = "\<lambda>a b. \<exists>x. (a, x) \<in> (set supersedes)\<^sup>+ \<and> (b, x) \<in> (set supersedes)\<^sup>+"
  have meet: "\<not> bs_disjoint (map (ancestors_of supersedes) current ! i) (map (ancestors_of supersedes) current ! j)
      \<longleftrightarrow> ?meet (current ! i) (current ! j)" if "i < length current" "j < length current" for i j
    using that by (auto simp: bs_disjoint_iff set_ancestors_of)
  have l: "?l \<longleftrightarrow> (\<exists>i j. i < j \<and> j < length current \<and> ?meet (current ! i) (current ! j))"
  proof
    assume ?l
    then obtain i j where "i \<in> set [0..<length (map (ancestors_of supersedes) current)]"
      "j \<in> set [i + 1..<length (map (ancestors_of supersedes) current)]"
      "\<not> bs_disjoint (map (ancestors_of supersedes) current ! i) (map (ancestors_of supersedes) current ! j)"
      unfolding replacement_heads_diverge_def Let_def by blast
    with meet [of i j] show "\<exists>i j. i < j \<and> j < length current \<and> ?meet (current ! i) (current ! j)"
      by (intro exI [of _ i] exI [of _ j]) auto
  next
    assume "\<exists>i j. i < j \<and> j < length current \<and> ?meet (current ! i) (current ! j)"
    then obtain i j where "i < j" "j < length current" "?meet (current ! i) (current ! j)"
      by blast
    with meet [of i j] show ?l
      unfolding replacement_heads_diverge_def Let_def by (intro bexI [of _ i] bexI [of _ j]) auto
  qed
  show ?thesis
  proof
    assume ?l
    then obtain i j where ij: "i < j" "j < length current" "?meet (current ! i) (current ! j)"
      using l by blast
    then have "current ! i \<noteq> current ! j"
      using bs_ok_distinct [OF assms] by (simp add: nth_eq_iff_index_eq)
    with ij show ?r
      by (intro bexI [of _ "current ! i"] bexI [of _ "current ! j"]) auto
  next
    assume ?r
    then obtain a b where ab: "a \<in> set current" "b \<in> set current" "a \<noteq> b" "?meet a b"
      by blast
    then obtain i j where ij: "i < length current" "a = current ! i" "j < length current" "b = current ! j"
      by (auto simp: in_set_conv_nth)
    with ab show ?l
      unfolding l by (cases i j rule: linorder_cases) auto
  qed
qed

section \<open>Every member is below a current Revision\<close>

lemma current_above:
  assumes "acyclic (set supersedes)" and "fst ` set supersedes \<subseteq> set members" and "m \<in> set members"
  shows "\<exists>c \<in> set (current_revisions members supersedes). (c, m) \<in> (set supersedes)\<^sup>*"
proof -
  from assms(1) have "wf (set supersedes)"
    by (simp add: finite_acyclic_wf)
  then show ?thesis
    using assms(3)
  proof (induction m)
    case (less m)
    show ?case
    proof (cases "m \<in> snd ` set supersedes")
      case True
      then obtain s where s: "(s, m) \<in> set supersedes" by auto
      with assms(2) have "s \<in> set members" by force
      from less.IH [OF s this] s show ?thesis
        by (meson rtrancl.rtrancl_into_rtrancl)
    next
      case False
      with less.prems show ?thesis
        by (auto simp: set_current_revisions)
    qed
  qed
qed

section \<open>Properties\<close>

text \<open>C9. The cycle search of a Change's Revisions answers yes exactly when some member reaches,
  along replacement edges, a Revision that reaches itself: the shared \<open>visited\<close> set never
  hides a cycle and never reports one that is not there.\<close>

theorem cycle_search_correct:
  "revision_graph_has_cycle members supersedes \<longleftrightarrow>
     (\<exists>m \<in> set members. \<exists>x. (m, x) \<in> (set supersedes)\<^sup>* \<and> (x, x) \<in> (set supersedes)\<^sup>+)"
  by (simp add: revision_graph_has_cycle_iff on_cycle_def)

text \<open>C28. Two current Revisions are reported as divergent exactly when two different ones
  replace, directly or through other Revisions, a common Revision.\<close>

theorem heads_diverge_correct:
  assumes "bs_ok current"
  shows "replacement_heads_diverge current supersedes \<longleftrightarrow>
    (\<exists>a \<in> set current. \<exists>b \<in> set current. a \<noteq> b \<and>
       (\<exists>x. (a, x) \<in> (set supersedes)\<^sup>+ \<and> (b, x) \<in> (set supersedes)\<^sup>+))"
  by (rule replacement_heads_diverge_iff [OF assms])

theorem heads_diverge_correct_witness:
  "bs_ok [''b'', ''c''] \<and> (\<exists>a \<in> set [''b'', ''c'']. \<exists>b \<in> set [''b'', ''c'']. a \<noteq> b \<and>
     (\<exists>x. (a, x) \<in> (set [(''b'', ''a''), (''c'', ''a'')])\<^sup>+ \<and>
          (b, x) \<in> (set [(''b'', ''a''), (''c'', ''a'')])\<^sup>+))"
proof -
  have ok: "bs_ok [''b'', ''c'']" by code_simp
  moreover have "replacement_heads_diverge [''b'', ''c''] [(''b'', ''a''), (''c'', ''a'')]"
    by code_simp
  ultimately show ?thesis
    unfolding heads_diverge_correct [OF ok] by blast
qed

text \<open>When the search finds no cycle, every member is current or is replaced, in one or more
  steps, by a current member; so a nonempty acyclic Change always has a current Revision.\<close>

theorem current_revision_above_every_member:
  assumes "\<not> revision_graph_has_cycle members supersedes"
    and "fst ` set supersedes \<subseteq> set members" and "m \<in> set members"
  shows "\<exists>c \<in> set (current_revisions members supersedes). (c, m) \<in> (set supersedes)\<^sup>*"
  using assms by (intro current_above) (simp_all add: revision_graph_has_cycle_acyclic)

theorem current_revision_above_every_member_witness:
  "\<not> revision_graph_has_cycle [''a'', ''b'', ''c''] [(''b'', ''a''), (''c'', ''b'')] \<and>
   (\<exists>c \<in> set (current_revisions [''a'', ''b'', ''c''] [(''b'', ''a''), (''c'', ''b'')]).
      (c, ''a'') \<in> (set [(''b'', ''a''), (''c'', ''b'')])\<^sup>*)"
proof -
  have no: "\<not> revision_graph_has_cycle [''a'', ''b'', ''c''] [(''b'', ''a''), (''c'', ''b'')]"
    by code_simp
  show ?thesis
    using no current_revision_above_every_member [OF no] by simp
qed

end
