(* ===== verification/Canonical_Json.thy ===== *)
theory Canonical_Json
  imports Prelude
begin

text \<open>
  Canonical JSON and content hashing (\<open>src/src/canonical_hash.rs\<close>). A JSON value is the
  \<open>serde_json::Value\<close> the code builds; an object is the list of its entries in the order
  the map iterates them (keys are distinct). What is outside the repository is the record
  \<open>externals\<close>: the SHA-256 digest of the \<open>sha2\<close> crate and the JSON writer of
  \<open>serde_json\<close>. Bytes are \<open>char\<close>s.
\<close>

section \<open>JSON values\<close>

datatype json =
    JNull
  | JBool bool
  | JNumber int
  | JString string
  | JArray "json list"
  | JObject "(string \<times> json) list"

fun canonical_json_value :: "json \<Rightarrow> json" where
  "canonical_json_value (JArray values) = JArray (map canonical_json_value values)"
| "canonical_json_value (JObject obj) =
     (let canonical = map (\<lambda>e. (fst e, canonical_json_value (snd e))) obj
      in JObject (map (\<lambda>key. (key, the (map_of canonical key))) (sort (map fst obj))))"
| "canonical_json_value value = value"

fun json_wf :: "json \<Rightarrow> bool" where
  "json_wf (JArray values) = (\<forall>v \<in> set values. json_wf v)"
| "json_wf (JObject obj) = (distinct (map fst obj) \<and> (\<forall>e \<in> set obj. json_wf (snd e)))"
| "json_wf value = True"

text \<open>Equality of values as \<open>serde_json\<close> compares them: objects are maps.\<close>

inductive json_eq :: "json \<Rightarrow> json \<Rightarrow> bool" where
  json_eq_null: "json_eq JNull JNull"
| json_eq_bool: "json_eq (JBool b) (JBool b)"
| json_eq_number: "json_eq (JNumber n) (JNumber n)"
| json_eq_string: "json_eq (JString s) (JString s)"
| json_eq_array: "list_all2 json_eq vs ws \<Longrightarrow> json_eq (JArray vs) (JArray ws)"
| json_eq_object: "fst ` set es = fst ` set fs \<Longrightarrow>
    (\<And>k v w. map_of es k = Some v \<Longrightarrow> map_of fs k = Some w \<Longrightarrow> json_eq v w) \<Longrightarrow>
    json_eq (JObject es) (JObject fs)"

lemma sort_map_fst_cong:
  assumes "distinct (map fst es)" "distinct (map fst fs)" "fst ` set es = fst ` set fs"
  shows "sort (map fst es) = sort (map fst fs)"
  using assms by (intro sorted_distinct_set_unique) auto

lemma map_of_map_snd: "map_of (map (\<lambda>e. (fst e, f (snd e))) es) k = map_option f (map_of es k)"
  by (induction es) auto

lemma map_of_key: "k \<in> fst ` set es \<Longrightarrow> \<exists>v. map_of es k = Some v \<and> (k, v) \<in> set es"
  by (induction es) auto

lemma canonical_object:
  "canonical_json_value (JObject obj) =
     JObject (map (\<lambda>k. (k, canonical_json_value (the (map_of obj k)))) (sort (map fst obj)))"
proof -
  have "map_of obj k \<noteq> None" if "k \<in> set (map fst obj)" for k
    using that by (simp add: map_of_eq_None_iff)
  then show ?thesis
    by (auto simp: Let_def map_of_map_snd option.map_sel)
qed

declare canonical_json_value.simps(2) [simp del]
declare canonical_object [simp]

lemma json_eq_canonical:
  "json_eq v w \<Longrightarrow> json_wf v \<Longrightarrow> json_wf w \<Longrightarrow> canonical_json_value v = canonical_json_value w"
proof (induction rule: json_eq.induct)
  case (json_eq_array vs ws)
  then show ?case
    by (auto simp: list_all2_conv_all_nth intro!: nth_equalityI)
next
  case (json_eq_object es fs)
  have keys: "sort (map fst es) = sort (map fst fs)"
    using json_eq_object.prems json_eq_object.hyps(1) by (intro sort_map_fst_cong) auto
  have "canonical_json_value (the (map_of es k)) = canonical_json_value (the (map_of fs k))"
    if k: "k \<in> fst ` set es" for k
  proof -
    obtain v w where v: "map_of es k = Some v" and w: "map_of fs k = Some w"
      using k json_eq_object.hyps(1) map_of_key [of k es] map_of_key [of k fs] by auto
    then have "json_wf v" "json_wf w"
      using json_eq_object.prems by (auto dest!: map_of_SomeD)
    with v w show ?thesis
      using json_eq_object.IH [OF v w] by simp
  qed
  then show ?case
    unfolding canonical_object keys by (auto simp: json_eq_object.hyps(1))
qed auto

lemma json_eq_scalar:
  "canonical_json_value JNull = canonical_json_value w \<Longrightarrow> json_eq JNull w"
  "canonical_json_value (JBool b) = canonical_json_value w \<Longrightarrow> json_eq (JBool b) w"
  "canonical_json_value (JNumber n) = canonical_json_value w \<Longrightarrow> json_eq (JNumber n) w"
  "canonical_json_value (JString s) = canonical_json_value w \<Longrightarrow> json_eq (JString s) w"
  by (cases w; auto intro: json_eq.intros)+

lemma canonical_eq_json_eq:
  "canonical_json_value v = canonical_json_value w \<Longrightarrow> json_wf v \<Longrightarrow> json_wf w \<Longrightarrow> json_eq v w"
proof (induction v arbitrary: w rule: canonical_json_value.induct)
  case (1 vs)
  from "1.prems"(1) obtain ws where w: "w = JArray ws"
    by (cases w) auto
  with 1 have "list_all2 json_eq vs ws"
    by (auto simp: list_all2_conv_all_nth list_eq_iff_nth_eq)
  with w show ?case by (auto intro: json_eq.intros)
next
  case (2 es)
  from "2.prems"(1) obtain fs where w: "w = JObject fs"
    by (cases w) auto
  have eq: "map (\<lambda>k. (k, canonical_json_value (the (map_of es k)))) (sort (map fst es)) =
      map (\<lambda>k. (k, canonical_json_value (the (map_of fs k)))) (sort (map fst fs))" (is "?l = ?r")
    using "2.prems"(1) w by simp
  have "map fst ?l = map fst ?r"
    by (simp only: eq)
  then have keys: "sort (map fst es) = sort (map fst fs)"
    by (simp add: comp_def)
  have fst_eq: "fst ` set es = fst ` set fs"
    using arg_cong [OF keys, of set] by simp
  show ?case
    unfolding w
  proof (rule json_eq.json_eq_object [OF fst_eq])
    fix k v u
    assume v: "map_of es k = Some v" and u: "map_of fs k = Some u"
    then have "k \<in> set (sort (map fst es))" and es: "(k, v) \<in> set es" "(k, u) \<in> set fs"
      by (auto dest: map_of_SomeD intro: rev_image_eqI)
    then have "canonical_json_value v = canonical_json_value u"
      using eq v u unfolding keys by auto
    moreover have "json_wf v" "json_wf u"
      using es "2.prems" w by auto
    ultimately show "json_eq v u"
      using "2.IH" [of "(k, v)" u] es by simp
  qed
qed (use json_eq_scalar in blast)+

lemma canonical_eq_iff:
  "json_wf v \<Longrightarrow> json_wf w \<Longrightarrow> canonical_json_value v = canonical_json_value w \<longleftrightarrow> json_eq v w"
  using json_eq_canonical canonical_eq_json_eq by blast

text \<open>What two values with the same canonical form have in common, field by field.\<close>

fun json_get :: "string \<Rightarrow> json \<Rightarrow> json option" where
  "json_get k (JObject obj) = map_of obj k"
| "json_get k _ = None"

lemma map_of_map_key: "map_of (map (\<lambda>k. (k, f k)) ks) k = (if k \<in> set ks then Some (f k) else None)"
  by (induction ks) auto

lemma json_get_canonical:
  "json_get k (canonical_json_value v) = map_option canonical_json_value (json_get k v)"
proof (cases v)
  case (JObject es)
  then show ?thesis
    by (cases "map_of es k") (auto simp: map_of_map_key map_of_eq_None_iff dest: map_of_SomeD
        intro: rev_image_eqI)
qed auto

lemma canonical_eq_field:
  "canonical_json_value v = canonical_json_value w \<Longrightarrow>
     map_option canonical_json_value (json_get k v) = map_option canonical_json_value (json_get k w)"
  by (metis json_get_canonical)

lemma canonical_eq_scalar [simp]:
  "canonical_json_value (JString s) = canonical_json_value v \<longleftrightarrow> v = JString s"
  "canonical_json_value (JBool b) = canonical_json_value v \<longleftrightarrow> v = JBool b"
  "canonical_json_value (JNumber n) = canonical_json_value v \<longleftrightarrow> v = JNumber n"
  "canonical_json_value JNull = canonical_json_value v \<longleftrightarrow> v = JNull"
  by (cases v; auto)+

definition json_str :: "string \<Rightarrow> json \<Rightarrow> string option" where
  "json_str k v = (case json_get k v of Some (JString s) \<Rightarrow> Some s | _ \<Rightarrow> None)"

definition json_num :: "string \<Rightarrow> json \<Rightarrow> nat option" where
  "json_num k v = (case json_get k v of Some (JNumber n) \<Rightarrow> Some (nat n) | _ \<Rightarrow> None)"

lemma json_str_canonical:
  "canonical_json_value v = canonical_json_value w \<Longrightarrow> json_str k v = json_str k w"
  using canonical_eq_field [of v w k] unfolding json_str_def
  by (cases "json_get k v"; cases "json_get k w") (auto simp: canonical_eq_scalar split: json.splits)

lemma json_num_canonical:
  "canonical_json_value v = canonical_json_value w \<Longrightarrow> json_num k v = json_num k w"
  using canonical_eq_field [of v w k] unfolding json_num_def
  by (cases "json_get k v"; cases "json_get k w") (auto simp: canonical_eq_scalar split: json.splits)

lemma canonical_idem: "canonical_json_value (canonical_json_value v) = canonical_json_value v"
proof (induction v rule: canonical_json_value.induct)
  case (2 es)
  have idem: "canonical_json_value (canonical_json_value (the (map_of es k))) = canonical_json_value (the (map_of es k))"
    if k: "k \<in> fst ` set es" for k
  proof -
    obtain v where v: "map_of es k = Some v"
      and mem: "(k, v) \<in> set es"
      using map_of_key [OF k] by blast
    with 2 [OF mem] v show ?thesis by simp
  qed
  have fst_eq: "map fst (map (\<lambda>k. (k, f k)) ks) = ks" for f :: "string \<Rightarrow> json" and ks
    by (simp add: comp_def)
  show ?case
    unfolding canonical_object fst_eq
    by (auto simp: sort_key_id_if_sorted map_of_map_restrict idem)
qed (auto simp: comp_def)

section \<open>Hashing\<close>

record externals =
  sha256 :: "string \<Rightarrow> string"
  to_vec :: "json \<Rightarrow> string"

definition hex_digit :: "nat \<Rightarrow> char" where
  "hex_digit n = ''0123456789abcdef'' ! n"

definition hex_lower :: "string \<Rightarrow> string" where
  "hex_lower bytes =
     concat (map (\<lambda>byte. [hex_digit (of_char byte div 16), hex_digit (of_char byte mod 16)]) bytes)"

definition canonical_json_bytes :: "externals \<Rightarrow> json \<Rightarrow> string" where
  "canonical_json_bytes ext value = to_vec ext (canonical_json_value value)"

definition sha256_bytes_hex :: "externals \<Rightarrow> string \<Rightarrow> string" where
  "sha256_bytes_hex ext bytes = hex_lower (sha256 ext bytes)"

definition sha256_json_hex :: "externals \<Rightarrow> json \<Rightarrow> string" where
  "sha256_json_hex ext value = sha256_bytes_hex ext (canonical_json_bytes ext value)"

definition sha256_json_prefixed :: "externals \<Rightarrow> json \<Rightarrow> string" where
  "sha256_json_prefixed ext value =
     ''sha256:'' @ sha256_bytes_hex ext (canonical_json_bytes ext value)"

text \<open>\<open>str::strip_prefix\<close> and the ASCII digit classes of \<open>u8\<close>.\<close>

definition strip_prefix :: "string \<Rightarrow> string \<Rightarrow> string option" where
  "strip_prefix prefix s =
     (if take (length prefix) s = prefix then Some (drop (length prefix) s) else None)"

definition is_ascii_digit :: "char \<Rightarrow> bool" where
  "is_ascii_digit c \<longleftrightarrow> CHR ''0'' \<le> c \<and> c \<le> CHR ''9''"

definition is_ascii_uppercase :: "char \<Rightarrow> bool" where
  "is_ascii_uppercase c \<longleftrightarrow> CHR ''A'' \<le> c \<and> c \<le> CHR ''Z''"

definition is_ascii_hexdigit :: "char \<Rightarrow> bool" where
  "is_ascii_hexdigit c \<longleftrightarrow>
     is_ascii_digit c \<or> (CHR ''a'' \<le> c \<and> c \<le> CHR ''f'') \<or> (CHR ''A'' \<le> c \<and> c \<le> CHR ''F'')"

definition portable_sha256_file_stem :: "externals \<Rightarrow> string \<Rightarrow> string" where
  "portable_sha256_file_stem ext identity =
     (case strip_prefix ''sha256:'' identity of
        None \<Rightarrow> sha256_bytes_hex ext identity
      | Some stem \<Rightarrow>
          if length stem = 64 \<and> list_all is_ascii_hexdigit stem then stem
          else sha256_bytes_hex ext identity)"

definition is_prefixed_sha256 :: "string \<Rightarrow> bool" where
  "is_prefixed_sha256 value =
     (case strip_prefix ''sha256:'' value of
        None \<Rightarrow> False
      | Some hex \<Rightarrow> length hex = 64 \<and> list_all (\<lambda>b. is_ascii_hexdigit b \<and> \<not> is_ascii_uppercase b) hex)"

subsection \<open>Hexadecimal encoding\<close>

lemma hex_digit_inj: "m < 16 \<Longrightarrow> n < 16 \<Longrightarrow> hex_digit m = hex_digit n \<longleftrightarrow> m = n"
  unfolding hex_digit_def by (subst nth_eq_iff_index_eq) auto

lemma hex_digit_lower: "n < 16 \<Longrightarrow> is_ascii_hexdigit (hex_digit n) \<and> \<not> is_ascii_uppercase (hex_digit n)"
proof -
  have "list_all (\<lambda>b. is_ascii_hexdigit b \<and> \<not> is_ascii_uppercase b) ''0123456789abcdef''"
    by code_simp
  moreover assume "n < 16"
  ultimately show ?thesis
    by (simp add: hex_digit_def list_all_length)
qed

lemma length_hex_lower [simp]: "length (hex_lower bytes) = 2 * length bytes"
  by (induction bytes) (auto simp: hex_lower_def)

lemma byte_eq_iff:
  "(of_char a :: nat) div 16 = of_char b div 16 \<Longrightarrow> (of_char a :: nat) mod 16 = of_char b mod 16 \<Longrightarrow> a = b"
  by (metis div_mult_mod_eq of_char_eq_iff)

lemma hex_lower_inj: "hex_lower a = hex_lower b \<Longrightarrow> a = b"
proof (induction a arbitrary: b)
  case Nil
  then show ?case by (cases b) (auto simp: hex_lower_def)
next
  case (Cons x xs)
  then obtain y ys where b: "b = y # ys"
    by (cases b) (auto simp: hex_lower_def)
  have bounds: "(of_char x :: nat) div 16 < 16" "(of_char y :: nat) div 16 < 16"
    using nat_of_char_less_256 [of x] nat_of_char_less_256 [of y] by linarith+
  from Cons.prems b bounds have "x = y" "hex_lower xs = hex_lower ys"
    by (auto simp: hex_lower_def hex_digit_inj intro: byte_eq_iff)
  with Cons.IH b show ?case by simp
qed

lemma hex_lower_lower: "list_all (\<lambda>b. is_ascii_hexdigit b \<and> \<not> is_ascii_uppercase b) (hex_lower bytes)"
proof (induction bytes)
  case (Cons x xs)
  have "(of_char x :: nat) div 16 < 16"
    using nat_of_char_less_256 [of x] by linarith
  with Cons show ?case
    by (simp add: hex_lower_def hex_digit_lower)
qed (simp add: hex_lower_def)

lemma strip_prefix_append [simp]: "strip_prefix p (p @ s) = Some s"
  by (simp add: strip_prefix_def)

lemma strip_prefix_Some_iff: "strip_prefix p s = Some t \<longleftrightarrow> s = p @ t"
  by (auto simp: strip_prefix_def) (metis append_take_drop_id)

lemma is_prefixed_sha256_json:
  "length (sha256 ext (canonical_json_bytes ext v)) = 32 \<Longrightarrow> is_prefixed_sha256 (sha256_json_prefixed ext v)"
  unfolding is_prefixed_sha256_def sha256_json_prefixed_def strip_prefix_append
  by (simp add: sha256_bytes_hex_def hex_lower_lower)

subsection \<open>Identity up to hash collisions\<close>

text \<open>
  Two byte strings with one digest. A statement that content determines an id holds up to
  such a pair, which is what SHA-256 is assumed not to exhibit.
\<close>

definition sha256_collide :: "externals \<Rightarrow> string \<Rightarrow> string \<Rightarrow> bool" where
  "sha256_collide ext a b \<longleftrightarrow> a \<noteq> b \<and> sha256 ext a = sha256 ext b"

text \<open>
  Two JSON values that differ as canonical values but whose canonical bytes have one digest:
  a SHA-256 collision (or a byte writer that writes two values alike, which \<open>serde_json\<close>
  does not).
\<close>

definition json_collide :: "externals \<Rightarrow> json \<Rightarrow> json \<Rightarrow> bool" where
  "json_collide ext v w \<longleftrightarrow>
     canonical_json_value v \<noteq> canonical_json_value w \<and>
     sha256 ext (canonical_json_bytes ext v) = sha256 ext (canonical_json_bytes ext w)"

lemma sha256_json_prefixed_eq:
  assumes "sha256_json_prefixed ext v = sha256_json_prefixed ext w" and "\<not> json_collide ext v w"
  shows "canonical_json_value v = canonical_json_value w"
proof -
  have "sha256 ext (canonical_json_bytes ext v) = sha256 ext (canonical_json_bytes ext w)"
    using assms(1) by (auto simp: sha256_json_prefixed_def sha256_bytes_hex_def dest: hex_lower_inj)
  with assms(2) show ?thesis
    by (auto simp: json_collide_def)
qed

lemma sha256_bytes_hex_eq:
  "sha256_bytes_hex ext a = sha256_bytes_hex ext b \<Longrightarrow> \<not> sha256_collide ext a b \<Longrightarrow> a = b"
  by (auto simp: sha256_bytes_hex_def sha256_collide_def dest: hex_lower_inj)

subsection \<open>Concrete instances\<close>

text \<open>A byte writer and a digest to evaluate the definitions with.\<close>

fun plain_to_vec :: "json \<Rightarrow> string" where
  "plain_to_vec JNull = ''null''"
| "plain_to_vec (JBool b) = (if b then ''true'' else ''false'')"
| "plain_to_vec (JNumber n) = replicate (nat n) CHR ''1''"
| "plain_to_vec (JString s) = ''<'' @ s @ ''>''"
| "plain_to_vec (JArray vs) = ''['' @ concat (map plain_to_vec vs) @ '']''"
| "plain_to_vec (JObject es) = ''('' @ concat (map (\<lambda>e. fst e @ plain_to_vec (snd e)) es) @ '')''"

definition plain_externals :: externals where
  "plain_externals = \<lparr>sha256 = (\<lambda>bytes. take 32 (bytes @ replicate 32 CHR ''.'')), to_vec = plain_to_vec\<rparr>"

end
