(* ===== verification/Model_Types.thy ===== *)
theory Model_Types
  imports Canonical_Json
begin

text \<open>
  The shared vocabulary of \<open>src/src/model\<close>: ids and their registered prefixes, exact
  Revision references, review and task subjects and the domain a subject belongs to, and
  the identity of a Change. Ids are opaque strings, ordered bytewise. The \<open>_json\<close>
  functions write out what \<open>serde\<close> serialises for a type (the \<open>kind\<close> tag, the camelCase
  field names), which is what the content hashes are taken over.
\<close>

section \<open>Ids\<close>

type_synonym journal_id = string
type_synonym engagement_id = string
type_synonym event_id = string
type_synonym revision_id = string
type_synonym object_id = string
type_synonym change_id = string
type_synonym claim_id = string
type_synonym actor_id = string
type_synonym track_id = string
type_synonym observation_id = string
type_synonym input_request_id = string
type_synonym assessment_id = string
type_synonym work_object_id = string
type_synonym checkpoint_id = string
type_synonym signer_id = string

definition EVENT :: string where "EVENT = ''evt''"
definition CHANGE :: string where "CHANGE = ''change''"
definition CHANGE_DECLARATION :: string where "CHANGE_DECLARATION = ''change-declaration''"
definition CHANGE_MEMBERSHIP :: string where "CHANGE_MEMBERSHIP = ''change-membership''"
definition CHANGE_MEMBERSHIP_WITHDRAWAL :: string where
  "CHANGE_MEMBERSHIP_WITHDRAWAL = ''change-membership-withdrawal''"
definition CHANGE_LINK :: string where "CHANGE_LINK = ''change-link''"
definition CHANGE_REVISION_RELATION :: string where
  "CHANGE_REVISION_RELATION = ''change-revision-relation''"
definition CHANGE_REVISION_RELATION_WITHDRAWAL :: string where
  "CHANGE_REVISION_RELATION_WITHDRAWAL = ''change-revision-relation-withdrawal''"
definition REVISION_RELATION_ATTESTATION :: string where
  "REVISION_RELATION_ATTESTATION = ''relation-attestation''"
definition REVIEW_FACT_PORT :: string where "REVIEW_FACT_PORT = ''fact-port''"
definition COMMIT_ASSOCIATION :: string where "COMMIT_ASSOCIATION = ''assoc-commit''"
definition REF_ASSOCIATION :: string where "REF_ASSOCIATION = ''assoc-ref''"
definition COMMIT_WITHDRAWAL :: string where "COMMIT_WITHDRAWAL = ''withdraw-commit''"
definition REF_WITHDRAWAL :: string where "REF_WITHDRAWAL = ''withdraw-ref''"
definition SUBJECT :: string where "SUBJECT = ''subject''"
definition ACTOR :: string where "ACTOR = ''actor''"

lemmas id_prefix_defs = EVENT_def CHANGE_def CHANGE_DECLARATION_def CHANGE_MEMBERSHIP_def
  CHANGE_MEMBERSHIP_WITHDRAWAL_def CHANGE_LINK_def CHANGE_REVISION_RELATION_def
  CHANGE_REVISION_RELATION_WITHDRAWAL_def REVISION_RELATION_ATTESTATION_def REVIEW_FACT_PORT_def
  COMMIT_ASSOCIATION_def REF_ASSOCIATION_def COMMIT_WITHDRAWAL_def REF_WITHDRAWAL_def
  SUBJECT_def ACTOR_def

section \<open>Exact Revision references\<close>

record revision_ref_v1 =
  rr_revision_id :: revision_id
  rr_object_artifact_content_hash :: string

definition starts_with :: "string \<Rightarrow> string \<Rightarrow> bool" where
  "starts_with s prefix \<longleftrightarrow> take (length prefix) s = prefix"

definition revision_ref_new :: "revision_id \<Rightarrow> string \<Rightarrow> revision_ref_v1 result" where
  "revision_ref_new revision_id object_artifact_content_hash =
     (if \<not> starts_with revision_id ''rev:'' then
        Inl (Message ''RevisionRefV1 requires a rev: RevisionId'')
      else if \<not> is_prefixed_sha256 object_artifact_content_hash then
        Inl (Message ''RevisionRefV1 requires a lowercase sha256 object artifact hash'')
      else Inr \<lparr>rr_revision_id = revision_id,
                rr_object_artifact_content_hash = object_artifact_content_hash\<rparr>)"

definition revision_ref_json :: "revision_ref_v1 \<Rightarrow> json" where
  "revision_ref_json r = JObject
     [(''revisionId'', JString (rr_revision_id r)),
      (''objectArtifactContentHash'', JString (rr_object_artifact_content_hash r))]"

section \<open>Endpoints and sources\<close>

datatype review_endpoint =
    GitCommit string string
  | GitTree string
  | GitIndex string
  | GitWorkingTree string

datatype worktree_capture_mode = CombinedHeadToWorkingTree
datatype commit_range_capture_mode = BaseTreeToTargetTree
datatype root_commit_capture_mode = EmptyTreeToTargetTree
datatype staged_capture_mode = BaseTreeToIndexTree
datatype unstaged_capture_mode = IndexTreeToWorkingTree

datatype revision_source =
    GitWorktree worktree_capture_mode bool "string list"
  | GitCommitRange commit_range_capture_mode "string list"
  | GitRootCommit root_commit_capture_mode "string list"
  | GitStaged staged_capture_mode "string list"
  | GitUnstaged unstaged_capture_mode bool "string list"

section \<open>Subjects\<close>

datatype side = Old | New

datatype review_target_ref =
    RT_Revision revision_id
  | RT_File revision_id string
  | RT_Range revision_id string side nat nat
  | RT_Observation revision_id observation_id
  | RT_InputRequest revision_id input_request_id
  | RT_Assessment revision_id assessment_id
  | RT_Event revision_id event_id

datatype task_target_ref =
    TT_TaskAttempt work_object_id
  | TT_Checkpoint checkpoint_id

datatype target_ref =
    TR_Journal
  | TR_Review review_target_ref
  | TR_Task task_target_ref

datatype work_object_type = WO_Revision | WO_TaskAttempt

datatype engagement_type = ET_Review | ET_Task

datatype validation_status = Passed | Failed | Errored | Skipped

datatype validation_trigger = Manual | Push | PullRequest

datatype validation_target = VT_Revision revision_id

fun engagement_type_of_subject :: "target_ref \<Rightarrow> engagement_type option" where
  "engagement_type_of_subject TR_Journal = None"
| "engagement_type_of_subject (TR_Review _) = Some ET_Review"
| "engagement_type_of_subject (TR_Task _) = Some ET_Task"

fun work_object_type_of_subject :: "target_ref \<Rightarrow> work_object_type option" where
  "work_object_type_of_subject TR_Journal = None"
| "work_object_type_of_subject (TR_Review _) = Some WO_Revision"
| "work_object_type_of_subject (TR_Task _) = Some WO_TaskAttempt"

fun review_target_revision :: "review_target_ref \<Rightarrow> revision_id" where
  "review_target_revision (RT_Revision r) = r"
| "review_target_revision (RT_File r _) = r"
| "review_target_revision (RT_Range r _ _ _ _) = r"
| "review_target_revision (RT_Observation r _) = r"
| "review_target_revision (RT_InputRequest r _) = r"
| "review_target_revision (RT_Assessment r _) = r"
| "review_target_revision (RT_Event r _) = r"

fun subject_revision_id :: "target_ref \<Rightarrow> revision_id option" where
  "subject_revision_id (TR_Review (RT_Revision r)) = Some r"
| "subject_revision_id (TR_Review (RT_File r _)) = Some r"
| "subject_revision_id (TR_Review (RT_Range r _ _ _ _)) = Some r"
| "subject_revision_id (TR_Review (RT_Observation r _)) = Some r"
| "subject_revision_id (TR_Review (RT_InputRequest r _)) = Some r"
| "subject_revision_id (TR_Review (RT_Assessment r _)) = Some r"
| "subject_revision_id (TR_Review (RT_Event r _)) = Some r"
| "subject_revision_id (TR_Task _) = None"
| "subject_revision_id TR_Journal = None"

lemma subject_revision_id_review [simp]:
  "subject_revision_id (TR_Review t) = Some (review_target_revision t)"
  by (cases t) auto

fun side_json :: "side \<Rightarrow> json" where
  "side_json Old = JString ''old''"
| "side_json New = JString ''new''"

fun review_target_json :: "review_target_ref \<Rightarrow> (string \<times> json) list" where
  "review_target_json (RT_Revision r) =
     [(''kind'', JString ''revision''), (''revisionId'', JString r)]"
| "review_target_json (RT_File r path) =
     [(''kind'', JString ''file''), (''revisionId'', JString r), (''filePath'', JString path)]"
| "review_target_json (RT_Range r path s start_line end_line) =
     [(''kind'', JString ''range''), (''revisionId'', JString r), (''filePath'', JString path),
      (''side'', side_json s), (''startLine'', JNumber (int start_line)),
      (''endLine'', JNumber (int end_line))]"
| "review_target_json (RT_Observation r i) =
     [(''kind'', JString ''observation''), (''revisionId'', JString r), (''observationId'', JString i)]"
| "review_target_json (RT_InputRequest r i) =
     [(''kind'', JString ''input_request''), (''revisionId'', JString r), (''inputRequestId'', JString i)]"
| "review_target_json (RT_Assessment r i) =
     [(''kind'', JString ''assessment''), (''revisionId'', JString r), (''assessmentId'', JString i)]"
| "review_target_json (RT_Event r i) =
     [(''kind'', JString ''event''), (''revisionId'', JString r), (''eventId'', JString i)]"

fun task_target_json :: "task_target_ref \<Rightarrow> (string \<times> json) list" where
  "task_target_json (TT_TaskAttempt i) =
     [(''kind'', JString ''task_attempt''), (''taskAttemptId'', JString i)]"
| "task_target_json (TT_Checkpoint i) =
     [(''kind'', JString ''checkpoint''), (''checkpointId'', JString i)]"

section \<open>Identity of a Change\<close>

definition CHANGE_IDENTITY_SCHEMA_V1 :: string where
  "CHANGE_IDENTITY_SCHEMA_V1 = ''pointbreak.change-identity.v1''"

datatype change_identity_descriptor_v1 =
    OpaqueNonce string string
  | RootRevision string revision_id

text \<open>\<open>format!("{byte:02x}")\<close> per byte: the lowercase hexadecimal digits, padded to two.\<close>

fun hex_digits :: "nat \<Rightarrow> string" where
  "hex_digits n = (if n < 16 then [hex_digit n] else hex_digits (n div 16) @ [hex_digit (n mod 16)])"

declare hex_digits.simps [simp del]

definition format_02x :: "char \<Rightarrow> string" where
  "format_02x byte =
     (let digits = hex_digits (of_char byte)
      in replicate (2 - length digits) CHR ''0'' @ digits)"

definition lowercase_hex :: "string \<Rightarrow> string" where
  "lowercase_hex bytes = concat (map format_02x bytes)"

definition opaque_nonce :: "string \<Rightarrow> change_identity_descriptor_v1" where
  "opaque_nonce nonce = OpaqueNonce CHANGE_IDENTITY_SCHEMA_V1 (lowercase_hex nonce)"

definition root_revision :: "revision_id \<Rightarrow> change_identity_descriptor_v1" where
  "root_revision revision_id = RootRevision CHANGE_IDENTITY_SCHEMA_V1 revision_id"

definition validate_schema :: "string \<Rightarrow> unit result" where
  "validate_schema schema =
     (if schema = CHANGE_IDENTITY_SCHEMA_V1 then Inr ()
      else Inl (Message (''unsupported Change identity schema: '' @ schema)))"

definition is_lowercase_hex_64 :: "string \<Rightarrow> bool" where
  "is_lowercase_hex_64 s \<longleftrightarrow>
     length s = 64 \<and> list_all (\<lambda>b. is_ascii_hexdigit b \<and> \<not> is_ascii_uppercase b) s"

fun descriptor_validate :: "change_identity_descriptor_v1 \<Rightarrow> unit result" where
  "descriptor_validate (OpaqueNonce schema nonce) =
     and_then (validate_schema schema) (\<lambda>_.
       if is_lowercase_hex_64 nonce then Inr ()
       else Inl (Message ''opaque Change nonce must be 32 lowercase-hex bytes''))"
| "descriptor_validate (RootRevision schema revision_id) =
     and_then (validate_schema schema) (\<lambda>_.
       if starts_with revision_id ''rev:'' then Inr ()
       else Inl (Message ''root Change rendezvous requires a rev: RevisionId''))"

fun descriptor_json :: "change_identity_descriptor_v1 \<Rightarrow> json" where
  "descriptor_json (OpaqueNonce schema nonce) = JObject
     [(''kind'', JString ''opaque_nonce''), (''schema'', JString schema), (''nonce'', JString nonce)]"
| "descriptor_json (RootRevision schema revision_id) = JObject
     [(''kind'', JString ''root_revision''), (''schema'', JString schema),
      (''revision_id'', JString revision_id)]"

definition derive_change_id :: "externals \<Rightarrow> change_identity_descriptor_v1 \<Rightarrow> change_id result" where
  "derive_change_id ext descriptor =
     and_then (descriptor_validate descriptor) (\<lambda>_.
       Inr (CHANGE @ '':'' @ sha256_json_prefixed ext (descriptor_json descriptor)))"

definition derive_membership_claim_id ::
  "externals \<Rightarrow> change_id \<Rightarrow> revision_id \<Rightarrow> string \<Rightarrow> claim_id result" where
  "derive_membership_claim_id ext change_id revision_id claim_nonce =
     Inr (CHANGE_MEMBERSHIP @ '':'' @ sha256_json_prefixed ext (JObject
       [(''family'', JString ''change_membership_asserted_v1''),
        (''changeId'', JString change_id),
        (''revisionId'', JString revision_id),
        (''claimNonce'', JString (lowercase_hex claim_nonce))]))"

section \<open>Lemmas\<close>

lemma format_02x_eq: "format_02x c = [hex_digit (of_char c div 16), hex_digit (of_char c mod 16)]"
proof -
  have b: "(of_char c :: nat) div 16 < 16"
    using nat_of_char_less_256 [of c] by linarith
  show ?thesis
  proof (cases "(of_char c :: nat) < 16")
    case True
    then show ?thesis
      by (simp add: format_02x_def hex_digits.simps [of "of_char c"] Let_def hex_digit_def)
  next
    case False
    with b show ?thesis
      by (simp add: format_02x_def hex_digits.simps [of "of_char c"]
          hex_digits.simps [of "of_char c div 16"] Let_def)
  qed
qed

text \<open>The two hexadecimal writers of the crate agree.\<close>

lemma lowercase_hex_eq: "lowercase_hex bytes = hex_lower bytes"
  unfolding lowercase_hex_def hex_lower_def by (simp add: format_02x_eq cong: map_cong)

lemma lowercase_hex_nonce: "length nonce = 32 \<Longrightarrow> is_lowercase_hex_64 (lowercase_hex nonce)"
  by (simp add: is_lowercase_hex_64_def lowercase_hex_eq hex_lower_lower)

lemma descriptor_json_inj:
  assumes "canonical_json_value (descriptor_json d) = canonical_json_value (descriptor_json e)"
  shows "d = e"
  using canonical_eq_field [OF assms, of "''kind''"] canonical_eq_field [OF assms, of "''schema''"]
    canonical_eq_field [OF assms, of "''nonce''"] canonical_eq_field [OF assms, of "''revision_id''"]
  by (cases d; cases e) auto

lemma derive_change_id_inj:
  assumes "derive_change_id ext d = Inr i" and "derive_change_id ext e = Inr i"
    and "\<not> json_collide ext (descriptor_json d) (descriptor_json e)"
  shows "d = e"
  using assms(1,2)
  by (intro descriptor_json_inj sha256_json_prefixed_eq [OF _ assms(3)])
    (auto simp: derive_change_id_def and_then_eq_Inr_iff)

lemma derive_change_id_valid: "derive_change_id ext d = Inr i \<Longrightarrow> descriptor_validate d = Inr ()"
  by (auto simp: derive_change_id_def and_then_eq_Inr_iff)

end
