(* ===== verification/Event_Types.thy ===== *)
theory Event_Types
  imports Model_Types
begin

text \<open>
  The event families (\<open>src/src/session/event/kind.rs\<close>), their frozen type codes
  (\<open>type_code.rs\<close>) and the payloads of the families that are not Change or relation claims,
  with the idempotency key each payload mints. A record's fields carry a prefix of their own
  because records of one theory share a name space.
\<close>

section \<open>Event families\<close>

datatype event_type =
    ReviewInitialized
  | WorkObjectProposed
  | ReviewObservationRecorded
  | ReviewAssessmentRecorded
  | InputRequestOpened
  | InputRequestResponded
  | ReviewNoteImported
  | RevisionRefAssociated
  | RevisionRefWithdrawn
  | RevisionCommitAssociated
  | RevisionCommitWithdrawn
  | ValidationCheckRecorded
  | TaskCheckpointCaptured
  | TaskObservationRecorded
  | EventSignatureRecorded
  | ArtifactRemoved
  | ChangeDeclared
  | ChangeMembershipAsserted
  | ChangeMembershipWithdrawn
  | ChangeLinkAsserted
  | ChangeRevisionRelationAsserted
  | ChangeRevisionRelationWithdrawn
  | RevisionRelationAttested
  | ReviewFactPorted

fun as_str :: "event_type \<Rightarrow> string" where
  "as_str ReviewInitialized = ''review_initialized''"
| "as_str WorkObjectProposed = ''work_object_proposed''"
| "as_str ReviewObservationRecorded = ''review_observation_recorded''"
| "as_str ReviewAssessmentRecorded = ''review_assessment_recorded''"
| "as_str InputRequestOpened = ''input_request_opened''"
| "as_str InputRequestResponded = ''input_request_responded''"
| "as_str ReviewNoteImported = ''review_note_imported''"
| "as_str RevisionRefAssociated = ''revision_ref_associated''"
| "as_str RevisionRefWithdrawn = ''revision_ref_withdrawn''"
| "as_str RevisionCommitAssociated = ''revision_commit_associated''"
| "as_str RevisionCommitWithdrawn = ''revision_commit_withdrawn''"
| "as_str ValidationCheckRecorded = ''validation_check_recorded''"
| "as_str TaskCheckpointCaptured = ''task_checkpoint_captured''"
| "as_str TaskObservationRecorded = ''task_observation_recorded''"
| "as_str EventSignatureRecorded = ''event_signature_recorded''"
| "as_str ArtifactRemoved = ''artifact_removed''"
| "as_str ChangeDeclared = ''change_declared''"
| "as_str ChangeMembershipAsserted = ''change_membership_asserted''"
| "as_str ChangeMembershipWithdrawn = ''change_membership_withdrawn''"
| "as_str ChangeLinkAsserted = ''change_link_asserted''"
| "as_str ChangeRevisionRelationAsserted = ''change_revision_relation_asserted''"
| "as_str ChangeRevisionRelationWithdrawn = ''change_revision_relation_withdrawn''"
| "as_str RevisionRelationAttested = ''revision_relation_attested''"
| "as_str ReviewFactPorted = ''review_fact_ported''"

section \<open>Type codes\<close>

definition REGISTRY :: "(event_type \<times> string) list" where
  "REGISTRY =
     [(ReviewInitialized, ''t:01''),
      (WorkObjectProposed, ''t:02''),
      (ReviewObservationRecorded, ''t:03''),
      (ReviewAssessmentRecorded, ''t:04''),
      (InputRequestOpened, ''t:05''),
      (InputRequestResponded, ''t:06''),
      (ReviewNoteImported, ''t:07''),
      (RevisionRefAssociated, ''t:08''),
      (RevisionRefWithdrawn, ''t:09''),
      (RevisionCommitAssociated, ''t:10''),
      (RevisionCommitWithdrawn, ''t:11''),
      (ValidationCheckRecorded, ''t:12''),
      (TaskCheckpointCaptured, ''t:13''),
      (TaskObservationRecorded, ''t:14''),
      (EventSignatureRecorded, ''t:15''),
      (ArtifactRemoved, ''t:16''),
      (ChangeDeclared, ''t:17''),
      (ChangeMembershipAsserted, ''t:18''),
      (ChangeMembershipWithdrawn, ''t:19''),
      (ChangeLinkAsserted, ''t:20''),
      (ChangeRevisionRelationAsserted, ''t:21''),
      (ChangeRevisionRelationWithdrawn, ''t:22''),
      (RevisionRelationAttested, ''t:23''),
      (ReviewFactPorted, ''t:24'')]"

fun find_map :: "('a \<Rightarrow> 'b option) \<Rightarrow> 'a list \<Rightarrow> 'b option" where
  "find_map f [] = None"
| "find_map f (x # xs) = (case f x of None \<Rightarrow> find_map f xs | Some y \<Rightarrow> Some y)"

text \<open>\<open>the\<close> is the source's \<open>expect\<close>: \<open>type_code_registered\<close> shows it never fires.\<close>

definition type_code :: "event_type \<Rightarrow> string" where
  "type_code ty =
     the (find_map (\<lambda>(candidate, code). if candidate = ty then Some code else None) REGISTRY)"

definition event_type_from_code :: "string \<Rightarrow> event_type option" where
  "event_type_from_code code =
     find_map (\<lambda>(ty, candidate). if candidate = code then Some ty else None) REGISTRY"

text \<open>The serde adapter of the envelope's \<open>eventType\<close> field.\<close>

definition serde_code_serialize :: "event_type \<Rightarrow> json" where
  "serde_code_serialize event_type = JString (type_code event_type)"

fun serde_code_deserialize :: "json \<Rightarrow> event_type result" where
  "serde_code_deserialize (JString code) =
     (case event_type_from_code code of None \<Rightarrow> Inl Json | Some ty \<Rightarrow> Inr ty)"
| "serde_code_deserialize _ = Inl Json"

lemma type_code_registered:
  "find_map (\<lambda>(candidate, code). if candidate = ty then Some code else None) REGISTRY \<noteq> None"
  by (cases ty) (simp_all add: REGISTRY_def)

lemma event_type_from_type_code [simp]: "event_type_from_code (type_code ty) = Some ty"
  by (cases ty) (simp_all add: type_code_def event_type_from_code_def REGISTRY_def)

lemma find_map_SomeD: "find_map f xs = Some y \<Longrightarrow> \<exists>x \<in> set xs. f x = Some y"
  by (induction xs) (auto split: option.splits)

lemma type_code_from_event_type:
  assumes "event_type_from_code code = Some ty"
  shows "type_code ty = code"
proof -
  have *: "\<forall>e \<in> set REGISTRY. type_code (fst e) = snd e"
    by (simp add: REGISTRY_def type_code_def)
  from find_map_SomeD [OF assms [unfolded event_type_from_code_def]] have "(ty, code) \<in> set REGISTRY"
    by (auto split: if_splits)
  with * show ?thesis by force
qed

lemma type_code_length: "length (type_code ty) = 4"
  by (cases ty) (simp_all add: type_code_def REGISTRY_def)

lemma type_code_inj: "type_code a = type_code b \<longleftrightarrow> a = b"
  by (metis event_type_from_type_code option.inject)

end
