(* ===== verification/Event_Payloads.thy ===== *)
theory Event_Payloads
  imports Event_Types
begin

text \<open>
  The payloads of the proposal, observation, assessment, input-request, association,
  validation, task, signature and removal families (\<open>src/src/session/event\<close>, one file per
  family), the idempotency keys they mint and the content ids of associations. A key is
  what an event id is derived from, so it decides which writes are the same write.
\<close>

section \<open>Text helpers of the standard library\<close>

text \<open>
  \<open>value.trim().is_empty()\<close> on UTF-8 bytes: nothing but white space, where the white space
  of Unicode takes one byte (tab to carriage return, space), two bytes (U+0085, U+00A0) or
  three bytes (U+1680, U+2000 to U+200A, U+2028, U+2029, U+202F, U+205F, U+3000).
\<close>

definition white_space_3 :: "nat \<Rightarrow> nat \<Rightarrow> nat \<Rightarrow> bool" where
  "white_space_3 a b c \<longleftrightarrow>
     a = 225 \<and> b = 154 \<and> c = 128 \<or>
     a = 226 \<and> b = 128 \<and> (128 \<le> c \<and> c \<le> 138 \<or> c = 168 \<or> c = 169 \<or> c = 175) \<or>
     a = 226 \<and> b = 129 \<and> c = 159 \<or>
     a = 227 \<and> b = 128 \<and> c = 128"

fun trim_bytes_empty :: "nat list \<Rightarrow> bool" where
  "trim_bytes_empty (a # bs) =
     (if 9 \<le> a \<and> a \<le> 13 \<or> a = 32 then trim_bytes_empty bs
      else case bs of
        [] \<Rightarrow> False
      | b # cs \<Rightarrow>
          if a = 194 \<and> (b = 133 \<or> b = 160) then trim_bytes_empty cs
          else case cs of
            [] \<Rightarrow> False
          | c # ds \<Rightarrow> white_space_3 a b c \<and> trim_bytes_empty ds)"
| "trim_bytes_empty [] = True"

definition trim_is_empty :: "string \<Rightarrow> bool" where
  "trim_is_empty s = trim_bytes_empty (map of_char s)"

section \<open>Shared enums\<close>

datatype body_content_type = TextPlain | TextMarkdown

fun body_content_type_as_str :: "body_content_type \<Rightarrow> string" where
  "body_content_type_as_str TextPlain = ''text/plain''"
| "body_content_type_as_str TextMarkdown = ''text/markdown''"

fun identity_tag :: "body_content_type \<Rightarrow> string option" where
  "identity_tag TextPlain = None"
| "identity_tag TextMarkdown = Some (body_content_type_as_str TextMarkdown)"

datatype review_assessment = Accepted | AcceptedWithFollowUp | NeedsChanges | NeedsClarification

datatype input_request_reason_code =
    AmbiguousState | UnsafeAction | StaleRevision | FailedGate | ExternalSideEffect
  | ConflictingEvent | MissingPermission | ManualDecisionRequired | InsufficientEvidence

datatype input_request_response_outcome =
    Approved | Rejected | Dismissed | Superseded | Abandoned

datatype source_speaker = User | Agent

section \<open>Payloads\<close>

record git_provenance =
  gp_source :: revision_source
  gp_base :: review_endpoint
  gp_target :: review_endpoint

record revision =
  rev_id :: revision_id
  rev_object_id :: object_id
  rev_git_provenance :: "git_provenance option"

record revision_proposal =
  rp_revision :: revision
  rp_summary :: "string option"
  rp_object_artifact_content_hash :: string
  rp_supersedes :: "revision_id list"

record task_attempt_proposal =
  tp_task_attempt_id :: work_object_id
  tp_project_path :: string
  tp_claude_session_uuid :: string
  tp_initial_prompt_hash :: string
  tp_predecessor :: "work_object_id option"
  tp_base_state_fingerprint :: "string option"
  tp_source_speaker :: "source_speaker option"

datatype work_object_proposal =
    WP_Revision revision_proposal
  | WP_TaskAttempt task_attempt_proposal

record work_object_proposed_payload =
  wo_engagement_id :: engagement_id
  wo_work_object :: work_object_proposal

record review_observation_recorded_payload =
  ob_observation_id :: observation_id
  ob_target :: review_target_ref
  ob_title :: string
  ob_body :: "string option"
  ob_body_content_type :: body_content_type
  ob_body_artifact_path :: "string option"
  ob_body_byte_size :: "nat option"
  ob_body_content_hash :: "string option"
  ob_tags :: "string list"
  ob_confidence :: "string option"
  ob_supersedes_observation_ids :: "observation_id list"
  ob_responds_to_observation_ids :: "observation_id list"

record review_assessment_recorded_payload =
  as_assessment_id :: assessment_id
  as_target :: review_target_ref
  as_assessment :: review_assessment
  as_summary :: "string option"
  as_summary_content_type :: body_content_type
  as_summary_artifact_path :: "string option"
  as_summary_byte_size :: "nat option"
  as_summary_content_hash :: "string option"
  as_replaces_assessment_ids :: "assessment_id list"
  as_related_observation_ids :: "observation_id list"
  as_related_input_request_ids :: "input_request_id list"

record input_request_opened_payload =
  ro_input_request_id :: input_request_id
  ro_target :: review_target_ref
  ro_task_target :: "task_target_ref option"
  ro_reason_code :: input_request_reason_code
  ro_title :: string
  ro_body :: "string option"
  ro_body_content_type :: body_content_type
  ro_body_artifact_path :: "string option"
  ro_body_byte_size :: "nat option"
  ro_body_content_hash :: "string option"
  ro_target_fingerprint :: "string option"

record input_request_responded_payload =
  rs_input_request_response_id :: string
  rs_input_request_id :: input_request_id
  rs_revision_id :: "revision_id option"
  rs_task_target :: "task_target_ref option"
  rs_outcome :: input_request_response_outcome
  rs_reason :: "string option"
  rs_reason_content_type :: body_content_type
  rs_reason_artifact_path :: "string option"
  rs_reason_byte_size :: "nat option"
  rs_reason_content_hash :: "string option"
  rs_target_fingerprint :: "string option"

record revision_commit_associated_payload =
  ca_commit_association_id :: string
  ca_target :: review_target_ref
  ca_commit :: review_endpoint

record revision_ref_associated_payload =
  ra_ref_association_id :: string
  ra_target :: review_target_ref
  ra_ref_name :: string
  ra_head_oid :: string

record revision_commit_withdrawn_payload =
  cw_commit_withdrawal_id :: string
  cw_target :: review_target_ref
  cw_commit_association_id :: string

record revision_ref_withdrawn_payload =
  rw_ref_withdrawal_id :: string
  rw_target :: review_target_ref
  rw_ref_association_id :: string

record validation_check_recorded_payload =
  vc_validation_check_id :: string
  vc_target :: validation_target
  vc_check_name :: string
  vc_command :: "string option"
  vc_status :: validation_status
  vc_exit_code :: "int option"
  vc_trigger :: validation_trigger
  vc_source_fingerprint :: "string option"
  vc_summary :: "string option"
  vc_summary_content_type :: body_content_type
  vc_summary_artifact_path :: "string option"
  vc_summary_byte_size :: "nat option"
  vc_summary_content_hash :: "string option"
  vc_started_at :: "string option"
  vc_completed_at :: "string option"
  vc_log_artifact_content_hashes :: "string list"

record task_checkpoint_captured_payload =
  tc_checkpoint_id :: checkpoint_id
  tc_parent_task_attempt_id :: work_object_id
  tc_assistant_message_id :: string
  tc_tool_use_ids :: "string list"
  tc_checkpoint_fingerprint :: "string option"
  tc_source_speaker :: "source_speaker option"

record task_observation_recorded_payload =
  to_observation_id :: observation_id
  to_checkpoint_id :: "checkpoint_id option"
  to_title :: string
  to_body :: "string option"
  to_body_artifact_path :: "string option"
  to_body_byte_size :: "nat option"
  to_body_content_hash :: "string option"
  to_source_speaker :: "source_speaker option"

record event_signature =
  sg_alg :: string
  sg_sig_version :: nat
  sg_sig :: string

record inclusion_proof =
  ip_scheme :: string
  ip_proof :: string

record event_signature_recorded_payload =
  es_target_event_id :: event_id
  es_target_event_record_hash :: string
  es_attesting_signer :: signer_id
  es_attestation :: event_signature
  es_inclusion_proof :: "inclusion_proof option"

record artifact_removed_payload =
  ar_content_hash :: string

section \<open>Idempotency keys\<close>

definition review_initialized_key :: "journal_id \<Rightarrow> string" where
  "review_initialized_key journal_id = type_code ReviewInitialized @ '':'' @ journal_id"

definition observation_key :: "revision_id \<Rightarrow> track_id \<Rightarrow> string \<Rightarrow> string" where
  "observation_key revision_id track_id source_key =
     type_code ReviewObservationRecorded @ '':'' @ revision_id @ '':'' @ track_id @ '':'' @ source_key"

definition assessment_key :: "revision_id \<Rightarrow> track_id \<Rightarrow> string \<Rightarrow> string" where
  "assessment_key revision_id track_id source_key =
     type_code ReviewAssessmentRecorded @ '':'' @ revision_id @ '':'' @ track_id @ '':'' @ source_key"

definition validation_check_key :: "revision_id \<Rightarrow> track_id \<Rightarrow> string \<Rightarrow> string" where
  "validation_check_key revision_id track_id source_key =
     type_code ValidationCheckRecorded @ '':'' @ revision_id @ '':'' @ track_id @ '':'' @ source_key"

definition input_request_opened_key :: "revision_id \<Rightarrow> track_id \<Rightarrow> string \<Rightarrow> string" where
  "input_request_opened_key revision_id track_id source_key =
     type_code InputRequestOpened @ '':'' @ revision_id @ '':'' @ track_id @ '':'' @ source_key"

definition input_request_opened_work_object_key ::
  "work_object_id \<Rightarrow> work_object_type \<Rightarrow> string \<Rightarrow> string" where
  "input_request_opened_work_object_key work_object_id _ source_key =
     type_code InputRequestOpened @ '':'' @ work_object_id @ '':'' @ source_key"

definition input_request_responded_key :: "input_request_id \<Rightarrow> string \<Rightarrow> string" where
  "input_request_responded_key input_request_id source_key =
     type_code InputRequestResponded @ '':'' @ input_request_id @ '':'' @ source_key"

definition commit_associated_key :: "revision_id \<Rightarrow> string \<Rightarrow> string" where
  "commit_associated_key revision_id commit_oid =
     type_code RevisionCommitAssociated @ '':'' @ revision_id @ '':'' @ commit_oid"

definition ref_distinguisher :: "string \<Rightarrow> string \<Rightarrow> string" where
  "ref_distinguisher ref_name head_oid = ref_name @ ''@'' @ head_oid"

definition ref_associated_key :: "revision_id \<Rightarrow> string \<Rightarrow> string \<Rightarrow> string" where
  "ref_associated_key revision_id ref_name head_oid =
     type_code RevisionRefAssociated @ '':'' @ revision_id @ '':'' @ ref_distinguisher ref_name head_oid"

definition commit_withdrawn_key :: "string \<Rightarrow> string" where
  "commit_withdrawn_key commit_association_id =
     type_code RevisionCommitWithdrawn @ '':'' @ commit_association_id"

definition ref_withdrawn_key :: "string \<Rightarrow> string" where
  "ref_withdrawn_key ref_association_id = type_code RevisionRefWithdrawn @ '':'' @ ref_association_id"

definition task_checkpoint_key :: "work_object_id \<Rightarrow> work_object_type \<Rightarrow> string \<Rightarrow> string" where
  "task_checkpoint_key work_object_id _ source_key =
     type_code TaskCheckpointCaptured @ '':'' @ work_object_id @ '':'' @ source_key"

definition task_observation_key :: "work_object_id \<Rightarrow> work_object_type \<Rightarrow> string \<Rightarrow> string" where
  "task_observation_key work_object_id _ source_key =
     type_code TaskObservationRecorded @ '':'' @ work_object_id @ '':'' @ source_key"

definition event_signature_key :: "string \<Rightarrow> signer_id \<Rightarrow> string \<Rightarrow> string" where
  "event_signature_key target_event_record_hash attesting_signer signature_encoding =
     type_code EventSignatureRecorded @ '':'' @ target_event_record_hash @ '':'' @
     attesting_signer @ '':'' @ signature_encoding"

definition artifact_removed_key :: "string \<Rightarrow> string" where
  "artifact_removed_key content_hash = type_code ArtifactRemoved @ '':'' @ content_hash"

section \<open>Association ids\<close>

definition build_commit_association_id :: "externals \<Rightarrow> revision_id \<Rightarrow> string \<Rightarrow> string result" where
  "build_commit_association_id ext revision_id commit_oid =
     Inr (COMMIT_ASSOCIATION @ '':'' @ sha256_json_prefixed ext (JObject
       [(''revisionId'', JString revision_id), (''commitOid'', JString commit_oid)]))"

definition build_ref_association_id ::
  "externals \<Rightarrow> revision_id \<Rightarrow> string \<Rightarrow> string \<Rightarrow> string result" where
  "build_ref_association_id ext revision_id ref_name head_oid =
     Inr (REF_ASSOCIATION @ '':'' @ sha256_json_prefixed ext (JObject
       [(''revisionId'', JString revision_id), (''refName'', JString ref_name),
        (''headOid'', JString head_oid)]))"

definition build_commit_withdrawal_id :: "externals \<Rightarrow> revision_id \<Rightarrow> string \<Rightarrow> string result" where
  "build_commit_withdrawal_id ext revision_id commit_association_id =
     Inr (COMMIT_WITHDRAWAL @ '':'' @ sha256_json_prefixed ext (JObject
       [(''revisionId'', JString revision_id), (''commitAssociationId'', JString commit_association_id)]))"

definition build_ref_withdrawal_id :: "externals \<Rightarrow> revision_id \<Rightarrow> string \<Rightarrow> string result" where
  "build_ref_withdrawal_id ext revision_id ref_association_id =
     Inr (REF_WITHDRAWAL @ '':'' @ sha256_json_prefixed ext (JObject
       [(''revisionId'', JString revision_id), (''refAssociationId'', JString ref_association_id)]))"

end
