(* ===== verification/Change_Claims.thy ===== *)
theory Change_Claims
  imports Model_Types
begin

text \<open>
  The claims about Changes (\<open>src/src/session/event/change.rs\<close>): declaration, membership and
  its withdrawal, links between Changes, replacement relations and their withdrawal. A claim
  carries an id that commits to its coordinates and to a nonce; \<open>validate\<close> recomputes it.
  \<open>[u8; 32]\<close> nonces are strings of 32 bytes.
\<close>

section \<open>Payloads\<close>

definition CHANGE_DECLARED_SCHEMA_V1 :: string where
  "CHANGE_DECLARED_SCHEMA_V1 = ''pointbreak.change-declared''"
definition MEMBERSHIP_ASSERTED_SCHEMA_V1 :: string where
  "MEMBERSHIP_ASSERTED_SCHEMA_V1 = ''pointbreak.change-membership-asserted''"
definition MEMBERSHIP_WITHDRAWN_SCHEMA_V1 :: string where
  "MEMBERSHIP_WITHDRAWN_SCHEMA_V1 = ''pointbreak.change-membership-withdrawn''"
definition CHANGE_LINK_ASSERTED_SCHEMA_V1 :: string where
  "CHANGE_LINK_ASSERTED_SCHEMA_V1 = ''pointbreak.change-link-asserted''"
definition REVISION_RELATION_ASSERTED_SCHEMA_V1 :: string where
  "REVISION_RELATION_ASSERTED_SCHEMA_V1 = ''pointbreak.change-revision-relation-asserted''"
definition REVISION_RELATION_WITHDRAWN_SCHEMA_V1 :: string where
  "REVISION_RELATION_WITHDRAWN_SCHEMA_V1 = ''pointbreak.change-revision-relation-withdrawn''"

record change_declared_payload =
  cd_schema :: string
  cd_version :: nat
  cd_declaration_claim_id :: claim_id
  cd_change_id :: change_id
  cd_identity_descriptor :: change_identity_descriptor_v1
  cd_claim_nonce :: string

record change_membership_asserted_payload =
  ma_schema :: string
  ma_version :: nat
  ma_membership_claim_id :: claim_id
  ma_change_id :: change_id
  ma_revision_id :: revision_id
  ma_claim_nonce :: string

record change_membership_withdrawn_payload =
  mw_schema :: string
  mw_version :: nat
  mw_membership_withdrawal_id :: claim_id
  mw_membership_claim_id :: claim_id
  mw_claim_nonce :: string

datatype change_link_relation_v1 = SameWork | RelatedWork

record change_link_asserted_payload =
  cl_schema :: string
  cl_version :: nat
  cl_link_claim_id :: claim_id
  cl_left_change_id :: change_id
  cl_right_change_id :: change_id
  cl_relation :: change_link_relation_v1
  cl_claim_nonce :: string

datatype change_revision_relation_v1 = Supersedes

record change_revision_relation_asserted_payload =
  cr_schema :: string
  cr_version :: nat
  cr_relation_claim_id :: claim_id
  cr_change_id :: change_id
  cr_successor :: revision_ref_v1
  cr_predecessor :: revision_ref_v1
  cr_relation :: change_revision_relation_v1
  cr_claim_nonce :: string

record change_revision_relation_withdrawn_payload =
  cx_schema :: string
  cx_version :: nat
  cx_relation_withdrawal_id :: claim_id
  cx_relation_claim_id :: claim_id
  cx_claim_nonce :: string

fun link_relation_json :: "change_link_relation_v1 \<Rightarrow> json" where
  "link_relation_json SameWork = JString ''same_work''"
| "link_relation_json RelatedWork = JString ''related_work''"

fun revision_relation_json :: "change_revision_relation_v1 \<Rightarrow> json" where
  "revision_relation_json Supersedes = JString ''supersedes''"

section \<open>Identity of a claim\<close>

definition claim_material :: "string \<Rightarrow> json \<Rightarrow> string \<Rightarrow> json" where
  "claim_material family coordinates claim_nonce = JObject
     [(''family'', JString family), (''coordinates'', coordinates), (''claimNonce'', JString claim_nonce)]"

definition prefixed_claim_id :: "externals \<Rightarrow> string \<Rightarrow> string \<Rightarrow> json \<Rightarrow> string \<Rightarrow> string result" where
  "prefixed_claim_id ext prefix family coordinates claim_nonce =
     Inr (prefix @ '':'' @ sha256_json_prefixed ext (claim_material family coordinates claim_nonce))"

definition invalid_change_payload :: "string \<Rightarrow> 'a result" where
  "invalid_change_payload message = Inl (InvalidEvent message)"

definition validate_payload_header :: "string \<Rightarrow> nat \<Rightarrow> string \<Rightarrow> unit result" where
  "validate_payload_header schema version expected_schema =
     (if schema = expected_schema \<and> version = 1 then Inr ()
      else invalid_change_payload ''unsupported Change payload schema/version'')"

definition validate_claim_nonce :: "string \<Rightarrow> unit result" where
  "validate_claim_nonce nonce =
     (if is_lowercase_hex_64 nonce then Inr ()
      else invalid_change_payload ''Change claim nonce must be 32 lowercase-hex bytes'')"

section \<open>Validation\<close>

definition declaration_coordinates :: "change_id \<Rightarrow> change_identity_descriptor_v1 \<Rightarrow> json" where
  "declaration_coordinates change_id descriptor = JObject
     [(''changeId'', JString change_id), (''identityDescriptor'', descriptor_json descriptor)]"

definition change_declared_validate :: "externals \<Rightarrow> change_declared_payload \<Rightarrow> unit result" where
  "change_declared_validate ext p =
     and_then (validate_payload_header (cd_schema p) (cd_version p) CHANGE_DECLARED_SCHEMA_V1) (\<lambda>_.
     and_then (validate_claim_nonce (cd_claim_nonce p)) (\<lambda>_.
     and_then (derive_change_id ext (cd_identity_descriptor p)) (\<lambda>change_id.
     if change_id \<noteq> cd_change_id p then
       invalid_change_payload ''Change declaration identity mismatch''
     else
     and_then (prefixed_claim_id ext CHANGE_DECLARATION ''change_declared_v1''
         (declaration_coordinates (cd_change_id p) (cd_identity_descriptor p))
         (cd_claim_nonce p)) (\<lambda>expected.
     if expected \<noteq> cd_declaration_claim_id p then
       invalid_change_payload ''Change declaration claim id mismatch''
     else Inr ()))))"

definition membership_material :: "change_id \<Rightarrow> revision_id \<Rightarrow> string \<Rightarrow> json" where
  "membership_material change_id revision_id claim_nonce = JObject
     [(''family'', JString ''change_membership_asserted_v1''),
      (''changeId'', JString change_id),
      (''revisionId'', JString revision_id),
      (''claimNonce'', JString claim_nonce)]"

definition membership_asserted_validate ::
  "externals \<Rightarrow> change_membership_asserted_payload \<Rightarrow> unit result" where
  "membership_asserted_validate ext p =
     and_then (validate_payload_header (ma_schema p) (ma_version p) MEMBERSHIP_ASSERTED_SCHEMA_V1) (\<lambda>_.
     and_then (validate_claim_nonce (ma_claim_nonce p)) (\<lambda>_.
     let expected = CHANGE_MEMBERSHIP @ '':'' @ sha256_json_prefixed ext
           (membership_material (ma_change_id p) (ma_revision_id p) (ma_claim_nonce p))
     in if expected \<noteq> ma_membership_claim_id p then
          invalid_change_payload ''Change membership claim id mismatch''
        else Inr ()))"

definition membership_withdrawal_coordinates :: "claim_id \<Rightarrow> json" where
  "membership_withdrawal_coordinates membership_claim_id =
     JObject [(''membershipClaimId'', JString membership_claim_id)]"

definition membership_withdrawn_validate ::
  "externals \<Rightarrow> change_membership_withdrawn_payload \<Rightarrow> unit result" where
  "membership_withdrawn_validate ext p =
     and_then (validate_payload_header (mw_schema p) (mw_version p) MEMBERSHIP_WITHDRAWN_SCHEMA_V1) (\<lambda>_.
     and_then (validate_claim_nonce (mw_claim_nonce p)) (\<lambda>_.
     and_then (prefixed_claim_id ext CHANGE_MEMBERSHIP_WITHDRAWAL ''change_membership_withdrawn_v1''
         (membership_withdrawal_coordinates (mw_membership_claim_id p)) (mw_claim_nonce p)) (\<lambda>expected.
     if expected \<noteq> mw_membership_withdrawal_id p then
       invalid_change_payload ''Change membership withdrawal id mismatch''
     else Inr ())))"

definition link_coordinates :: "change_id \<Rightarrow> change_id \<Rightarrow> change_link_relation_v1 \<Rightarrow> json" where
  "link_coordinates left_change_id right_change_id relation = JObject
     [(''leftChangeId'', JString left_change_id), (''rightChangeId'', JString right_change_id),
      (''relation'', link_relation_json relation)]"

definition change_link_validate :: "externals \<Rightarrow> change_link_asserted_payload \<Rightarrow> unit result" where
  "change_link_validate ext p =
     and_then (validate_payload_header (cl_schema p) (cl_version p) CHANGE_LINK_ASSERTED_SCHEMA_V1) (\<lambda>_.
     and_then (validate_claim_nonce (cl_claim_nonce p)) (\<lambda>_.
     if cl_left_change_id p \<ge> cl_right_change_id p then
       invalid_change_payload ''Change links require a canonical distinct id pair''
     else
     and_then (prefixed_claim_id ext CHANGE_LINK ''change_link_asserted_v1''
         (link_coordinates (cl_left_change_id p) (cl_right_change_id p) (cl_relation p))
         (cl_claim_nonce p)) (\<lambda>expected.
     if expected \<noteq> cl_link_claim_id p then
       invalid_change_payload ''Change link claim id mismatch''
     else Inr ())))"

definition revision_relation_coordinates ::
  "change_id \<Rightarrow> revision_ref_v1 \<Rightarrow> revision_ref_v1 \<Rightarrow> change_revision_relation_v1 \<Rightarrow> json" where
  "revision_relation_coordinates change_id successor predecessor relation = JObject
     [(''changeId'', JString change_id), (''successor'', revision_ref_json successor),
      (''predecessor'', revision_ref_json predecessor), (''relation'', revision_relation_json relation)]"

definition revision_relation_asserted_validate ::
  "externals \<Rightarrow> change_revision_relation_asserted_payload \<Rightarrow> unit result" where
  "revision_relation_asserted_validate ext p =
     and_then (validate_payload_header (cr_schema p) (cr_version p)
         REVISION_RELATION_ASSERTED_SCHEMA_V1) (\<lambda>_.
     and_then (validate_claim_nonce (cr_claim_nonce p)) (\<lambda>_.
     and_then (prefixed_claim_id ext CHANGE_REVISION_RELATION ''change_revision_relation_asserted_v1''
         (revision_relation_coordinates (cr_change_id p) (cr_successor p) (cr_predecessor p) (cr_relation p))
         (cr_claim_nonce p)) (\<lambda>expected.
     if expected \<noteq> cr_relation_claim_id p then
       invalid_change_payload ''Change Revision-relation claim id mismatch''
     else Inr ())))"

definition relation_withdrawal_coordinates :: "claim_id \<Rightarrow> json" where
  "relation_withdrawal_coordinates relation_claim_id =
     JObject [(''relationClaimId'', JString relation_claim_id)]"

definition revision_relation_withdrawn_validate ::
  "externals \<Rightarrow> change_revision_relation_withdrawn_payload \<Rightarrow> unit result" where
  "revision_relation_withdrawn_validate ext p =
     and_then (validate_payload_header (cx_schema p) (cx_version p)
         REVISION_RELATION_WITHDRAWN_SCHEMA_V1) (\<lambda>_.
     and_then (validate_claim_nonce (cx_claim_nonce p)) (\<lambda>_.
     and_then (prefixed_claim_id ext CHANGE_REVISION_RELATION_WITHDRAWAL
         ''change_revision_relation_withdrawn_v1''
         (relation_withdrawal_coordinates (cx_relation_claim_id p)) (cx_claim_nonce p)) (\<lambda>expected.
     if expected \<noteq> cx_relation_withdrawal_id p then
       invalid_change_payload ''Change Revision-relation withdrawal id mismatch''
     else Inr ())))"

section \<open>Builders\<close>

definition build_change_declared ::
  "externals \<Rightarrow> change_identity_descriptor_v1 \<Rightarrow> string \<Rightarrow> change_declared_payload result" where
  "build_change_declared ext descriptor nonce =
     and_then (derive_change_id ext descriptor) (\<lambda>change_id.
     let claim_nonce = lowercase_hex nonce in
     and_then (prefixed_claim_id ext CHANGE_DECLARATION ''change_declared_v1''
         (declaration_coordinates change_id descriptor) claim_nonce) (\<lambda>declaration_claim_id.
     Inr \<lparr>cd_schema = CHANGE_DECLARED_SCHEMA_V1, cd_version = 1,
          cd_declaration_claim_id = declaration_claim_id, cd_change_id = change_id,
          cd_identity_descriptor = descriptor, cd_claim_nonce = claim_nonce\<rparr>))"

definition build_membership_asserted ::
  "externals \<Rightarrow> change_id \<Rightarrow> revision_id \<Rightarrow> string \<Rightarrow> change_membership_asserted_payload result" where
  "build_membership_asserted ext change_id revision_id claim_nonce =
     (let claim_nonce_text = lowercase_hex claim_nonce in
      and_then (derive_membership_claim_id ext change_id revision_id claim_nonce) (\<lambda>membership_claim_id.
      Inr \<lparr>ma_schema = MEMBERSHIP_ASSERTED_SCHEMA_V1, ma_version = 1,
           ma_membership_claim_id = membership_claim_id, ma_change_id = change_id,
           ma_revision_id = revision_id, ma_claim_nonce = claim_nonce_text\<rparr>))"

definition build_membership_withdrawn ::
  "externals \<Rightarrow> claim_id \<Rightarrow> string \<Rightarrow> change_membership_withdrawn_payload result" where
  "build_membership_withdrawn ext membership_claim_id nonce =
     (let claim_nonce = lowercase_hex nonce in
      and_then (prefixed_claim_id ext CHANGE_MEMBERSHIP_WITHDRAWAL ''change_membership_withdrawn_v1''
          (membership_withdrawal_coordinates membership_claim_id) claim_nonce) (\<lambda>membership_withdrawal_id.
      Inr \<lparr>mw_schema = MEMBERSHIP_WITHDRAWN_SCHEMA_V1, mw_version = 1,
           mw_membership_withdrawal_id = membership_withdrawal_id,
           mw_membership_claim_id = membership_claim_id, mw_claim_nonce = claim_nonce\<rparr>))"

definition build_change_link_asserted ::
  "externals \<Rightarrow> change_id \<Rightarrow> change_id \<Rightarrow> change_link_relation_v1 \<Rightarrow> string
     \<Rightarrow> change_link_asserted_payload result" where
  "build_change_link_asserted ext first second relation nonce =
     (let (left_change_id, right_change_id) =
            (if first \<le> second then (first, second) else (second, first));
          claim_nonce = lowercase_hex nonce in
      and_then (prefixed_claim_id ext CHANGE_LINK ''change_link_asserted_v1''
          (link_coordinates left_change_id right_change_id relation) claim_nonce) (\<lambda>link_claim_id.
      let payload = \<lparr>cl_schema = CHANGE_LINK_ASSERTED_SCHEMA_V1, cl_version = 1,
                     cl_link_claim_id = link_claim_id, cl_left_change_id = left_change_id,
                     cl_right_change_id = right_change_id, cl_relation = relation,
                     cl_claim_nonce = claim_nonce\<rparr> in
      and_then (change_link_validate ext payload) (\<lambda>_. Inr payload)))"

definition build_revision_relation_asserted ::
  "externals \<Rightarrow> change_id \<Rightarrow> revision_ref_v1 \<Rightarrow> revision_ref_v1 \<Rightarrow> string
     \<Rightarrow> change_revision_relation_asserted_payload result" where
  "build_revision_relation_asserted ext change_id successor predecessor nonce =
     (let claim_nonce = lowercase_hex nonce; relation = Supersedes in
      and_then (prefixed_claim_id ext CHANGE_REVISION_RELATION ''change_revision_relation_asserted_v1''
          (revision_relation_coordinates change_id successor predecessor relation)
          claim_nonce) (\<lambda>relation_claim_id.
      Inr \<lparr>cr_schema = REVISION_RELATION_ASSERTED_SCHEMA_V1, cr_version = 1,
           cr_relation_claim_id = relation_claim_id, cr_change_id = change_id,
           cr_successor = successor, cr_predecessor = predecessor, cr_relation = relation,
           cr_claim_nonce = claim_nonce\<rparr>))"

definition build_revision_relation_withdrawn ::
  "externals \<Rightarrow> claim_id \<Rightarrow> string \<Rightarrow> change_revision_relation_withdrawn_payload result" where
  "build_revision_relation_withdrawn ext relation_claim_id nonce =
     (let claim_nonce = lowercase_hex nonce in
      and_then (prefixed_claim_id ext CHANGE_REVISION_RELATION_WITHDRAWAL
          ''change_revision_relation_withdrawn_v1''
          (relation_withdrawal_coordinates relation_claim_id) claim_nonce) (\<lambda>relation_withdrawal_id.
      Inr \<lparr>cx_schema = REVISION_RELATION_WITHDRAWN_SCHEMA_V1, cx_version = 1,
           cx_relation_withdrawal_id = relation_withdrawal_id,
           cx_relation_claim_id = relation_claim_id, cx_claim_nonce = claim_nonce\<rparr>))"

section \<open>What validation and the builders guarantee\<close>

lemma header_ok_iff [simp]:
  "validate_payload_header s v e = Inr () \<longleftrightarrow> s = e \<and> v = 1"
  by (auto simp: validate_payload_header_def invalid_change_payload_def)

lemma nonce_ok_iff [simp]: "validate_claim_nonce n = Inr () \<longleftrightarrow> is_lowercase_hex_64 n"
  by (auto simp: validate_claim_nonce_def invalid_change_payload_def)

lemma prefixed_claim_id_Inr [simp]:
  "prefixed_claim_id ext prefix family coordinates nonce = Inr i \<longleftrightarrow>
     i = prefix @ '':'' @ sha256_json_prefixed ext (claim_material family coordinates nonce)"
  by (auto simp: prefixed_claim_id_def)

lemma invalid_not_Inr [simp]: "invalid_change_payload m \<noteq> Inr x"
  by (simp add: invalid_change_payload_def)

lemmas validate_defs = change_declared_validate_def membership_asserted_validate_def
  membership_withdrawn_validate_def change_link_validate_def revision_relation_asserted_validate_def
  revision_relation_withdrawn_validate_def and_then_eq_Inr_iff Let_def

lemmas build_defs = build_change_declared_def build_membership_asserted_def
  build_membership_withdrawn_def build_change_link_asserted_def build_revision_relation_asserted_def
  build_revision_relation_withdrawn_def and_then_eq_Inr_iff Let_def

lemma build_change_declared_valid:
  assumes "length nonce = 32" and "build_change_declared ext descriptor nonce = Inr p"
  shows "change_declared_validate ext p = Inr ()"
  using assms by (auto simp: build_defs validate_defs lowercase_hex_nonce)

lemma build_membership_asserted_valid:
  assumes "length nonce = 32" and "build_membership_asserted ext c r nonce = Inr p"
  shows "membership_asserted_validate ext p = Inr ()"
  using assms
  by (auto simp: build_defs validate_defs lowercase_hex_nonce derive_membership_claim_id_def
      membership_material_def)

lemma build_membership_withdrawn_valid:
  assumes "length nonce = 32" and "build_membership_withdrawn ext i nonce = Inr p"
  shows "membership_withdrawn_validate ext p = Inr ()"
  using assms by (auto simp: build_defs validate_defs lowercase_hex_nonce)

lemma build_revision_relation_asserted_valid:
  assumes "length nonce = 32" and "build_revision_relation_asserted ext c s q nonce = Inr p"
  shows "revision_relation_asserted_validate ext p = Inr ()"
  using assms by (auto simp: build_defs validate_defs lowercase_hex_nonce)

lemma build_revision_relation_withdrawn_valid:
  assumes "length nonce = 32" and "build_revision_relation_withdrawn ext i nonce = Inr p"
  shows "revision_relation_withdrawn_validate ext p = Inr ()"
  using assms by (auto simp: build_defs validate_defs lowercase_hex_nonce)

lemma build_change_link_asserted_valid:
  assumes "length nonce = 32"
  shows "(first \<noteq> second \<longrightarrow> (\<exists>p. build_change_link_asserted ext first second relation nonce = Inr p \<and>
           change_link_validate ext p = Inr () \<and>
           {cl_left_change_id p, cl_right_change_id p} = {first, second})) \<and>
         (first = second \<longrightarrow> build_change_link_asserted ext first second relation nonce =
           Inl (InvalidEvent ''Change links require a canonical distinct id pair''))"
  using assms
  by (auto simp: build_change_link_asserted_def change_link_validate_def prefixed_claim_id_def
      validate_payload_header_def validate_claim_nonce_def invalid_change_payload_def Let_def
      lowercase_hex_nonce)

lemma build_change_declared_total:
  "(\<exists>p. build_change_declared ext d nonce = Inr p) \<longleftrightarrow> descriptor_validate d = Inr ()"
  by (auto simp: build_defs derive_change_id_def)

lemma build_others_total:
  "\<exists>p. build_membership_asserted ext c r nonce = Inr p"
  "\<exists>p. build_membership_withdrawn ext i nonce = Inr p"
  "\<exists>p. build_revision_relation_asserted ext c s q nonce = Inr p"
  "\<exists>p. build_revision_relation_withdrawn ext i nonce = Inr p"
  by (auto simp: build_defs derive_membership_claim_id_def)

lemma built_claims_valid:
  assumes "length nonce = 32"
  shows "descriptor_validate d = Inr () \<Longrightarrow>
      \<exists>p. build_change_declared ext d nonce = Inr p \<and> change_declared_validate ext p = Inr ()"
    and "\<exists>p. build_membership_asserted ext c r nonce = Inr p \<and> membership_asserted_validate ext p = Inr ()"
    and "\<exists>p. build_membership_withdrawn ext i nonce = Inr p \<and> membership_withdrawn_validate ext p = Inr ()"
    and "\<exists>p. build_revision_relation_asserted ext c s q nonce = Inr p \<and>
      revision_relation_asserted_validate ext p = Inr ()"
    and "\<exists>p. build_revision_relation_withdrawn ext i nonce = Inr p \<and>
      revision_relation_withdrawn_validate ext p = Inr ()"
  using build_change_declared_total build_others_total build_change_declared_valid [OF assms]
    build_membership_asserted_valid [OF assms] build_membership_withdrawn_valid [OF assms]
    build_revision_relation_asserted_valid [OF assms] build_revision_relation_withdrawn_valid [OF assms]
  by meson+

text \<open>The id of a validated claim determines its content, up to a collision of two materials.\<close>

lemma claim_material_inj:
  assumes "canonical_json_value (claim_material f c n) = canonical_json_value (claim_material f' c' n')"
  shows "f = f' \<and> canonical_json_value c = canonical_json_value c' \<and> n = n'"
  using canonical_eq_field [OF assms, of "''family''"] canonical_eq_field [OF assms, of "''coordinates''"]
    canonical_eq_field [OF assms, of "''claimNonce''"]
  by (simp add: claim_material_def)

lemma revision_ref_json_inj:
  assumes "canonical_json_value (revision_ref_json r) = canonical_json_value (revision_ref_json s)"
  shows "r = s"
  using canonical_eq_field [OF assms, of "''revisionId''"]
    canonical_eq_field [OF assms, of "''objectArtifactContentHash''"]
  by (simp add: revision_ref_json_def)

lemma revision_relation_coordinates_inj:
  assumes "canonical_json_value (revision_relation_coordinates c s p r) =
    canonical_json_value (revision_relation_coordinates c' s' p' r')"
  shows "c = c' \<and> s = s' \<and> p = p'"
  using canonical_eq_field [OF assms, of "''changeId''"] canonical_eq_field [OF assms, of "''successor''"]
    canonical_eq_field [OF assms, of "''predecessor''"]
  by (auto simp: revision_relation_coordinates_def intro: revision_ref_json_inj)

lemma membership_material_inj:
  assumes "canonical_json_value (membership_material c i n) = canonical_json_value (membership_material c' i' n')"
  shows "c = c' \<and> i = i' \<and> n = n'"
  using canonical_eq_field [OF assms, of "''changeId''"] canonical_eq_field [OF assms, of "''revisionId''"]
    canonical_eq_field [OF assms, of "''claimNonce''"]
  by (simp add: membership_material_def)

lemma membership_valid_iff:
  "membership_asserted_validate ext p = Inr () \<longleftrightarrow>
     ma_schema p = MEMBERSHIP_ASSERTED_SCHEMA_V1 \<and> ma_version p = 1 \<and>
     is_lowercase_hex_64 (ma_claim_nonce p) \<and>
     ma_membership_claim_id p = CHANGE_MEMBERSHIP @ '':'' @ sha256_json_prefixed ext
       (membership_material (ma_change_id p) (ma_revision_id p) (ma_claim_nonce p))"
  by (auto simp: validate_defs split: if_splits)

lemma membership_claim_inj:
  assumes "membership_asserted_validate ext p = Inr ()" and "membership_asserted_validate ext q = Inr ()"
    and "ma_membership_claim_id p = ma_membership_claim_id q"
    and "\<not> json_collide ext (membership_material (ma_change_id p) (ma_revision_id p) (ma_claim_nonce p))
          (membership_material (ma_change_id q) (ma_revision_id q) (ma_claim_nonce q))"
  shows "p = q"
proof -
  note ids = assms(1,2) [unfolded membership_valid_iff]
  have "sha256_json_prefixed ext (membership_material (ma_change_id p) (ma_revision_id p) (ma_claim_nonce p)) =
      sha256_json_prefixed ext (membership_material (ma_change_id q) (ma_revision_id q) (ma_claim_nonce q))"
    using ids assms(3) by simp
  from membership_material_inj [OF sha256_json_prefixed_eq [OF this assms(4)]] ids assms(3)
  show ?thesis by simp
qed

definition relation_material :: "change_revision_relation_asserted_payload \<Rightarrow> json" where
  "relation_material p = claim_material ''change_revision_relation_asserted_v1''
     (revision_relation_coordinates (cr_change_id p) (cr_successor p) (cr_predecessor p) (cr_relation p))
     (cr_claim_nonce p)"

lemma relation_valid_iff:
  "revision_relation_asserted_validate ext p = Inr () \<longleftrightarrow>
     cr_schema p = REVISION_RELATION_ASSERTED_SCHEMA_V1 \<and> cr_version p = 1 \<and>
     is_lowercase_hex_64 (cr_claim_nonce p) \<and>
     cr_relation_claim_id p =
       CHANGE_REVISION_RELATION @ '':'' @ sha256_json_prefixed ext (relation_material p)"
  by (auto simp: validate_defs relation_material_def split: if_splits)

lemma relation_claim_inj:
  assumes "revision_relation_asserted_validate ext p = Inr ()"
    and "revision_relation_asserted_validate ext q = Inr ()"
    and "cr_relation_claim_id p = cr_relation_claim_id q"
    and "\<not> json_collide ext (relation_material p) (relation_material q)"
  shows "p = q"
proof -
  note ids = assms(1,2) [unfolded relation_valid_iff]
  have "sha256_json_prefixed ext (relation_material p) = sha256_json_prefixed ext (relation_material q)"
    using ids assms(3) by simp
  from sha256_json_prefixed_eq [OF this assms(4)]
  have *: "cr_change_id p = cr_change_id q \<and> cr_successor p = cr_successor q \<and>
      cr_predecessor p = cr_predecessor q \<and> cr_claim_nonce p = cr_claim_nonce q"
    unfolding relation_material_def by (blast dest: claim_material_inj revision_relation_coordinates_inj)
  have "cr_relation p = cr_relation q"
    by (cases "cr_relation p"; cases "cr_relation q") simp
  with * ids assms(3) show ?thesis by simp
qed

section \<open>Properties\<close>

text \<open>C31. Every builder of a Change claim succeeds and produces a payload its own \<open>validate\<close>
  accepts, for any nonce of 32 bytes: a declaration whenever its descriptor is valid, a link
  whenever the two Changes differ (the pair comes out ordered; equal ids are the documented
  error), the others always.\<close>

theorem built_change_claims_validate:
  assumes "length nonce = 32"
  shows "(descriptor_validate d = Inr () \<longrightarrow>
       (\<exists>p. build_change_declared ext d nonce = Inr p \<and> change_declared_validate ext p = Inr ())) \<and>
     (\<exists>p. build_membership_asserted ext c r nonce = Inr p \<and> membership_asserted_validate ext p = Inr ()) \<and>
     (\<exists>p. build_membership_withdrawn ext i nonce = Inr p \<and> membership_withdrawn_validate ext p = Inr ()) \<and>
     (\<exists>p. build_revision_relation_asserted ext c s q nonce = Inr p \<and>
        revision_relation_asserted_validate ext p = Inr ()) \<and>
     (\<exists>p. build_revision_relation_withdrawn ext i nonce = Inr p \<and>
        revision_relation_withdrawn_validate ext p = Inr ()) \<and>
     (first \<noteq> second \<longrightarrow> (\<exists>p. build_change_link_asserted ext first second l nonce = Inr p \<and>
        change_link_validate ext p = Inr () \<and> {cl_left_change_id p, cl_right_change_id p} = {first, second})) \<and>
     (first = second \<longrightarrow> build_change_link_asserted ext first second l nonce =
        Inl (InvalidEvent ''Change links require a canonical distinct id pair''))"
  by (intro conjI impI built_claims_valid [OF assms] build_change_link_asserted_valid [OF assms, THEN conjunct1, THEN mp]
      build_change_link_asserted_valid [OF assms, THEN conjunct2, THEN mp])

theorem built_change_claims_validate_witness:
  "length (replicate 32 CHR ''n'') = 32 \<and>
   (\<exists>p. build_change_link_asserted plain_externals ''b'' ''a'' SameWork (replicate 32 CHR ''n'') = Inr p \<and>
      change_link_validate plain_externals p = Inr () \<and>
      {cl_left_change_id p, cl_right_change_id p} = {''b'', ''a''})"
  using built_change_claims_validate [of "replicate 32 CHR ''n''" _ plain_externals _ _ _ _ _ "''b''" "''a''" SameWork]
  by simp

text \<open>C33. The id of a membership claim that validates determines the whole claim: two validated
  claims with one id are equal, unless their identity materials are a digest collision.\<close>

theorem membership_claim_id_pins_claim:
  assumes "membership_asserted_validate ext p = Inr ()" and "membership_asserted_validate ext q = Inr ()"
    and "ma_membership_claim_id p = ma_membership_claim_id q"
    and "\<not> json_collide ext (membership_material (ma_change_id p) (ma_revision_id p) (ma_claim_nonce p))
          (membership_material (ma_change_id q) (ma_revision_id q) (ma_claim_nonce q))"
  shows "p = q"
  by (rule membership_claim_inj [OF assms])

theorem membership_claim_id_pins_claim_witness:
  "\<exists>p. membership_asserted_validate plain_externals p = Inr () \<and>
     (\<forall>q. membership_asserted_validate plain_externals q = Inr () \<and>
        ma_membership_claim_id p = ma_membership_claim_id q \<and>
        \<not> json_collide plain_externals
            (membership_material (ma_change_id p) (ma_revision_id p) (ma_claim_nonce p))
            (membership_material (ma_change_id q) (ma_revision_id q) (ma_claim_nonce q)) \<longrightarrow> p = q)"
proof -
  obtain p where "membership_asserted_validate plain_externals p = Inr ()"
    using built_claims_valid(2) [of "replicate 32 CHR ''n''" plain_externals "''c''" "''rev:1''"] by auto
  then show ?thesis
    using membership_claim_id_pins_claim by blast
qed

text \<open>C34. The id of a replacement claim that validates determines the Change, both exact Revision
  references and the nonce, unless the identity materials are a digest collision.\<close>

theorem relation_claim_id_pins_claim:
  assumes "revision_relation_asserted_validate ext p = Inr ()"
    and "revision_relation_asserted_validate ext q = Inr ()"
    and "cr_relation_claim_id p = cr_relation_claim_id q"
    and "\<not> json_collide ext (relation_material p) (relation_material q)"
  shows "p = q"
  by (rule relation_claim_inj [OF assms])

theorem relation_claim_id_pins_claim_witness:
  "\<exists>p. revision_relation_asserted_validate plain_externals p = Inr () \<and>
     (\<forall>q. revision_relation_asserted_validate plain_externals q = Inr () \<and>
        cr_relation_claim_id p = cr_relation_claim_id q \<and>
        \<not> json_collide plain_externals (relation_material p) (relation_material q) \<longrightarrow> p = q)"
proof -
  let ?r = "\<lambda>i. \<lparr>rr_revision_id = i, rr_object_artifact_content_hash = ''h''\<rparr>"
  obtain p where "revision_relation_asserted_validate plain_externals p = Inr ()"
    using built_claims_valid(4)
      [of "replicate 32 CHR ''n''" plain_externals "''c''" "?r ''rev:2''" "?r ''rev:1''"] by auto
  then show ?thesis
    using relation_claim_id_pins_claim by blast
qed

end
