(* ===== verification/Relation_Claims.thy ===== *)
theory Relation_Claims
  imports Event_Payloads Change_Claims
begin

text \<open>
  Attestations that a Revision relates to a commit, and ports of a review fact from one
  Revision to another (\<open>src/src/session/event/relation.rs\<close>). Both are content-addressed; a
  port's id also commits to the actor and the track that vouch for it.
\<close>

section \<open>Payloads\<close>

definition RELATION_ATTESTED_SCHEMA_V1 :: string where
  "RELATION_ATTESTED_SCHEMA_V1 = ''pointbreak.revision-relation-attested''"
definition FACT_PORTED_SCHEMA_V1 :: string where
  "FACT_PORTED_SCHEMA_V1 = ''pointbreak.review-fact-ported''"

datatype semantic_revision_relation_v1 =
    ExactMaterialization | EquivalentRewrite | ContentPreservingExtension
  | LandingProvenance | RelatedProvenance | Unknown

datatype relation_proof_status_v1 = Verified | Asserted | Unverified | Indeterminate | Refuted

record revision_relation_attested_payload =
  at_schema :: string
  at_version :: nat
  at_relation_attestation_id :: string
  at_revision :: revision_ref_v1
  at_commit_association_id :: string
  at_semantic_relation :: semantic_revision_relation_v1
  at_proof_status :: relation_proof_status_v1
  at_proof_method :: string
  at_proof_algorithm_version :: string
  at_capture_scope :: "string list"
  at_comparison_base_or_parent :: "string option"
  at_endpoint_oids :: "string list"
  at_evidence_content_hash :: "string option"
  at_result_digest :: string

record revision_relation_attestation_draft_v1 =
  ad_revision :: revision_ref_v1
  ad_commit_association_id :: string
  ad_semantic_relation :: semantic_revision_relation_v1
  ad_proof_status :: relation_proof_status_v1
  ad_proof_method :: string
  ad_proof_algorithm_version :: string
  ad_capture_scope :: "string list"
  ad_comparison_base_or_parent :: "string option"
  ad_endpoint_oids :: "string list"
  ad_evidence_content_hash :: "string option"
  ad_result_digest :: string

datatype fact_port_relation_v1 = ContextOnly | ReanchoredAs | CarriedOpenAs | ResolvedBy

datatype fact_ref_v1 =
    FR_Observation observation_id
  | FR_InputRequest input_request_id

record review_fact_ported_payload =
  fp_schema :: string
  fp_version :: nat
  fp_port_id :: string
  fp_origin_revision :: revision_ref_v1
  fp_origin_fact :: fact_ref_v1
  fp_target_revision :: revision_ref_v1
  fp_relation :: fact_port_relation_v1
  fp_target_fact :: "fact_ref_v1 option"
  fp_rationale_content_hash :: "string option"
  fp_context_change_id :: "change_id option"

record review_fact_port_draft_v1 =
  fd_origin_revision :: revision_ref_v1
  fd_origin_fact :: fact_ref_v1
  fd_target_revision :: revision_ref_v1
  fd_relation :: fact_port_relation_v1
  fd_target_fact :: "fact_ref_v1 option"
  fd_rationale_content_hash :: "string option"
  fd_context_change_id :: "change_id option"

section \<open>Identity material\<close>

fun semantic_relation_json :: "semantic_revision_relation_v1 \<Rightarrow> json" where
  "semantic_relation_json ExactMaterialization = JString ''exact_materialization''"
| "semantic_relation_json EquivalentRewrite = JString ''equivalent_rewrite''"
| "semantic_relation_json ContentPreservingExtension = JString ''content_preserving_extension''"
| "semantic_relation_json LandingProvenance = JString ''landing_provenance''"
| "semantic_relation_json RelatedProvenance = JString ''related_provenance''"
| "semantic_relation_json Unknown = JString ''unknown''"

fun proof_status_json :: "relation_proof_status_v1 \<Rightarrow> json" where
  "proof_status_json Verified = JString ''verified''"
| "proof_status_json Asserted = JString ''asserted''"
| "proof_status_json Unverified = JString ''unverified''"
| "proof_status_json Indeterminate = JString ''indeterminate''"
| "proof_status_json Refuted = JString ''refuted''"

fun fact_port_relation_json :: "fact_port_relation_v1 \<Rightarrow> json" where
  "fact_port_relation_json ContextOnly = JString ''context_only''"
| "fact_port_relation_json ReanchoredAs = JString ''reanchored_as''"
| "fact_port_relation_json CarriedOpenAs = JString ''carried_open_as''"
| "fact_port_relation_json ResolvedBy = JString ''resolved_by''"

fun fact_ref_json :: "fact_ref_v1 \<Rightarrow> json" where
  "fact_ref_json (FR_Observation i) =
     JObject [(''kind'', JString ''observation''), (''observationId'', JString i)]"
| "fact_ref_json (FR_InputRequest i) =
     JObject [(''kind'', JString ''input_request''), (''inputRequestId'', JString i)]"

definition json_option :: "('a \<Rightarrow> json) \<Rightarrow> 'a option \<Rightarrow> json" where
  "json_option f x = (case x of None \<Rightarrow> JNull | Some y \<Rightarrow> f y)"

definition payload_without_attestation_id :: "revision_relation_attested_payload \<Rightarrow> json" where
  "payload_without_attestation_id p = JObject
     [(''schema'', JString (at_schema p)),
      (''version'', JNumber (int (at_version p))),
      (''revision'', revision_ref_json (at_revision p)),
      (''commitAssociationId'', JString (at_commit_association_id p)),
      (''semanticRelation'', semantic_relation_json (at_semantic_relation p)),
      (''proofStatus'', proof_status_json (at_proof_status p)),
      (''proofMethod'', JString (at_proof_method p)),
      (''proofAlgorithmVersion'', JString (at_proof_algorithm_version p)),
      (''captureScope'', JArray (map JString (at_capture_scope p))),
      (''comparisonBaseOrParent'', json_option JString (at_comparison_base_or_parent p)),
      (''endpointOids'', JArray (map JString (at_endpoint_oids p))),
      (''evidenceContentHash'', json_option JString (at_evidence_content_hash p)),
      (''resultDigest'', JString (at_result_digest p))]"

definition payload_without_port_id :: "review_fact_ported_payload \<Rightarrow> json" where
  "payload_without_port_id p = JObject
     [(''schema'', JString (fp_schema p)),
      (''version'', JNumber (int (fp_version p))),
      (''originRevision'', revision_ref_json (fp_origin_revision p)),
      (''originFact'', fact_ref_json (fp_origin_fact p)),
      (''targetRevision'', revision_ref_json (fp_target_revision p)),
      (''relation'', fact_port_relation_json (fp_relation p)),
      (''targetFact'', json_option fact_ref_json (fp_target_fact p)),
      (''rationaleContentHash'', json_option JString (fp_rationale_content_hash p)),
      (''contextChangeId'', json_option JString (fp_context_change_id p))]"

definition port_material :: "review_fact_ported_payload \<Rightarrow> actor_id \<Rightarrow> track_id \<Rightarrow> json" where
  "port_material p actor_id track_id = JObject
     [(''payload'', payload_without_port_id p), (''actorId'', JString actor_id),
      (''trackId'', JString track_id)]"

definition attestation_id :: "externals \<Rightarrow> revision_relation_attested_payload \<Rightarrow> string" where
  "attestation_id ext p = REVISION_RELATION_ATTESTATION @ '':'' @
     sha256_json_prefixed ext (payload_without_attestation_id p)"

definition port_id :: "externals \<Rightarrow> review_fact_ported_payload \<Rightarrow> actor_id \<Rightarrow> track_id \<Rightarrow> string" where
  "port_id ext p actor_id track_id = REVIEW_FACT_PORT @ '':'' @
     sha256_json_prefixed ext (port_material p actor_id track_id)"

section \<open>Validation\<close>

fun is_sorted_unique :: "'a::linorder list \<Rightarrow> bool" where
  "is_sorted_unique (a # b # values) = (a < b \<and> is_sorted_unique (b # values))"
| "is_sorted_unique _ = True"

definition invalid_relation_payload :: "string \<Rightarrow> 'a result" where
  "invalid_relation_payload message = Inl (InvalidEvent message)"

definition attestation_metadata_ok :: "revision_relation_attested_payload \<Rightarrow> bool" where
  "attestation_metadata_ok p \<longleftrightarrow> \<not>
     (trim_is_empty (at_proof_method p)
      \<or> trim_is_empty (at_proof_algorithm_version p)
      \<or> \<not> is_sorted_unique (at_capture_scope p)
      \<or> \<not> is_sorted_unique (at_endpoint_oids p)
      \<or> \<not> is_prefixed_sha256 (at_result_digest p)
      \<or> (case at_evidence_content_hash p of None \<Rightarrow> False | Some hash \<Rightarrow> \<not> is_prefixed_sha256 hash))"

definition attestation_validate :: "externals \<Rightarrow> revision_relation_attested_payload \<Rightarrow> unit result" where
  "attestation_validate ext p =
     (if at_schema p \<noteq> RELATION_ATTESTED_SCHEMA_V1 \<or> at_version p \<noteq> 1 then
        invalid_relation_payload ''unsupported relation-attestation schema/version''
      else if \<not> attestation_metadata_ok p then
        invalid_relation_payload
          ''relation-attestation proof metadata is not canonical or integrity-qualified''
      else if attestation_id ext p \<noteq> at_relation_attestation_id p then
        invalid_relation_payload ''relation-attestation identity mismatch''
      else if at_proof_status p = Verified
          \<and> at_semantic_relation p \<in> {ExactMaterialization, EquivalentRewrite, ContentPreservingExtension}
          \<and> at_evidence_content_hash p = None then
        invalid_relation_payload ''verified content relation requires an evidence content hash''
      else Inr ())"

fun is_input_request :: "fact_ref_v1 \<Rightarrow> bool" where
  "is_input_request (FR_InputRequest _) = True"
| "is_input_request _ = False"

fun is_observation :: "fact_ref_v1 \<Rightarrow> bool" where
  "is_observation (FR_Observation _) = True"
| "is_observation _ = False"

definition validate_fact_port :: "review_fact_ported_payload \<Rightarrow> unit result" where
  "validate_fact_port p =
     (if rr_revision_id (fp_origin_revision p) = rr_revision_id (fp_target_revision p) then
        invalid_relation_payload ''fact ports require distinct origin and target Revisions''
      else if (case fp_rationale_content_hash p of None \<Rightarrow> False | Some hash \<Rightarrow> \<not> is_prefixed_sha256 hash) then
        invalid_relation_payload ''fact-port rationale hash is not a prefixed SHA-256''
      else if (fp_relation p = ReanchoredAs \<or> fp_relation p = CarriedOpenAs) \<noteq> (fp_target_fact p \<noteq> None) then
        Inl (Message ''fact-port targetFact must be present exactly for reanchored_as or carried_open_as'')
      else if fp_relation p = CarriedOpenAs \<and>
          (\<not> is_input_request (fp_origin_fact p) \<or>
           \<not> (case fp_target_fact p of Some f \<Rightarrow> is_input_request f | None \<Rightarrow> False)) then
        Inl (Message ''carried_open_as requires an input-request origin'')
      else if fp_relation p = ReanchoredAs \<and>
          \<not> (is_observation (fp_origin_fact p) \<and>
             (case fp_target_fact p of Some f \<Rightarrow> is_observation f | None \<Rightarrow> False)) then
        invalid_relation_payload ''reanchored_as requires observation facts at both endpoints''
      else Inr ())"

definition fact_port_validate :: "review_fact_ported_payload \<Rightarrow> unit result" where
  "fact_port_validate p =
     (if fp_schema p \<noteq> FACT_PORTED_SCHEMA_V1 \<or> fp_version p \<noteq> 1 then
        invalid_relation_payload ''unsupported fact-port schema/version''
      else validate_fact_port p)"

definition validate_attribution ::
  "externals \<Rightarrow> review_fact_ported_payload \<Rightarrow> actor_id \<Rightarrow> track_id \<Rightarrow> unit result" where
  "validate_attribution ext p actor_id track_id =
     and_then (fact_port_validate p) (\<lambda>_.
       if port_id ext p actor_id track_id = fp_port_id p then Inr ()
       else invalid_relation_payload ''fact-port identity or attribution mismatch'')"

section \<open>Builders\<close>

definition build_revision_relation_attested ::
  "externals \<Rightarrow> revision_relation_attestation_draft_v1 \<Rightarrow> revision_relation_attested_payload result" where
  "build_revision_relation_attested ext draft =
     (let payload =
        \<lparr>at_schema = RELATION_ATTESTED_SCHEMA_V1, at_version = 1,
         at_relation_attestation_id = ''pending'',
         at_revision = ad_revision draft,
         at_commit_association_id = ad_commit_association_id draft,
         at_semantic_relation = ad_semantic_relation draft,
         at_proof_status = ad_proof_status draft,
         at_proof_method = ad_proof_method draft,
         at_proof_algorithm_version = ad_proof_algorithm_version draft,
         at_capture_scope = remdups_adj (sort (ad_capture_scope draft)),
         at_comparison_base_or_parent = ad_comparison_base_or_parent draft,
         at_endpoint_oids = remdups_adj (sort (ad_endpoint_oids draft)),
         at_evidence_content_hash = ad_evidence_content_hash draft,
         at_result_digest = ad_result_digest draft\<rparr>;
       payload' = payload\<lparr>at_relation_attestation_id := attestation_id ext payload\<rparr>
     in and_then (attestation_validate ext payload') (\<lambda>_. Inr payload'))"

definition build_review_fact_ported ::
  "externals \<Rightarrow> review_fact_port_draft_v1 \<Rightarrow> actor_id \<Rightarrow> track_id \<Rightarrow> review_fact_ported_payload result" where
  "build_review_fact_ported ext draft actor_id track_id =
     (let payload =
        \<lparr>fp_schema = FACT_PORTED_SCHEMA_V1, fp_version = 1, fp_port_id = ''pending'',
         fp_origin_revision = fd_origin_revision draft,
         fp_origin_fact = fd_origin_fact draft,
         fp_target_revision = fd_target_revision draft,
         fp_relation = fd_relation draft,
         fp_target_fact = fd_target_fact draft,
         fp_rationale_content_hash = fd_rationale_content_hash draft,
         fp_context_change_id = fd_context_change_id draft\<rparr>
     in and_then (validate_fact_port payload) (\<lambda>_.
        let payload' = payload\<lparr>fp_port_id := port_id ext payload actor_id track_id\<rparr>
        in and_then (fact_port_validate payload') (\<lambda>_. Inr payload')))"

section \<open>What the builders guarantee\<close>

lemma is_sorted_unique_iff: "is_sorted_unique xs \<longleftrightarrow> bs_ok xs"
  by (induction xs rule: is_sorted_unique.induct) (auto dest: less_trans)

lemma sorted_remdups_adj_strict: "sorted xs \<Longrightarrow> bs_ok (remdups_adj xs)"
  by (induction xs rule: remdups_adj.induct) (auto simp: less_le)

lemma sorted_dedup [simp]: "is_sorted_unique (remdups_adj (sort xs))"
  by (simp add: is_sorted_unique_iff sorted_remdups_adj_strict)

lemma attestation_id_pending [simp]:
  "attestation_id ext (p\<lparr>at_relation_attestation_id := i\<rparr>) = attestation_id ext p"
  by (simp add: attestation_id_def payload_without_attestation_id_def)

lemma port_id_pending [simp]: "port_id ext (p\<lparr>fp_port_id := i\<rparr>) a t = port_id ext p a t"
  by (simp add: port_id_def port_material_def payload_without_port_id_def)

lemma validate_fact_port_pending [simp]:
  "validate_fact_port (p\<lparr>fp_port_id := i\<rparr>) = validate_fact_port p"
  by (simp add: validate_fact_port_def)

lemma invalid_relation_not_Inr [simp]: "invalid_relation_payload m \<noteq> Inr x"
  by (simp add: invalid_relation_payload_def)

lemma build_review_fact_ported_valid:
  assumes "build_review_fact_ported ext draft actor track = Inr p"
  shows "validate_attribution ext p actor track = Inr ()"
  using assms
  by (auto simp: build_review_fact_ported_def validate_attribution_def port_id_def port_material_def
      payload_without_port_id_def Let_def and_then_eq_Inr_iff)

lemma validate_attribution_fact_port:
  "validate_attribution ext p actor track = Inr () \<Longrightarrow>
     validate_fact_port p = Inr () \<and> fp_port_id p = port_id ext p actor track"
  by (auto simp: validate_attribution_def fact_port_validate_def and_then_eq_Inr_iff split: if_splits)

lemma port_material_inj:
  assumes "canonical_json_value (port_material p a t) = canonical_json_value (port_material p a' t')"
  shows "a = a' \<and> t = t'"
  using canonical_eq_field [OF assms, of "''actorId''"] canonical_eq_field [OF assms, of "''trackId''"]
  by (simp add: port_material_def)

lemma validate_fact_port_iff:
  "validate_fact_port p = Inr () \<longleftrightarrow>
     rr_revision_id (fp_origin_revision p) \<noteq> rr_revision_id (fp_target_revision p) \<and>
     (\<forall>hash. fp_rationale_content_hash p = Some hash \<longrightarrow> is_prefixed_sha256 hash) \<and>
     (case fp_relation p of
        ReanchoredAs \<Rightarrow> \<exists>a b. fp_origin_fact p = FR_Observation a \<and> fp_target_fact p = Some (FR_Observation b)
      | CarriedOpenAs \<Rightarrow> \<exists>a b. fp_origin_fact p = FR_InputRequest a \<and> fp_target_fact p = Some (FR_InputRequest b)
      | _ \<Rightarrow> fp_target_fact p = None)"
proof -
  have [simp]: "is_input_request f \<longleftrightarrow> (\<exists>i. f = FR_InputRequest i)" for f
    by (cases f) auto
  have [simp]: "is_observation f \<longleftrightarrow> (\<exists>i. f = FR_Observation i)" for f
    by (cases f) auto
  show ?thesis
    by (cases "fp_relation p"; cases "fp_target_fact p"; cases "fp_rationale_content_hash p")
      (auto simp: validate_fact_port_def)
qed

section \<open>Properties\<close>

text \<open>A fact port passes validation exactly when its Revisions differ, its rationale hash (if
  any) is well formed, and the target fact fits the relation: observations re-anchor as
  observations, open input requests carry over as input requests, and context-only or
  resolved ports name no target fact.\<close>

theorem fact_port_shape:
  "validate_fact_port p = Inr () \<longleftrightarrow>
     rr_revision_id (fp_origin_revision p) \<noteq> rr_revision_id (fp_target_revision p) \<and>
     (\<forall>hash. fp_rationale_content_hash p = Some hash \<longrightarrow> is_prefixed_sha256 hash) \<and>
     (case fp_relation p of
        ReanchoredAs \<Rightarrow> \<exists>a b. fp_origin_fact p = FR_Observation a \<and> fp_target_fact p = Some (FR_Observation b)
      | CarriedOpenAs \<Rightarrow> \<exists>a b. fp_origin_fact p = FR_InputRequest a \<and> fp_target_fact p = Some (FR_InputRequest b)
      | _ \<Rightarrow> fp_target_fact p = None)"
  by (rule validate_fact_port_iff)

definition carried_draft :: review_fact_port_draft_v1 where
  "carried_draft =
     \<lparr>fd_origin_revision = \<lparr>rr_revision_id = ''rev:1'', rr_object_artifact_content_hash = ''h''\<rparr>,
      fd_origin_fact = FR_InputRequest ''q1'',
      fd_target_revision = \<lparr>rr_revision_id = ''rev:2'', rr_object_artifact_content_hash = ''h''\<rparr>,
      fd_relation = CarriedOpenAs, fd_target_fact = Some (FR_InputRequest ''q2''),
      fd_rationale_content_hash = None, fd_context_change_id = None\<rparr>"

theorem fact_port_shape_witness:
  "\<exists>p. build_review_fact_ported plain_externals carried_draft ''actor:a'' ''track:t'' = Inr p \<and>
     validate_fact_port p = Inr ()"
proof -
  obtain p where "build_review_fact_ported plain_externals carried_draft ''actor:a'' ''track:t'' = Inr p"
    and "fp_relation p = CarriedOpenAs" "fp_rationale_content_hash p = None"
    and "fp_origin_fact p = FR_InputRequest ''q1''" "fp_target_fact p = Some (FR_InputRequest ''q2'')"
    and "rr_revision_id (fp_origin_revision p) = ''rev:1''" "rr_revision_id (fp_target_revision p) = ''rev:2''"
    by (simp add: build_review_fact_ported_def carried_draft_def validate_fact_port_def fact_port_validate_def
        Let_def)
  then show ?thesis
    using fact_port_shape [of p] by simp
qed

text \<open>C35. A port built for an actor and a track validates under that attribution and, unless the
  two attributed materials are a digest collision, under no other actor or track.\<close>

theorem port_attribution_exclusive:
  assumes "build_review_fact_ported ext draft actor track = Inr p"
  shows "validate_attribution ext p actor track = Inr () \<and>
    (\<forall>actor' track'. validate_attribution ext p actor' track' = Inr () \<and>
        \<not> json_collide ext (port_material p actor track) (port_material p actor' track') \<longrightarrow>
        actor' = actor \<and> track' = track)"
proof (intro conjI allI impI)
  show v: "validate_attribution ext p actor track = Inr ()"
    using assms by (rule build_review_fact_ported_valid)
  fix actor' track'
  assume *: "validate_attribution ext p actor' track' = Inr () \<and>
      \<not> json_collide ext (port_material p actor track) (port_material p actor' track')"
  then have "port_id ext p actor track = port_id ext p actor' track'"
    using validate_attribution_fact_port v by metis
  then have "sha256_json_prefixed ext (port_material p actor track) =
      sha256_json_prefixed ext (port_material p actor' track')"
    by (simp add: port_id_def)
  from port_material_inj [OF sha256_json_prefixed_eq [OF this]] * show "actor' = actor" "track' = track"
    by auto
qed

theorem port_attribution_exclusive_witness:
  "\<exists>p. build_review_fact_ported plain_externals carried_draft ''actor:a'' ''track:t'' = Inr p \<and>
     validate_attribution plain_externals p ''actor:a'' ''track:t'' = Inr ()"
proof -
  obtain p where p: "build_review_fact_ported plain_externals carried_draft ''actor:a'' ''track:t'' = Inr p"
    by (simp add: build_review_fact_ported_def carried_draft_def validate_fact_port_def fact_port_validate_def
        Let_def)
  with port_attribution_exclusive [OF p] show ?thesis by blast
qed

end
