(* ===== verification/Events.thy ===== *)
theory Events
  imports Relation_Claims
begin

text \<open>
  The event envelope (\<open>src/src/session/event/mod.rs\<close>) and what is derived from it: the opaque
  subject id of an address, the subject reconstructed from a payload, the record hash that
  identifies a fact across stores, the view a signature covers and its encoding.

  A stored payload is a JSON value; here it is the typed payload it decodes to, or a raw
  value (\<open>P_Raw\<close>) that decodes to no payload type. What \<open>serde_json::to_value\<close> makes of a
  payload is the parameter \<open>payload_value\<close>.
\<close>

section \<open>Payload values\<close>

datatype event_payload =
    P_ReviewInitialized
  | P_WorkObjectProposed work_object_proposed_payload
  | P_ReviewObservationRecorded review_observation_recorded_payload
  | P_ReviewAssessmentRecorded review_assessment_recorded_payload
  | P_InputRequestOpened input_request_opened_payload
  | P_InputRequestResponded input_request_responded_payload
  | P_RevisionRefAssociated revision_ref_associated_payload
  | P_RevisionRefWithdrawn revision_ref_withdrawn_payload
  | P_RevisionCommitAssociated revision_commit_associated_payload
  | P_RevisionCommitWithdrawn revision_commit_withdrawn_payload
  | P_ValidationCheckRecorded validation_check_recorded_payload
  | P_TaskCheckpointCaptured task_checkpoint_captured_payload
  | P_TaskObservationRecorded task_observation_recorded_payload
  | P_EventSignatureRecorded event_signature_recorded_payload
  | P_ArtifactRemoved artifact_removed_payload
  | P_ChangeDeclared change_declared_payload
  | P_ChangeMembershipAsserted change_membership_asserted_payload
  | P_ChangeMembershipWithdrawn change_membership_withdrawn_payload
  | P_ChangeLinkAsserted change_link_asserted_payload
  | P_ChangeRevisionRelationAsserted change_revision_relation_asserted_payload
  | P_ChangeRevisionRelationWithdrawn change_revision_relation_withdrawn_payload
  | P_RevisionRelationAttested revision_relation_attested_payload
  | P_ReviewFactPorted review_fact_ported_payload
  | P_Raw json


section \<open>Addresses\<close>

record event_target =
  tg_journal_id :: journal_id
  tg_subject_id :: "string option"
  tg_track_id :: "track_id option"

fun subject_material :: "target_ref \<Rightarrow> json option" where
  "subject_material TR_Journal = None"
| "subject_material (TR_Review review) =
     Some (JObject (filter (\<lambda>e. fst e \<noteq> ''kind'') (review_target_json review)))"
| "subject_material (TR_Task task) =
     Some (JObject (filter (\<lambda>e. fst e \<noteq> ''kind'') (task_target_json task)))"

definition subject_id :: "externals \<Rightarrow> target_ref \<Rightarrow> string option result" where
  "subject_id ext subject =
     (case subject_material subject of
        None \<Rightarrow> Inr None
      | Some material \<Rightarrow> Inr (Some (SUBJECT @ '':'' @ sha256_json_prefixed ext material)))"

definition review_subject_id :: "externals \<Rightarrow> review_target_ref \<Rightarrow> string result" where
  "review_subject_id ext target =
     and_then (subject_id ext (TR_Review target)) (\<lambda>id.
       case id of None \<Rightarrow> Inl (Message ''a review subject must have an opaque subject id'')
       | Some s \<Rightarrow> Inr s)"

definition for_subject ::
  "externals \<Rightarrow> journal_id \<Rightarrow> target_ref \<Rightarrow> track_id option \<Rightarrow> event_target result" where
  "for_subject ext journal_id subject track_id =
     and_then (subject_id ext subject) (\<lambda>id.
       Inr \<lparr>tg_journal_id = journal_id, tg_subject_id = id, tg_track_id = track_id\<rparr>)"

definition for_journal :: "journal_id \<Rightarrow> event_target" where
  "for_journal journal_id = \<lparr>tg_journal_id = journal_id, tg_subject_id = None, tg_track_id = None\<rparr>"

fun engagement_debug :: "engagement_type \<Rightarrow> string" where
  "engagement_debug ET_Review = ''Review''"
| "engagement_debug ET_Task = ''Task''"

fun engagement_option_debug :: "engagement_type option \<Rightarrow> string" where
  "engagement_option_debug None = ''None''"
| "engagement_option_debug (Some t) = ''Some('' @ engagement_debug t @ '')''"

definition for_generative_move ::
  "externals \<Rightarrow> journal_id \<Rightarrow> engagement_type \<Rightarrow> target_ref \<Rightarrow> track_id option \<Rightarrow> event_target result" where
  "for_generative_move ext journal_id engagement_type subject track_id =
     (let other = engagement_type_of_subject subject
      in if other = Some engagement_type then for_subject ext journal_id subject track_id
         else Inl (Message (''generative move domain mismatch: a '' @ engagement_debug engagement_type @
           '' engagement cannot address a '' @ engagement_option_debug other @ '' subject'')))"

definition for_revision ::
  "externals \<Rightarrow> journal_id \<Rightarrow> revision_id \<Rightarrow> track_id option \<Rightarrow> event_target result" where
  "for_revision ext journal_id revision_id track_id =
     for_subject ext journal_id (TR_Review (RT_Revision revision_id)) track_id"

definition work_object_proposed_key :: "externals \<Rightarrow> target_ref \<Rightarrow> string result" where
  "work_object_proposed_key ext subject =
     and_then (subject_id ext subject) (\<lambda>id.
       case id of None \<Rightarrow> Inl (Message ''work object proposed subject must have an id'')
       | Some s \<Rightarrow> Inr (type_code WorkObjectProposed @ '':'' @ s))"

section \<open>The envelope\<close>

datatype assertion_mode = Advisory | Operative

record writer_producer =
  pr_name :: string
  pr_version :: string

record writer =
  wr_actor_id :: actor_id
  wr_producer :: writer_producer

definition shore_local :: "string \<Rightarrow> writer" where
  "shore_local version =
     \<lparr>wr_actor_id = ACTOR @ '':local'', wr_producer = \<lparr>pr_name = ''shore'', pr_version = version\<rparr>\<rparr>"

record source_ref =
  sr_source_system :: string
  sr_source_id :: string

datatype ingest_via = IngestEvents | BundleApply

record ingest_provenance =
  ig_via :: ingest_via
  ig_received_at :: string

record shore_event =
  ev_schema :: string
  ev_version :: nat
  ev_event_id :: event_id
  ev_event_type :: event_type
  ev_idempotency_key :: string
  ev_target :: event_target
  ev_writer :: writer
  ev_occurred_at :: string
  ev_payload_hash :: string
  ev_assertion_mode :: assertion_mode
  ev_signer :: "signer_id option"
  ev_signature :: "event_signature option"
  ev_source_ref :: "source_ref option"
  ev_ingest :: "ingest_provenance option"
  ev_content_encoding :: "string list"
  ev_payload_version :: nat
  ev_payload :: event_payload

definition EVENT_SCHEMA :: string where "EVENT_SCHEMA = ''shore.event''"
definition EVENT_VERSION :: nat where "EVENT_VERSION = 1"




definition with_assertion_mode :: "shore_event \<Rightarrow> assertion_mode \<Rightarrow> shore_event" where
  "with_assertion_mode event mode = event\<lparr>ev_assertion_mode := mode\<rparr>"

definition validate_schema_version :: "shore_event \<Rightarrow> unit result" where
  "validate_schema_version event =
     (if ev_schema event = EVENT_SCHEMA \<and> ev_version event = EVENT_VERSION then Inr ()
      else Inl (UnsupportedEventSchemaVersion (ev_schema event) (ev_version event)))"

definition stamp_ingest_provenance :: "shore_event list \<Rightarrow> ingest_via \<Rightarrow> string \<Rightarrow> shore_event list" where
  "stamp_ingest_provenance events via received_at =
     map (\<lambda>event. event\<lparr>ev_ingest := Some \<lparr>ig_via = via, ig_received_at = received_at\<rparr>\<rparr>) events"

section \<open>The subject of an event\<close>

text \<open>
  \<open>serde_json::from_value\<close> into a payload type succeeds on the values of that type; every
  other value is a decoding error.
\<close>

definition decode_input_request_opened_payload :: "event_payload \<Rightarrow> input_request_opened_payload result" where
  "decode_input_request_opened_payload payload =
     (case payload of
        P_InputRequestOpened p \<Rightarrow> Inr p
      | P_Raw value \<Rightarrow>
          if json_get ''mode'' value \<noteq> None then
            Inl (InvalidEvent ''input_request_opened payload mode is no longer supported; use envelope assertionMode'')
          else Inl Json
      | _ \<Rightarrow> Inl Json)"

definition fact_port_subject :: "review_fact_ported_payload \<Rightarrow> target_ref" where
  "fact_port_subject p =
     (let revision_id = rr_revision_id (fp_origin_revision p)
      in TR_Review (case fp_origin_fact p of
           FR_Observation observation_id \<Rightarrow> RT_Observation revision_id observation_id
         | FR_InputRequest input_request_id \<Rightarrow> RT_InputRequest revision_id input_request_id))"

fun proposal_subject :: "work_object_proposal \<Rightarrow> target_ref" where
  "proposal_subject (WP_Revision p) = TR_Review (RT_Revision (rev_id (rp_revision p)))"
| "proposal_subject (WP_TaskAttempt p) = TR_Task (TT_TaskAttempt (tp_task_attempt_id p))"

definition opened_subject :: "input_request_opened_payload \<Rightarrow> target_ref" where
  "opened_subject p =
     (case ro_task_target p of Some task_target \<Rightarrow> TR_Task task_target
      | None \<Rightarrow> TR_Review (ro_target p))"

definition responded_subject :: "input_request_responded_payload \<Rightarrow> target_ref result" where
  "responded_subject p =
     (case rs_revision_id p of
        Some revision_id \<Rightarrow> Inr (TR_Review (RT_InputRequest revision_id (rs_input_request_id p)))
      | None \<Rightarrow>
          (case rs_task_target p of
             Some task_target \<Rightarrow> Inr (TR_Task task_target)
           | None \<Rightarrow> Inl (InvalidEvent (''input_request_responded payload carries neither a revision_id '' @
                 ''(review) nor a task_target (task)''))))"

definition task_observation_subject :: "task_observation_recorded_payload \<Rightarrow> target_ref result" where
  "task_observation_subject p =
     (case to_checkpoint_id p of
        Some checkpoint_id \<Rightarrow> Inr (TR_Task (TT_Checkpoint checkpoint_id))
      | None \<Rightarrow> Inl (InvalidEvent (''task observation without a checkpoint cannot reconstruct '' @
            ''its subject (attempt-level task observations are unsupported)'')))"

definition reconstruct_subject :: "shore_event \<Rightarrow> target_ref result" where
  "reconstruct_subject event =
     (case ev_event_type event of
        ReviewInitialized \<Rightarrow> Inr TR_Journal
      | ReviewNoteImported \<Rightarrow> Inr TR_Journal
      | EventSignatureRecorded \<Rightarrow> Inr TR_Journal
      | ArtifactRemoved \<Rightarrow> Inr TR_Journal
      | ChangeDeclared \<Rightarrow> Inr TR_Journal
      | ChangeMembershipAsserted \<Rightarrow> Inr TR_Journal
      | ChangeMembershipWithdrawn \<Rightarrow> Inr TR_Journal
      | ChangeLinkAsserted \<Rightarrow> Inr TR_Journal
      | ChangeRevisionRelationAsserted \<Rightarrow> Inr TR_Journal
      | ChangeRevisionRelationWithdrawn \<Rightarrow> Inr TR_Journal
      | RevisionRelationAttested \<Rightarrow>
          (case ev_payload event of P_RevisionRelationAttested p \<Rightarrow> Inr (TR_Review (RT_Revision (rr_revision_id (at_revision p)))) | _ \<Rightarrow> Inl Json)
      | ReviewFactPorted \<Rightarrow>
          (case ev_payload event of P_ReviewFactPorted p \<Rightarrow> Inr (fact_port_subject p) | _ \<Rightarrow> Inl Json)
      | WorkObjectProposed \<Rightarrow>
          (case ev_payload event of P_WorkObjectProposed p \<Rightarrow> Inr (proposal_subject (wo_work_object p)) | _ \<Rightarrow> Inl Json)
      | ReviewObservationRecorded \<Rightarrow>
          (case ev_payload event of P_ReviewObservationRecorded p \<Rightarrow> Inr (TR_Review (ob_target p)) | _ \<Rightarrow> Inl Json)
      | ReviewAssessmentRecorded \<Rightarrow>
          (case ev_payload event of P_ReviewAssessmentRecorded p \<Rightarrow> Inr (TR_Review (as_target p)) | _ \<Rightarrow> Inl Json)
      | RevisionRefAssociated \<Rightarrow>
          (case ev_payload event of P_RevisionRefAssociated p \<Rightarrow> Inr (TR_Review (ra_target p)) | _ \<Rightarrow> Inl Json)
      | RevisionRefWithdrawn \<Rightarrow>
          (case ev_payload event of P_RevisionRefWithdrawn p \<Rightarrow> Inr (TR_Review (rw_target p)) | _ \<Rightarrow> Inl Json)
      | RevisionCommitAssociated \<Rightarrow>
          (case ev_payload event of P_RevisionCommitAssociated p \<Rightarrow> Inr (TR_Review (ca_target p)) | _ \<Rightarrow> Inl Json)
      | RevisionCommitWithdrawn \<Rightarrow>
          (case ev_payload event of P_RevisionCommitWithdrawn p \<Rightarrow> Inr (TR_Review (cw_target p)) | _ \<Rightarrow> Inl Json)
      | InputRequestOpened \<Rightarrow>
          and_then (decode_input_request_opened_payload (ev_payload event)) (\<lambda>p. Inr (opened_subject p))
      | InputRequestResponded \<Rightarrow>
          (case ev_payload event of P_InputRequestResponded p \<Rightarrow> responded_subject p | _ \<Rightarrow> Inl Json)
      | ValidationCheckRecorded \<Rightarrow>
          (case ev_payload event of P_ValidationCheckRecorded p \<Rightarrow> Inr (TR_Review (RT_Revision (case vc_target p of VT_Revision revision_id \<Rightarrow> revision_id))) | _ \<Rightarrow> Inl Json)
      | TaskCheckpointCaptured \<Rightarrow>
          (case ev_payload event of P_TaskCheckpointCaptured p \<Rightarrow> Inr (TR_Task (TT_Checkpoint (tc_checkpoint_id p))) | _ \<Rightarrow> Inl Json)
      | TaskObservationRecorded \<Rightarrow>
          (case ev_payload event of P_TaskObservationRecorded p \<Rightarrow> task_observation_subject p | _ \<Rightarrow> Inl Json))"

definition event_subject_revision_id :: "shore_event \<Rightarrow> revision_id option result" where
  "event_subject_revision_id event =
     and_then (reconstruct_subject event) (\<lambda>subject. Inr (subject_revision_id subject))"

definition addresses_task_subject :: "shore_event \<Rightarrow> bool result" where
  "addresses_task_subject event =
     and_then (reconstruct_subject event) (\<lambda>subject.
       Inr (case subject of TR_Task _ \<Rightarrow> True | _ \<Rightarrow> False))"

section \<open>The record hash\<close>

definition json_some :: "string \<Rightarrow> string option \<Rightarrow> (string \<times> json) list" where
  "json_some k x = (case x of None \<Rightarrow> [] | Some s \<Rightarrow> [(k, JString s)])"

definition event_target_json :: "event_target \<Rightarrow> json" where
  "event_target_json t = JObject
     ([(''journalId'', JString (tg_journal_id t))] @
      json_some ''subjectId'' (tg_subject_id t) @ json_some ''trackId'' (tg_track_id t))"

definition writer_json :: "writer \<Rightarrow> json" where
  "writer_json w = JObject
     [(''actorId'', JString (wr_actor_id w)),
      (''producer'', JObject
        [(''name'', JString (pr_name (wr_producer w))),
         (''version'', JString (pr_version (wr_producer w)))])]"

fun assertion_mode_json :: "assertion_mode \<Rightarrow> json" where
  "assertion_mode_json Advisory = JString ''advisory''"
| "assertion_mode_json Operative = JString ''operative''"

definition event_record_view :: "(event_payload \<Rightarrow> json) \<Rightarrow> shore_event \<Rightarrow> json" where
  "event_record_view payload_value event = JObject
     [(''schema'', JString (ev_schema event)),
      (''version'', JNumber (int (ev_version event))),
      (''eventId'', JString (ev_event_id event)),
      (''eventType'', JString (type_code (ev_event_type event))),
      (''idempotencyKey'', JString (ev_idempotency_key event)),
      (''target'', event_target_json (ev_target event)),
      (''writer'', writer_json (ev_writer event)),
      (''occurredAt'', JString (ev_occurred_at event)),
      (''payloadHash'', JString (ev_payload_hash event)),
      (''assertionMode'', assertion_mode_json (ev_assertion_mode event)),
      (''payload'', payload_value (ev_payload event))]"

definition event_record_hash :: "externals \<Rightarrow> (event_payload \<Rightarrow> json) \<Rightarrow> shore_event \<Rightarrow> string result" where
  "event_record_hash ext payload_value event =
     Inr (sha256_json_prefixed ext (event_record_view payload_value event))"

section \<open>Lemmas\<close>

text \<open>
  A subject can be read back from its identity material although the \<open>kind\<close> tag is gone: the
  field names tell the variants apart.
\<close>

definition read_subject :: "json \<Rightarrow> target_ref" where
  "read_subject m =
     (case json_str ''taskAttemptId'' m of Some i \<Rightarrow> TR_Task (TT_TaskAttempt i) | None \<Rightarrow>
      case json_str ''checkpointId'' m of Some i \<Rightarrow> TR_Task (TT_Checkpoint i) | None \<Rightarrow>
      let r = the (json_str ''revisionId'' m) in TR_Review
       (case json_str ''side'' m of
          Some s \<Rightarrow> RT_Range r (the (json_str ''filePath'' m)) (if s = ''old'' then Old else New)
                    (the (json_num ''startLine'' m)) (the (json_num ''endLine'' m)) | None \<Rightarrow>
        case json_str ''filePath'' m of Some f \<Rightarrow> RT_File r f | None \<Rightarrow>
        case json_str ''observationId'' m of Some i \<Rightarrow> RT_Observation r i | None \<Rightarrow>
        case json_str ''inputRequestId'' m of Some i \<Rightarrow> RT_InputRequest r i | None \<Rightarrow>
        case json_str ''assessmentId'' m of Some i \<Rightarrow> RT_Assessment r i | None \<Rightarrow>
        case json_str ''eventId'' m of Some i \<Rightarrow> RT_Event r i | None \<Rightarrow> RT_Revision r))"

lemma read_subject_material: "subject_material s = Some m \<Longrightarrow> read_subject m = s"
proof (cases s)
  case (TR_Review t)
  assume m: "subject_material s = Some m"
  show ?thesis
  proof (cases t)
    case (RT_Range r f sd a b)
    with TR_Review m show ?thesis
      by (cases sd) (auto simp: read_subject_def json_str_def json_num_def Let_def)
  qed (use TR_Review m in \<open>auto simp: read_subject_def json_str_def Let_def\<close>)
next
  case (TR_Task t)
  assume "subject_material s = Some m"
  with TR_Task show ?thesis
    by (cases t) (auto simp: read_subject_def json_str_def)
qed simp

lemma subject_material_inj:
  assumes "subject_material s = Some m" and "subject_material t = Some n"
    and "canonical_json_value m = canonical_json_value n"
  shows "s = t"
proof -
  have "read_subject m = read_subject n"
    by (simp only: read_subject_def json_str_canonical [OF assms(3)] json_num_canonical [OF assms(3)])
  then show ?thesis
    using read_subject_material assms(1,2) by metis
qed

lemma event_target_json_inj:
  assumes "canonical_json_value (event_target_json s) = canonical_json_value (event_target_json t)"
  shows "s = t"
proof -
  have "tg_journal_id s = tg_journal_id t"
    using json_str_canonical [OF assms, of "''journalId''"]
    by (simp add: event_target_json_def json_str_def)
  moreover have "tg_subject_id s = tg_subject_id t"
    using json_str_canonical [OF assms, of "''subjectId''"]
    by (cases "tg_subject_id s"; cases "tg_subject_id t"; cases "tg_track_id s"; cases "tg_track_id t")
      (simp_all add: event_target_json_def json_some_def json_str_def)
  moreover have "tg_track_id s = tg_track_id t"
    using json_str_canonical [OF assms, of "''trackId''"]
    by (cases "tg_subject_id s"; cases "tg_subject_id t"; cases "tg_track_id s"; cases "tg_track_id t")
      (simp_all add: event_target_json_def json_some_def json_str_def)
  ultimately show ?thesis by simp
qed

lemma writer_json_inj:
  assumes "canonical_json_value (writer_json v) = canonical_json_value (writer_json w)"
  shows "v = w"
proof -
  let ?p = "\<lambda>w. JObject [(''name'', JString (pr_name (wr_producer w))), (''version'', JString (pr_version (wr_producer w)))]"
  have a: "wr_actor_id v = wr_actor_id w"
    using canonical_eq_field [OF assms, of "''actorId''"] by (simp add: writer_json_def)
  have "canonical_json_value (?p v) = canonical_json_value (?p w)"
    using canonical_eq_field [OF assms, of "''producer''"] by (simp add: writer_json_def)
  from canonical_eq_field [OF this, of "''name''"] canonical_eq_field [OF this, of "''version''"] a
  show ?thesis by simp
qed


lemma assertion_mode_json_inj:
  "canonical_json_value (assertion_mode_json a) = canonical_json_value (assertion_mode_json b) \<longleftrightarrow> a = b"
  by (cases a; cases b) auto

text \<open>Two events that state the same fact: all but the six excluded envelope fields agree.\<close>

definition same_fact :: "(event_payload \<Rightarrow> json) \<Rightarrow> shore_event \<Rightarrow> shore_event \<Rightarrow> bool" where
  "same_fact payload_value e f \<longleftrightarrow>
     ev_schema e = ev_schema f \<and> ev_version e = ev_version f \<and> ev_event_id e = ev_event_id f \<and>
     ev_event_type e = ev_event_type f \<and> ev_idempotency_key e = ev_idempotency_key f \<and>
     ev_target e = ev_target f \<and> ev_writer e = ev_writer f \<and> ev_occurred_at e = ev_occurred_at f \<and>
     ev_payload_hash e = ev_payload_hash f \<and> ev_assertion_mode e = ev_assertion_mode f \<and>
     canonical_json_value (payload_value (ev_payload e)) = canonical_json_value (payload_value (ev_payload f))"

lemma event_record_view_eq_iff:
  "canonical_json_value (event_record_view pv e) = canonical_json_value (event_record_view pv f) \<longleftrightarrow>
     same_fact pv e f" (is "?l \<longleftrightarrow> ?r")
proof
  assume ?l
  note f = canonical_eq_field [OF \<open>?l\<close>]
  note [simp] = event_record_view_def type_code_inj assertion_mode_json_inj
  show ?r
    unfolding same_fact_def
    using f [of "''schema''"] f [of "''version''"] f [of "''eventId''"] f [of "''eventType''"]
      f [of "''idempotencyKey''"] f [of "''target''"] f [of "''writer''"] f [of "''occurredAt''"]
      f [of "''payloadHash''"] f [of "''assertionMode''"] f [of "''payload''"]
    by (simp add: event_target_json_inj writer_json_inj)
next
  assume ?r
  then show ?l
    by (auto simp: same_fact_def event_record_view_def)
qed

lemma event_record_hash_iff:
  assumes "\<not> json_collide ext (event_record_view pv e) (event_record_view pv f)"
  shows "event_record_hash ext pv e = event_record_hash ext pv f \<longleftrightarrow> same_fact pv e f"
proof
  assume "event_record_hash ext pv e = event_record_hash ext pv f"
  then have "sha256_json_prefixed ext (event_record_view pv e) = sha256_json_prefixed ext (event_record_view pv f)"
    by (simp add: event_record_hash_def)
  from sha256_json_prefixed_eq [OF this assms] show "same_fact pv e f"
    by (simp add: event_record_view_eq_iff)
next
  assume "same_fact pv e f"
  then have "canonical_json_value (event_record_view pv e) = canonical_json_value (event_record_view pv f)"
    by (simp add: event_record_view_eq_iff)
  then show "event_record_hash ext pv e = event_record_hash ext pv f"
    by (simp add: event_record_hash_def sha256_json_prefixed_def canonical_json_bytes_def)
qed



section \<open>A concrete event\<close>

definition removal_event :: shore_event where
  "removal_event =
     \<lparr>ev_schema = EVENT_SCHEMA, ev_version = 1, ev_event_id = ''evt:sha256:1'',
      ev_event_type = ArtifactRemoved, ev_idempotency_key = ''t:16:sha256:a'',
      ev_target = for_journal ''journal:default'', ev_writer = shore_local ''1.0'',
      ev_occurred_at = ''2026-05-09T20:42:45Z'', ev_payload_hash = ''sha256:b'',
      ev_assertion_mode = Advisory, ev_signer = None, ev_signature = None, ev_source_ref = None,
      ev_ingest = None, ev_content_encoding = [], ev_payload_version = 1,
      ev_payload = P_ArtifactRemoved \<lparr>ar_content_hash = ''sha256:a''\<rparr>\<rparr>"

section \<open>Properties\<close>

text \<open>C12. The record hash of an event identifies the fact it states: two stored records have one
  hash exactly when they agree on every envelope field but the signer, the signature, the
  source reference, the ingest stamp, the content encoding and the payload version, and on
  the payload as JSON; unless their views are a digest collision.\<close>

theorem record_hash_identifies_fact:
  assumes "\<not> json_collide ext (event_record_view payload_value e) (event_record_view payload_value f)"
  shows "event_record_hash ext payload_value e = event_record_hash ext payload_value f \<longleftrightarrow>
    same_fact payload_value e f"
  by (rule event_record_hash_iff [OF assms])

theorem record_hash_identifies_fact_witness:
  "event_record_hash plain_externals (\<lambda>_. JNull) removal_event =
   event_record_hash plain_externals (\<lambda>_. JNull)
     (hd (stamp_ingest_provenance [removal_event\<lparr>ev_signer := Some ''did:key:z''\<rparr>] BundleApply ''now''))"
proof -
  let ?f = "hd (stamp_ingest_provenance [removal_event\<lparr>ev_signer := Some ''did:key:z''\<rparr>] BundleApply ''now'')"
  have same: "same_fact (\<lambda>_. JNull) removal_event ?f"
    by (simp add: same_fact_def stamp_ingest_provenance_def)
  then have "\<not> json_collide plain_externals (event_record_view (\<lambda>_. JNull) removal_event)
      (event_record_view (\<lambda>_. JNull) ?f)"
    by (simp add: json_collide_def event_record_view_eq_iff)
  from record_hash_identifies_fact [OF this] same show ?thesis by simp
qed

text \<open>C32. The opaque subject id determines the subject although the \<open>kind\<close> tag is not hashed: two
  subjects with one id are the same subject, across review and task targets, unless their
  identity materials are a digest collision.\<close>

theorem subject_id_identifies_subject:
  assumes "subject_id ext s = Inr (Some i)" and "subject_id ext t = Inr (Some i)"
    and "\<not> json_collide ext (the (subject_material s)) (the (subject_material t))"
  shows "s = t"
proof -
  from assms(1,2) obtain m n where mn: "subject_material s = Some m" "subject_material t = Some n"
    and "sha256_json_prefixed ext m = sha256_json_prefixed ext n"
    by (auto simp: subject_id_def split: option.splits)
  then have "canonical_json_value m = canonical_json_value n"
    using assms(3) by (intro sha256_json_prefixed_eq) auto
  with mn show ?thesis by (rule subject_material_inj)
qed

theorem subject_id_identifies_subject_witness:
  "\<exists>i. subject_id plain_externals (TR_Review (RT_File ''rev:1'' ''a.rs'')) = Inr (Some i) \<and>
     (\<forall>t. subject_id plain_externals t = Inr (Some i) \<and>
        \<not> json_collide plain_externals (the (subject_material (TR_Review (RT_File ''rev:1'' ''a.rs''))))
            (the (subject_material t)) \<longrightarrow> t = TR_Review (RT_File ''rev:1'' ''a.rs''))"
proof -
  obtain i where i: "subject_id plain_externals (TR_Review (RT_File ''rev:1'' ''a.rs'')) = Inr (Some i)"
    by (simp add: subject_id_def)
  then show ?thesis
    using subject_id_identifies_subject [OF i] by auto
qed



end
