(* ===== verification/Signing.thy ===== *)
theory Signing
  imports Events
begin

text \<open>
  Signer identities (\<open>src/src/crypto\<close>), the view of an event that a signature covers
  (\<open>src/src/session/event/tbs.rs\<close>, \<open>signature.rs\<close>), and signing, verification, trust, ingest
  policy and detached co-signatures (\<open>src/src/session/signing\<close>). The curve arithmetic and the
  base58 and base64 codecs are third-party code and are parameters, collected in
  \<open>crypto_externals\<close>.
\<close>

section \<open>did:key signer ids\<close>

record crypto_externals =
  bs58_encode :: "string \<Rightarrow> string"
  bs58_decode :: "string \<Rightarrow> string option"
  base64_decode :: "string \<Rightarrow> string option"
  verifying_key_from_bytes :: "string \<Rightarrow> string option"
  signature_from_slice :: "string \<Rightarrow> string option"
  verify_strict :: "string \<Rightarrow> string \<Rightarrow> string \<Rightarrow> bool"

definition DID_KEY_PREFIX :: string where "DID_KEY_PREFIX = ''did:key:''"
definition BASE58_BTC_PREFIX :: string where "BASE58_BTC_PREFIX = ''z''"
definition ED25519_MULTICODEC_PREFIX :: string where
  "ED25519_MULTICODEC_PREFIX = [char_of (237::nat), char_of (1::nat)]"
definition ED25519_PUBLIC_KEY_LEN :: nat where "ED25519_PUBLIC_KEY_LEN = 32"
definition ED25519_DID_KEY_BYTES_LEN :: nat where
  "ED25519_DID_KEY_BYTES_LEN = length ED25519_MULTICODEC_PREFIX + ED25519_PUBLIC_KEY_LEN"

definition invalid_did_key :: "string \<Rightarrow> shore_error" where
  "invalid_did_key message = WorkflowInputInvalid (''invalid Ed25519 did:key: '' @ message)"

definition decode_ed25519_public_key :: "crypto_externals \<Rightarrow> string \<Rightarrow> string result" where
  "decode_ed25519_public_key cx value =
     (case strip_prefix DID_KEY_PREFIX value of
        None \<Rightarrow> Inl (invalid_did_key ''unsupported DID method'')
      | Some encoded \<Rightarrow>
     (case strip_prefix BASE58_BTC_PREFIX encoded of
        None \<Rightarrow> Inl (invalid_did_key ''missing base58btc multibase prefix'')
      | Some multibase \<Rightarrow>
        if multibase = [] then Inl (invalid_did_key ''empty base58btc payload'')
        else case bs58_decode cx multibase of
          None \<Rightarrow> Inl (invalid_did_key ''malformed base58btc payload'')
        | Some decoded \<Rightarrow>
            if length decoded \<noteq> ED25519_DID_KEY_BYTES_LEN then
              Inl (invalid_did_key ''unexpected Ed25519 did:key byte length'')
            else if \<not> starts_with decoded ED25519_MULTICODEC_PREFIX then
              Inl (invalid_did_key ''unsupported did:key multicodec'')
            else Inr (drop (length ED25519_MULTICODEC_PREFIX) decoded)))"

definition signer_id_parse :: "crypto_externals \<Rightarrow> string \<Rightarrow> signer_id result" where
  "signer_id_parse cx value = and_then (decode_ed25519_public_key cx value) (\<lambda>_. Inr value)"

definition from_ed25519_public_key :: "crypto_externals \<Rightarrow> string \<Rightarrow> signer_id" where
  "from_ed25519_public_key cx bytes =
     DID_KEY_PREFIX @ BASE58_BTC_PREFIX @ bs58_encode cx (ED25519_MULTICODEC_PREFIX @ bytes)"

definition verify_ed25519_strict ::
  "crypto_externals \<Rightarrow> signer_id \<Rightarrow> string \<Rightarrow> string \<Rightarrow> event_verification_status result" where
  "verify_ed25519_strict cx signer message signature =
     (case decode_ed25519_public_key cx signer of
        Inl _ \<Rightarrow> Inr Invalid
      | Inr public_key \<Rightarrow>
     (case verifying_key_from_bytes cx public_key of
        None \<Rightarrow> Inr Invalid
      | Some verifying_key \<Rightarrow>
     (case base64_decode cx signature of
        None \<Rightarrow> Inr Invalid
      | Some signature_bytes \<Rightarrow>
     (case signature_from_slice cx signature_bytes of
        None \<Rightarrow> Inr Invalid
      | Some sig \<Rightarrow> Inr (if verify_strict cx verifying_key message sig then Valid else Invalid)))))"

section \<open>The signed view\<close>

definition ED25519_SIGNATURE_ALG :: string where "ED25519_SIGNATURE_ALG = ''ed25519''"
definition EVENT_SIGNATURE_VERSION_V1 :: nat where "EVENT_SIGNATURE_VERSION_V1 = 1"

definition ed25519_v1 :: "string \<Rightarrow> event_signature" where
  "ed25519_v1 sig =
     \<lparr>sg_alg = ED25519_SIGNATURE_ALG, sg_sig_version = EVENT_SIGNATURE_VERSION_V1, sg_sig = sig\<rparr>"

record effective_signer_error =
  er_status :: event_verification_status
  er_reason :: string

definition resolve_effective_signer ::
  "crypto_externals \<Rightarrow> shore_event \<Rightarrow> effective_signer_error + signer_id" where
  "resolve_effective_signer cx event =
     (if ev_signature event = None then
        Inl \<lparr>er_status = Unsigned, er_reason = ''event is unsigned''\<rparr>
      else case ev_signer event of
        Some signer \<Rightarrow> Inr signer
      | None \<Rightarrow>
          (case signer_id_parse cx (wr_actor_id (ev_writer event)) of
             Inr signer \<Rightarrow> Inr signer
           | Inl _ \<Rightarrow> Inl \<lparr>er_status = Invalid,
                           er_reason = ''signed friendly actor event is missing signer''\<rparr>))"

record tbs_view =
  tbs_schema :: string
  tbs_version :: nat
  tbs_event_type :: string
  tbs_event_id :: event_id
  tbs_payload_hash :: string
  tbs_target :: event_target
  tbs_actor_id :: actor_id
  tbs_signer :: signer_id
  tbs_occurred_at :: string
  tbs_assertion_mode :: assertion_mode

definition tbs_from_event :: "shore_event \<Rightarrow> signer_id \<Rightarrow> tbs_view result" where
  "tbs_from_event event signer =
     and_then (validate_schema_version event) (\<lambda>_.
     Inr \<lparr>tbs_schema = ev_schema event,
          tbs_version = ev_version event,
          tbs_event_type = type_code (ev_event_type event),
          tbs_event_id = ev_event_id event,
          tbs_payload_hash = ev_payload_hash event,
          tbs_target = ev_target event,
          tbs_actor_id = wr_actor_id (ev_writer event),
          tbs_signer = signer,
          tbs_occurred_at = ev_occurred_at event,
          tbs_assertion_mode = ev_assertion_mode event\<rparr>)"

definition tbs_json :: "tbs_view \<Rightarrow> json" where
  "tbs_json t = JObject
     [(''schema'', JString (tbs_schema t)),
      (''version'', JNumber (int (tbs_version t))),
      (''eventType'', JString (tbs_event_type t)),
      (''eventId'', JString (tbs_event_id t)),
      (''payloadHash'', JString (tbs_payload_hash t)),
      (''target'', event_target_json (tbs_target t)),
      (''actorId'', JString (tbs_actor_id t)),
      (''signer'', JString (tbs_signer t)),
      (''occurredAt'', JString (tbs_occurred_at t)),
      (''assertionMode'', assertion_mode_json (tbs_assertion_mode t))]"

definition tbs_canonical_bytes :: "externals \<Rightarrow> tbs_view \<Rightarrow> string result" where
  "tbs_canonical_bytes ext t = Inr (canonical_json_bytes ext (tbs_json t))"

definition pre_authentication_encoding :: "string \<Rightarrow> string \<Rightarrow> string" where
  "pre_authentication_encoding payload_type body =
     ''DSSEv1 '' @ dec_digits (length payload_type) @ '' '' @ payload_type @ '' '' @
     dec_digits (length body) @ '' '' @ body"

definition EVENT_TO_BE_SIGNED_V1_PAYLOAD_TYPE :: string where
  "EVENT_TO_BE_SIGNED_V1_PAYLOAD_TYPE = ''application/vnd.shore.event-tbs.v1+json''"

text \<open>\<open>error_text\<close> is the \<open>Display\<close> text of an error, which only a reason string shows.\<close>

definition event_to_be_signed ::
  "crypto_externals \<Rightarrow> (shore_error \<Rightarrow> string) \<Rightarrow> shore_event
     \<Rightarrow> effective_signer_error + tbs_view" where
  "event_to_be_signed cx error_text event =
     (case resolve_effective_signer cx event of
        Inl error \<Rightarrow> Inl error
      | Inr signer \<Rightarrow>
          (case tbs_from_event event signer of
             Inl error \<Rightarrow> Inl \<lparr>er_status = Invalid, er_reason = error_text error\<rparr>
           | Inr tbs \<Rightarrow> Inr tbs))"

definition event_signature_pre_authentication_encoding ::
  "externals \<Rightarrow> tbs_view \<Rightarrow> string result" where
  "event_signature_pre_authentication_encoding ext tbs =
     and_then (tbs_canonical_bytes ext tbs) (\<lambda>body.
       Inr (pre_authentication_encoding EVENT_TO_BE_SIGNED_V1_PAYLOAD_TYPE body))"

section \<open>Trust sets\<close>

type_synonym trust_set = "(actor_id \<times> signer_id list) list"

definition contains_signer :: "trust_set \<Rightarrow> signer_id \<Rightarrow> bool" where
  "contains_signer trust signer \<longleftrightarrow> list_ex (\<lambda>signers. signer \<in> set signers) (map snd trust)"

definition insert_signer :: "trust_set \<Rightarrow> actor_id \<Rightarrow> signer_id \<Rightarrow> trust_set \<times> bool" where
  "insert_signer trust actor signer =
     (bm_entry actor [] (bs_insert signer) trust, signer \<notin> set (bm_get_or [] trust actor))"

definition reverse_resolve :: "trust_set \<Rightarrow> signer_id \<Rightarrow> actor_id list" where
  "reverse_resolve trust signer =
     bs_collect (map fst (filter (\<lambda>(_, signers). signer \<in> set signers) trust))"

definition actors_for_signer :: "trust_set \<Rightarrow> signer_id \<Rightarrow> actor_id list" where
  "actors_for_signer trust signer = reverse_resolve trust signer"

definition authorizes :: "crypto_externals \<Rightarrow> trust_set \<Rightarrow> actor_id \<Rightarrow> signer_id \<Rightarrow> string \<Rightarrow> bool" where
  "authorizes cx trust actor signer _ =
     (if (case signer_id_parse cx actor of Inr actor_signer \<Rightarrow> actor_signer = signer | Inl _ \<Rightarrow> False)
      then True
      else case bm_get trust actor of Some signers \<Rightarrow> signer \<in> set signers | None \<Rightarrow> False)"

definition invalid_trust_set :: "string \<Rightarrow> shore_error" where
  "invalid_trust_set reason = WorkflowInputInvalid (''invalid event signature trust set: '' @ reason)"

fun parse_signers :: "crypto_externals \<Rightarrow> string \<Rightarrow> json list \<Rightarrow> signer_id list \<Rightarrow> signer_id list result" where
  "parse_signers cx actor [] parsed_signers = Inr parsed_signers"
| "parse_signers cx actor (JString signer # signers) parsed_signers =
     and_then (signer_id_parse cx signer) (\<lambda>id. parse_signers cx actor signers (bs_insert id parsed_signers))"
| "parse_signers cx actor (_ # signers) parsed_signers =
     Inl (invalid_trust_set (''allowed signer for '' @ actor @ '' must be a string''))"

fun parse_allowed ::
  "crypto_externals \<Rightarrow> (string \<times> json) list \<Rightarrow> trust_set \<Rightarrow> trust_set result" where
  "parse_allowed cx [] allowed_signers = Inr allowed_signers"
| "parse_allowed cx ((actor, JArray signers) # allowed) allowed_signers =
     and_then (parse_signers cx actor signers []) (\<lambda>parsed_signers.
       parse_allowed cx allowed (bm_insert actor parsed_signers allowed_signers))"
| "parse_allowed cx ((actor, _) # allowed) allowed_signers =
     Inl (invalid_trust_set (''allowed signers for '' @ actor @ '' must be an array''))"

definition event_signature_trust_set :: "crypto_externals \<Rightarrow> json \<Rightarrow> trust_set result" where
  "event_signature_trust_set cx value =
     (case json_get ''allowedSigners'' value of
        Some (JObject allowed) \<Rightarrow> parse_allowed cx allowed []
      | _ \<Rightarrow> Inl (invalid_trust_set ''missing allowedSigners object''))"

section \<open>Verification\<close>

definition verify_event_signature ::
  "externals \<Rightarrow> crypto_externals \<Rightarrow> (shore_error \<Rightarrow> string) \<Rightarrow> shore_event \<Rightarrow> trust_set
     \<Rightarrow> event_verification_status result" where
  "verify_event_signature ext cx error_text event trust =
     (case ev_signature event of
        None \<Rightarrow> Inr Unsigned
      | Some signature \<Rightarrow>
          if sg_alg signature \<noteq> ED25519_SIGNATURE_ALG \<or>
             sg_sig_version signature \<noteq> EVENT_SIGNATURE_VERSION_V1 then Inr Invalid
          else case event_to_be_signed cx error_text event of
            Inl error \<Rightarrow> Inr (er_status error)
          | Inr tbs \<Rightarrow>
              (case event_signature_pre_authentication_encoding ext tbs of
                 Inl _ \<Rightarrow> Inr Invalid
               | Inr message \<Rightarrow>
                   and_then (verify_ed25519_strict cx (tbs_signer tbs) message (sg_sig signature)) (\<lambda>status.
                   if status \<noteq> Valid then Inr status
                   else if authorizes cx trust (wr_actor_id (ev_writer event)) (tbs_signer tbs)
                       (ev_occurred_at event) then Inr Valid
                   else Inr UntrustedKey)))"

section \<open>Policies\<close>

record event_verification_policy =
  reject_invalid_signatures :: bool
  require_trusted_signer :: bool
  allow_unsigned :: bool

definition advisory :: event_verification_policy where
  "advisory = \<lparr>reject_invalid_signatures = False, require_trusted_signer = False, allow_unsigned = True\<rparr>"

definition integrity_strict :: event_verification_policy where
  "integrity_strict = \<lparr>reject_invalid_signatures = True, require_trusted_signer = False, allow_unsigned = True\<rparr>"

definition trusted_strict :: event_verification_policy where
  "trusted_strict = \<lparr>reject_invalid_signatures = True, require_trusted_signer = True, allow_unsigned = False\<rparr>"

definition with_allow_unsigned :: "event_verification_policy \<Rightarrow> bool \<Rightarrow> event_verification_policy" where
  "with_allow_unsigned policy allow = policy\<lparr>allow_unsigned := allow\<rparr>"

fun rejects :: "event_verification_policy \<Rightarrow> event_verification_status \<Rightarrow> bool" where
  "rejects policy Valid = False"
| "rejects policy Invalid = reject_invalid_signatures policy"
| "rejects policy UntrustedKey = require_trusted_signer policy"
| "rejects policy Unsigned = (\<not> allow_unsigned policy)"

section \<open>Ingest\<close>

text \<open>\<open>write_outcome\<close> is filled in by the store afterwards; here it is always absent.\<close>

record ingest_event_verification =
  iv_event_id :: event_id
  iv_status :: event_verification_status
  iv_message :: "string option"

fun verification_message :: "event_verification_status \<Rightarrow> string option" where
  "verification_message Valid = None"
| "verification_message Invalid = Some ''event signature is invalid''"
| "verification_message UntrustedKey = Some ''event signer is not authorized by the trust set''"
| "verification_message Unsigned = Some ''event is unsigned''"

fun verify_events_loop ::
  "externals \<Rightarrow> crypto_externals \<Rightarrow> (shore_error \<Rightarrow> string) \<Rightarrow> shore_event list
     \<Rightarrow> event_verification_policy \<Rightarrow> trust_set \<Rightarrow> ingest_event_verification list
     \<Rightarrow> ingest_event_verification list result" where
  "verify_events_loop ext cx error_text [] policy trust_set verification = Inr verification"
| "verify_events_loop ext cx error_text (event # events) policy trust_set verification =
     (if ev_event_type event = EventSignatureRecorded then
        verify_events_loop ext cx error_text events policy trust_set verification
      else and_then (verify_event_signature ext cx error_text event trust_set) (\<lambda>status.
        let report = \<lparr>iv_event_id = ev_event_id event, iv_status = status,
                      iv_message = verification_message status\<rparr>
        in if rejects policy status then Inl (EventVerificationRejected (ev_event_id event) status)
           else verify_events_loop ext cx error_text events policy trust_set (verification @ [report])))"

definition verify_events_for_ingest ::
  "externals \<Rightarrow> crypto_externals \<Rightarrow> (shore_error \<Rightarrow> string) \<Rightarrow> shore_event list
     \<Rightarrow> event_verification_policy \<Rightarrow> trust_set \<Rightarrow> ingest_event_verification list result" where
  "verify_events_for_ingest ext cx error_text events policy trust_set =
     verify_events_loop ext cx error_text events policy trust_set []"

section \<open>Signing on write\<close>

text \<open>
  An \<open>EventSigner\<close> is its id and its signing function. The result carries the event as the
  caller sees it afterwards and what was put into the skip sink, if anything.
\<close>

record event_signer =
  es_signer_id :: signer_id
  sign_event_message :: "string \<Rightarrow> string result"

record event_signing_options =
  so_signer :: "event_signer option"
  so_best_effort :: bool
  so_skip_sink :: bool

definition sign_with :: "event_signer \<Rightarrow> event_signing_options" where
  "sign_with signer = \<lparr>so_signer = Some signer, so_best_effort = False, so_skip_sink = False\<rparr>"

definition sign_with_best_effort :: "event_signer \<Rightarrow> event_signing_options" where
  "sign_with_best_effort signer = \<lparr>so_signer = Some signer, so_best_effort = True, so_skip_sink = True\<rparr>"

definition sign_event_if_requested ::
  "externals \<Rightarrow> (shore_error \<Rightarrow> string) \<Rightarrow> shore_event \<Rightarrow> event_signing_options
     \<Rightarrow> (shore_event \<times> string option) result" where
  "sign_event_if_requested ext error_text event signing =
     (case so_signer signing of
        None \<Rightarrow> Inr (event, None)
      | Some signer \<Rightarrow>
          let signer_id = es_signer_id signer in
          and_then (tbs_from_event event signer_id) (\<lambda>signing_view.
          and_then (event_signature_pre_authentication_encoding ext signing_view) (\<lambda>message.
          case sign_event_message signer message of
            Inl error \<Rightarrow>
              if so_best_effort signing then
                Inr (event, if so_skip_sink signing then Some (error_text error) else None)
              else Inl error
          | Inr signature \<Rightarrow>
              Inr (event\<lparr>ev_signer := (if wr_actor_id (ev_writer event) = signer_id then None else Some signer_id),
                         ev_signature := Some (ed25519_v1 signature)\<rparr>, None))))"

section \<open>Detached co-signatures\<close>

datatype cosignature_verification =
    Attested event_verification_status
  | CV_BindingMismatch

definition verify_cosignature ::
  "externals \<Rightarrow> (event_payload \<Rightarrow> json) \<Rightarrow> crypto_externals \<Rightarrow> event_signature_recorded_payload
     \<Rightarrow> shore_event \<Rightarrow> trust_set \<Rightarrow> cosignature_verification result" where
  "verify_cosignature ext payload_value cx carrier target trust =
     and_then (event_record_hash ext payload_value target) (\<lambda>record_hash.
     if record_hash \<noteq> es_target_event_record_hash carrier then Inr CV_BindingMismatch
     else if sg_alg (es_attestation carrier) \<noteq> ED25519_SIGNATURE_ALG \<or>
         sg_sig_version (es_attestation carrier) \<noteq> EVENT_SIGNATURE_VERSION_V1 then Inr (Attested Invalid)
     else case tbs_from_event target (es_attesting_signer carrier) of
       Inl _ \<Rightarrow> Inr (Attested Invalid)
     | Inr tbs \<Rightarrow>
         (case event_signature_pre_authentication_encoding ext tbs of
            Inl _ \<Rightarrow> Inr (Attested Invalid)
          | Inr message \<Rightarrow>
              and_then (verify_ed25519_strict cx (es_attesting_signer carrier) message
                  (sg_sig (es_attestation carrier))) (\<lambda>status.
              if status \<noteq> Valid then Inr (Attested status)
              else if authorizes cx trust (wr_actor_id (ev_writer target)) (es_attesting_signer carrier)
                  (ev_occurred_at target) then Inr (Attested Valid)
              else Inr (Attested UntrustedKey))))"

datatype cosignature_gate_decision =
    Store event_verification_status
  | DropInvalid
  | TargetPending
  | BindingMismatch

fun gate_stores :: "cosignature_gate_decision \<Rightarrow> bool" where
  "gate_stores (Store _) = True"
| "gate_stores _ = False"

fun drop_diagnostic_code :: "cosignature_gate_decision \<Rightarrow> string option" where
  "drop_diagnostic_code (Store _) = None"
| "drop_diagnostic_code DropInvalid = Some ''cosignature_invalid''"
| "drop_diagnostic_code TargetPending = Some ''cosignature_target_pending''"
| "drop_diagnostic_code BindingMismatch = Some ''cosignature_binding_mismatch''"

fun gate_decision :: "cosignature_verification \<Rightarrow> cosignature_gate_decision" where
  "gate_decision CV_BindingMismatch = BindingMismatch"
| "gate_decision (Attested Invalid) = DropInvalid"
| "gate_decision (Attested Valid) = Store Valid"
| "gate_decision (Attested UntrustedKey) = Store UntrustedKey"
| "gate_decision (Attested Unsigned) = DropInvalid"

definition gate_cosignature_for_store ::
  "externals \<Rightarrow> (event_payload \<Rightarrow> json) \<Rightarrow> crypto_externals \<Rightarrow> event_signature_recorded_payload
     \<Rightarrow> shore_event option \<Rightarrow> trust_set \<Rightarrow> cosignature_gate_decision result" where
  "gate_cosignature_for_store ext payload_value cx carrier target trust =
     (case target of
        None \<Rightarrow> Inr TargetPending
      | Some target \<Rightarrow>
          and_then (verify_cosignature ext payload_value cx carrier target trust) (\<lambda>verification.
            Inr (gate_decision verification)))"

section \<open>Lemmas\<close>

lemma dec_digits_no_space: "CHR '' '' \<notin> set (dec_digits n)"
proof
  assume "CHR '' '' \<in> set (dec_digits n)"
  from dec_digits_range [OF this] show False by simp
qed

lemma first_field_unique:
  assumes "dec_digits m @ '' '' @ xs = dec_digits n @ '' '' @ ys"
  shows "m = n \<and> xs = ys"
proof -
  have "takeWhile (\<lambda>c. c \<noteq> CHR '' '') (dec_digits k @ '' '' @ zs) = dec_digits k" for k zs
    using dec_digits_no_space [of k] by (subst takeWhile_append2) auto
  from this [of m xs] this [of n ys] assms have "dec_digits m = dec_digits n" by simp
  with assms show ?thesis by (simp add: dec_digits_inj)
qed

lemma pre_authentication_encoding_inj:
  assumes "pre_authentication_encoding t b = pre_authentication_encoding t' b'"
  shows "t = t' \<and> b = b'"
proof -
  have "dec_digits (length t) @ '' '' @ (t @ '' '' @ dec_digits (length b) @ '' '' @ b) =
      dec_digits (length t') @ '' '' @ (t' @ '' '' @ dec_digits (length b') @ '' '' @ b')"
    using assms by (simp add: pre_authentication_encoding_def)
  from first_field_unique [OF this] have len: "length t = length t'"
    and rest: "t @ '' '' @ dec_digits (length b) @ '' '' @ b = t' @ '' '' @ dec_digits (length b') @ '' '' @ b'"
    by auto
  from rest len have "t = t'" and "dec_digits (length b) @ '' '' @ b = dec_digits (length b') @ '' '' @ b'"
    by auto
  with first_field_unique [of "length b" b "length b'" b'] show ?thesis by simp
qed

lemma tbs_json_inj:
  assumes "canonical_json_value (tbs_json s) = canonical_json_value (tbs_json t)"
  shows "s = t"
proof -
  note f = canonical_eq_field [OF assms]
  note [simp] = tbs_json_def assertion_mode_json_inj
  show ?thesis
    using f [of "''schema''"] f [of "''version''"] f [of "''eventType''"] f [of "''eventId''"]
      f [of "''payloadHash''"] f [of "''target''"] f [of "''actorId''"] f [of "''signer''"]
      f [of "''occurredAt''"] f [of "''assertionMode''"]
    by (simp add: event_target_json_inj)
qed

lemma signed_message_eq:
  assumes "event_signature_pre_authentication_encoding ext s = event_signature_pre_authentication_encoding ext t"
    and "to_vec ext (canonical_json_value (tbs_json s)) = to_vec ext (canonical_json_value (tbs_json t)) \<Longrightarrow>
      canonical_json_value (tbs_json s) = canonical_json_value (tbs_json t)"
  shows "s = t"
proof -
  have "pre_authentication_encoding EVENT_TO_BE_SIGNED_V1_PAYLOAD_TYPE (canonical_json_bytes ext (tbs_json s)) =
      pre_authentication_encoding EVENT_TO_BE_SIGNED_V1_PAYLOAD_TYPE (canonical_json_bytes ext (tbs_json t))"
    using assms(1) by (simp add: event_signature_pre_authentication_encoding_def tbs_canonical_bytes_def)
  from pre_authentication_encoding_inj [OF this] assms(2) show ?thesis
    by (intro tbs_json_inj) (simp add: canonical_json_bytes_def)
qed

lemma tbs_from_event_signature [simp]:
  "tbs_from_event (e\<lparr>ev_signer := a, ev_signature := b\<rparr>) s = tbs_from_event e s"
  by (simp add: tbs_from_event_def validate_schema_version_def)

lemma tbs_from_event_signer: "tbs_from_event e s = Inr t \<Longrightarrow> tbs_signer t = s"
  by (auto simp: tbs_from_event_def and_then_eq_Inr_iff)

lemma decode_from_public_key:
  assumes "length k = 32" and "bs58_encode cx (ED25519_MULTICODEC_PREFIX @ k) \<noteq> []"
    and "bs58_decode cx (bs58_encode cx (ED25519_MULTICODEC_PREFIX @ k)) = Some (ED25519_MULTICODEC_PREFIX @ k)"
  shows "decode_ed25519_public_key cx (from_ed25519_public_key cx k) = Inr k"
  using assms
  unfolding decode_ed25519_public_key_def from_ed25519_public_key_def strip_prefix_append
  by (simp add: strip_prefix_append ED25519_DID_KEY_BYTES_LEN_def ED25519_PUBLIC_KEY_LEN_def starts_with_def)

text \<open>What \<open>sign_event_if_requested\<close> leaves behind.\<close>

lemma sign_event_shape:
  assumes "sign_event_if_requested ext txt e (sign_with s) = Inr (e', sink)"
  obtains t m sg where "tbs_from_event e (es_signer_id s) = Inr t"
    and "event_signature_pre_authentication_encoding ext t = Inr m"
    and "sign_event_message s m = Inr sg" and "sink = None"
    and "e' = e\<lparr>ev_signer := (if wr_actor_id (ev_writer e) = es_signer_id s then None else Some (es_signer_id s)),
              ev_signature := Some (ed25519_v1 sg)\<rparr>"
proof -
  from assms obtain t m where "tbs_from_event e (es_signer_id s) = Inr t"
    and "event_signature_pre_authentication_encoding ext t = Inr m"
    by (auto simp: sign_event_if_requested_def sign_with_def Let_def and_then_eq_Inr_iff)
  with assms that show thesis
    by (cases "sign_event_message s m") (auto simp: sign_event_if_requested_def sign_with_def Let_def)
qed

lemma signer_id_parse_Inr: "signer_id_parse cx v = Inr i \<longleftrightarrow> i = v \<and> (\<exists>k. decode_ed25519_public_key cx v = Inr k)"
  by (auto simp: signer_id_parse_def and_then_eq_Inr_iff)

lemma resolve_signed:
  assumes "\<exists>k. decode_ed25519_public_key cx s = Inr k"
  shows "resolve_effective_signer cx
      (e\<lparr>ev_signer := (if wr_actor_id (ev_writer e) = s then None else Some s), ev_signature := Some g\<rparr>) = Inr s"
proof -
  have "signer_id_parse cx s = Inr s"
    using assms by (simp add: signer_id_parse_Inr)
  then show ?thesis
    by (auto simp: resolve_effective_signer_def)
qed

lemma verify_signed_event:
  assumes e': "e' = e\<lparr>ev_signer := (if wr_actor_id (ev_writer e) = s then None else Some s),
              ev_signature := Some (ed25519_v1 sg)\<rparr>"
    and dec: "\<exists>k. decode_ed25519_public_key cx s = Inr k"
    and t: "tbs_from_event e s = Inr t" and m: "event_signature_pre_authentication_encoding ext t = Inr m"
    and ok: "verify_ed25519_strict cx s m sg = Inr Valid"
  shows "verify_event_signature ext cx txt e' trust =
    Inr (if authorizes cx trust (wr_actor_id (ev_writer e)) s (ev_occurred_at e) then Valid else UntrustedKey)"
proof -
  have "event_to_be_signed cx txt e' = Inr t"
    using resolve_signed [OF dec] t by (simp add: event_to_be_signed_def e')
  with tbs_from_event_signer [OF t] m ok show ?thesis
    by (auto simp: verify_event_signature_def e' ed25519_v1_def)
qed

lemma verify_events_loop_Inr:
  "verify_events_loop ext cx txt es pol trust acc = Inr reports \<Longrightarrow>
     \<exists>tail. reports = acc @ tail \<and>
       map iv_event_id tail = map ev_event_id (filter (\<lambda>e. ev_event_type e \<noteq> EventSignatureRecorded) es) \<and>
       (\<forall>e \<in> set es. ev_event_type e \<noteq> EventSignatureRecorded \<longrightarrow>
          (\<exists>st. verify_event_signature ext cx txt e trust = Inr st \<and> \<not> rejects pol st))"
proof (induction es arbitrary: acc)
  case (Cons e es)
  show ?case
  proof (cases "ev_event_type e = EventSignatureRecorded")
    case True
    with Cons show ?thesis by simp
  next
    case False
    with Cons.prems obtain st where st: "verify_event_signature ext cx txt e trust = Inr st" "\<not> rejects pol st"
      and rest: "verify_events_loop ext cx txt es pol trust (acc @ [\<lparr>iv_event_id = ev_event_id e, iv_status = st,
                      iv_message = verification_message st\<rparr>]) = Inr reports"
      by (auto simp: and_then_eq_Inr_iff Let_def split: if_splits)
    from Cons.IH [OF rest] st False show ?thesis by auto
  qed
qed simp

lemma verify_event_signature_Valid:
  assumes "verify_event_signature ext cx txt e trust = Inr Valid"
  shows "\<exists>signer t m g. resolve_effective_signer cx e = Inr signer \<and> ev_signature e = Some g \<and>
    tbs_from_event e signer = Inr t \<and> event_signature_pre_authentication_encoding ext t = Inr m \<and>
    verify_ed25519_strict cx signer m (sg_sig g) = Inr Valid \<and>
    authorizes cx trust (wr_actor_id (ev_writer e)) signer (ev_occurred_at e)"
proof -
  have er: "er_status x \<noteq> Valid" if "resolve_effective_signer cx e = Inl x" for x
    using that by (auto simp: resolve_effective_signer_def split: option.splits if_splits sum.splits)
  from assms show ?thesis
    by (auto simp: verify_event_signature_def event_to_be_signed_def and_then_eq_Inr_iff
        dest!: er tbs_from_event_signer split: option.splits sum.splits if_splits)
qed

lemma verify_strict_decodes: "verify_ed25519_strict cx s m g = Inr Valid \<Longrightarrow> \<exists>k. decode_ed25519_public_key cx s = Inr k"
  by (auto simp: verify_ed25519_strict_def split: sum.splits)

lemma gate_decision_Store:
  "gate_decision v = Store st \<longleftrightarrow> v = Attested st \<and> (st = Valid \<or> st = UntrustedKey)"
  by (cases v rule: gate_decision.cases) auto

lemma verify_ed25519_strict_range: "verify_ed25519_strict cx s m g = Inr st \<Longrightarrow> st = Valid \<or> st = Invalid"
  by (auto simp: verify_ed25519_strict_def split: sum.splits option.splits if_splits)

lemma verify_cosignature_stored:
  assumes "verify_cosignature ext pv cx carrier target trust = Inr (Attested st)" and "st = Valid \<or> st = UntrustedKey"
  shows "event_record_hash ext pv target = Inr (es_target_event_record_hash carrier) \<and>
    (\<exists>t m. tbs_from_event target (es_attesting_signer carrier) = Inr t \<and>
       event_signature_pre_authentication_encoding ext t = Inr m \<and>
       verify_ed25519_strict cx (es_attesting_signer carrier) m (sg_sig (es_attestation carrier)) = Inr Valid) \<and>
    (st = Valid \<longleftrightarrow> authorizes cx trust (wr_actor_id (ev_writer target)) (es_attesting_signer carrier)
       (ev_occurred_at target))"
  using assms
  by (auto simp: verify_cosignature_def and_then_eq_Inr_iff
      dest: verify_ed25519_strict_range split: if_splits sum.splits)

section \<open>A concrete signer\<close>

text \<open>Codecs that copy, and a signature that is the key followed by the message.\<close>

definition plain_crypto :: crypto_externals where
  "plain_crypto = \<lparr>bs58_encode = id, bs58_decode = Some, base64_decode = Some,
     verifying_key_from_bytes = Some, signature_from_slice = Some,
     verify_strict = (\<lambda>key message sig. sig = key @ message)\<rparr>"

definition plain_signer :: event_signer where
  "plain_signer = \<lparr>es_signer_id = from_ed25519_public_key plain_crypto (replicate 32 CHR ''k''),
     sign_event_message = (\<lambda>message. Inr (replicate 32 CHR ''k'' @ message))\<rparr>"

lemma plain_signer_verifies:
  "sign_event_message plain_signer m = Inr sg \<Longrightarrow>
     verify_ed25519_strict plain_crypto (es_signer_id plain_signer) m sg = Inr Valid"
proof -
  have "decode_ed25519_public_key plain_crypto (from_ed25519_public_key plain_crypto (replicate 32 CHR ''k'')) =
      Inr (replicate 32 CHR ''k'')"
    by (rule decode_from_public_key) (simp_all add: plain_crypto_def)
  then show "sign_event_message plain_signer m = Inr sg \<Longrightarrow> ?thesis"
    by (auto simp: plain_signer_def verify_ed25519_strict_def plain_crypto_def)
qed

lemma plain_signer_signs:
  "\<exists>e'. sign_event_if_requested plain_externals (\<lambda>_. []) removal_event (sign_with plain_signer) = Inr (e', None)"
  by (simp add: sign_event_if_requested_def sign_with_def tbs_from_event_def validate_schema_version_def
      removal_event_def EVENT_VERSION_def event_signature_pre_authentication_encoding_def
      tbs_canonical_bytes_def plain_signer_def Let_def)

section \<open>Properties\<close>

text \<open>C30. The signed message is unambiguous: the DSSE pre-authentication encoding of two
  type/body pairs is equal only for equal pairs, whatever bytes they contain.\<close>

theorem pre_authentication_encoding_injective:
  "pre_authentication_encoding payload_type body = pre_authentication_encoding payload_type' body' \<longleftrightarrow>
     payload_type = payload_type' \<and> body = body'"
  using pre_authentication_encoding_inj by blast

text \<open>C21. Signing then verifying: if the signer's signatures verify under its own key, an event
  that \<open>sign_event_if_requested\<close> signed verifies as valid when the trust set authorises the
  signer for the event's actor and as an untrusted key otherwise, also when the signer id is
  left out because the actor is self-certifying.\<close>

theorem signed_event_verifies:
  assumes "sign_event_if_requested ext error_text event (sign_with signer) = Inr (event', sink)"
    and "\<And>m sg. sign_event_message signer m = Inr sg \<Longrightarrow>
      verify_ed25519_strict cx (es_signer_id signer) m sg = Inr Valid"
  shows "verify_event_signature ext cx error_text event' trust =
    Inr (if authorizes cx trust (wr_actor_id (ev_writer event)) (es_signer_id signer) (ev_occurred_at event)
         then Valid else UntrustedKey)"
proof -
  from assms(1) obtain t m sg where *: "tbs_from_event event (es_signer_id signer) = Inr t"
    "event_signature_pre_authentication_encoding ext t = Inr m" "sign_event_message signer m = Inr sg"
    "event' = event\<lparr>ev_signer := (if wr_actor_id (ev_writer event) = es_signer_id signer then None
        else Some (es_signer_id signer)), ev_signature := Some (ed25519_v1 sg)\<rparr>"
    by (rule sign_event_shape)
  from assms(2) [OF *(3)] * show ?thesis
    by (intro verify_signed_event verify_strict_decodes)
qed

theorem signed_event_verifies_witness:
  "\<exists>event'. sign_event_if_requested plain_externals (\<lambda>_. []) removal_event (sign_with plain_signer) = Inr (event', None) \<and>
     verify_event_signature plain_externals plain_crypto (\<lambda>_. []) event' [] =
     Inr (if authorizes plain_crypto [] (wr_actor_id (ev_writer removal_event)) (es_signer_id plain_signer)
            (ev_occurred_at removal_event) then Valid else UntrustedKey)"
proof -
  obtain event' where e: "sign_event_if_requested plain_externals (\<lambda>_. []) removal_event (sign_with plain_signer) =
      Inr (event', None)"
    using plain_signer_signs by blast
  from signed_event_verifies [OF e plain_signer_verifies] e show ?thesis by blast
qed

text \<open>C2. Under the trusted-strict policy an accepted batch holds no event, co-signature carriers
  apart, without a signature that verifies over the event's own signed view under its
  effective signer and that the trust set authorises for its actor; the reports list exactly
  these events in order.\<close>

theorem trusted_ingest_sound:
  assumes "verify_events_for_ingest ext cx error_text events trusted_strict trust = Inr reports"
  shows "map iv_event_id reports =
      map ev_event_id (filter (\<lambda>e. ev_event_type e \<noteq> EventSignatureRecorded) events) \<and>
    (\<forall>e \<in> set events. ev_event_type e \<noteq> EventSignatureRecorded \<longrightarrow>
      (\<exists>signer t m g. resolve_effective_signer cx e = Inr signer \<and> ev_signature e = Some g \<and>
         tbs_from_event e signer = Inr t \<and> event_signature_pre_authentication_encoding ext t = Inr m \<and>
         verify_ed25519_strict cx signer m (sg_sig g) = Inr Valid \<and>
         authorizes cx trust (wr_actor_id (ev_writer e)) signer (ev_occurred_at e)))"
proof -
  have "rejects trusted_strict st \<longleftrightarrow> st \<noteq> Valid" for st
    by (cases st) (simp_all add: trusted_strict_def)
  with verify_events_loop_Inr [OF assms [unfolded verify_events_for_ingest_def]]
  have ids: "map iv_event_id reports =
      map ev_event_id (filter (\<lambda>e. ev_event_type e \<noteq> EventSignatureRecorded) events)"
    and valid: "\<forall>e \<in> set events. ev_event_type e \<noteq> EventSignatureRecorded \<longrightarrow>
      verify_event_signature ext cx error_text e trust = Inr Valid"
    by auto
  from ids show ?thesis
    by (intro conjI ballI impI verify_event_signature_Valid [of ext cx error_text]) (use valid in blast)+
qed

theorem trusted_ingest_sound_witness:
  "\<exists>event' reports. verify_events_for_ingest plain_externals plain_crypto (\<lambda>_. []) [event'] trusted_strict
      [(''actor:local'', [es_signer_id plain_signer])] = Inr reports \<and>
     map iv_event_id reports = [ev_event_id event']"
proof -
  obtain event' where e: "sign_event_if_requested plain_externals (\<lambda>_. []) removal_event (sign_with plain_signer) =
      Inr (event', None)"
    using plain_signer_signs by blast
  obtain t m sg where *: "tbs_from_event removal_event (es_signer_id plain_signer) = Inr t"
    "event_signature_pre_authentication_encoding plain_externals t = Inr m" "sign_event_message plain_signer m = Inr sg"
    "event' = removal_event\<lparr>ev_signer := (if wr_actor_id (ev_writer removal_event) = es_signer_id plain_signer then None
        else Some (es_signer_id plain_signer)), ev_signature := Some (ed25519_v1 sg)\<rparr>"
    using e by (rule sign_event_shape)
  let ?trust = "[(''actor:local'', [es_signer_id plain_signer])]"
  have "authorizes plain_crypto ?trust (wr_actor_id (ev_writer removal_event)) (es_signer_id plain_signer)
      (ev_occurred_at removal_event)"
    by (simp add: authorizes_def removal_event_def shore_local_def ACTOR_def)
  then have "verify_event_signature plain_externals plain_crypto (\<lambda>_. []) event' ?trust = Inr Valid"
    using verify_signed_event [OF *(4) verify_strict_decodes *(1,2)] plain_signer_verifies [OF *(3)] by simp
  moreover have "ev_event_type event' = ArtifactRemoved"
    by (simp add: *(4) removal_event_def)
  ultimately obtain reports where r: "verify_events_for_ingest plain_externals plain_crypto (\<lambda>_. []) [event']
      trusted_strict ?trust = Inr reports"
    by (simp add: verify_events_for_ingest_def trusted_strict_def)
  have "map iv_event_id reports = [ev_event_id event']"
    using trusted_ingest_sound [OF r] \<open>ev_event_type event' = ArtifactRemoved\<close> by simp
  with r show ?thesis by (intro exI conjI)
qed

text \<open>C25. A detached co-signature is stored only if the event it names is present, its record hash
  is the one the carrier binds, and the attestation verifies over that very event's signed
  view under the attesting signer; it counts as valid exactly when the trust set authorises
  that signer for the event's actor.\<close>

theorem cosignature_gate_sound:
  assumes "gate_cosignature_for_store ext payload_value cx carrier target trust = Inr (Store status)"
  shows "\<exists>e t m. target = Some e \<and>
    event_record_hash ext payload_value e = Inr (es_target_event_record_hash carrier) \<and>
    tbs_from_event e (es_attesting_signer carrier) = Inr t \<and>
    event_signature_pre_authentication_encoding ext t = Inr m \<and>
    verify_ed25519_strict cx (es_attesting_signer carrier) m (sg_sig (es_attestation carrier)) = Inr Valid \<and>
    (status = Valid \<longleftrightarrow>
       authorizes cx trust (wr_actor_id (ev_writer e)) (es_attesting_signer carrier) (ev_occurred_at e)) \<and>
    (status = Valid \<or> status = UntrustedKey)"
proof -
  from assms obtain e where e: "target = Some e"
    and v: "verify_cosignature ext payload_value cx carrier e trust = Inr (Attested status)"
    and st: "status = Valid \<or> status = UntrustedKey"
    by (auto simp: gate_cosignature_for_store_def and_then_eq_Inr_iff gate_decision_Store split: option.splits)
  from verify_cosignature_stored [OF v st] e st show ?thesis by blast
qed

definition removal_cosignature :: "string \<Rightarrow> string \<Rightarrow> event_signature_recorded_payload" where
  "removal_cosignature record_hash sig =
     \<lparr>es_target_event_id = ev_event_id removal_event, es_target_event_record_hash = record_hash,
      es_attesting_signer = es_signer_id plain_signer, es_attestation = ed25519_v1 sig,
      es_inclusion_proof = None\<rparr>"

theorem cosignature_gate_sound_witness:
  "\<exists>carrier status. gate_cosignature_for_store plain_externals (\<lambda>_. JNull) plain_crypto carrier (Some removal_event) [] =
       Inr (Store status) \<and>
     event_record_hash plain_externals (\<lambda>_. JNull) removal_event = Inr (es_target_event_record_hash carrier)"
proof -
  obtain e' where "sign_event_if_requested plain_externals (\<lambda>_. []) removal_event (sign_with plain_signer) =
      Inr (e', None)"
    using plain_signer_signs by blast
  then obtain t m sg where *: "tbs_from_event removal_event (es_signer_id plain_signer) = Inr t"
    "event_signature_pre_authentication_encoding plain_externals t = Inr m" "sign_event_message plain_signer m = Inr sg"
    by (rule sign_event_shape)
  obtain h where h: "event_record_hash plain_externals (\<lambda>_. JNull) removal_event = Inr h"
    by (simp add: event_record_hash_def)
  obtain status where g: "gate_cosignature_for_store plain_externals (\<lambda>_. JNull) plain_crypto
      (removal_cosignature h sg) (Some removal_event) [] = Inr (Store status)"
    using * h plain_signer_verifies [OF *(3)] that
    by (cases "authorizes plain_crypto [] (wr_actor_id (ev_writer removal_event)) (es_signer_id plain_signer)
        (ev_occurred_at removal_event)") (auto simp: gate_cosignature_for_store_def verify_cosignature_def removal_cosignature_def ed25519_v1_def)
  have "event_record_hash plain_externals (\<lambda>_. JNull) removal_event =
      Inr (es_target_event_record_hash (removal_cosignature h sg))"
    using cosignature_gate_sound [OF g] by auto
  with g show ?thesis by (intro exI conjI)
qed

end
