(* ===== verification/Change_Fold.thy ===== *)
theory Change_Fold
  imports Events Revision_Graph
begin

text \<open>
  The facts an event contributes to Change state and their fold
  (\<open>src/src/session/projection/change.rs\<close>). An event set is unordered: the lemmas show that
  the order in which the facts are folded does not show in the result, up to the order of
  the two vectors the fold keeps, as long as no two facts contradict each other about what
  one id stands for.
\<close>

section \<open>Facts\<close>

datatype change_projection_fact =
    CF_Revision revision_id string
  | CF_Declaration change_id change_identity_descriptor_v1
  | CF_MembershipAsserted claim_id change_id revision_id
  | CF_MembershipWithdrawn claim_id
  | CF_RelationAsserted claim_id change_id revision_ref_v1 revision_ref_v1
  | CF_RelationWithdrawn claim_id
  | CF_LinkAsserted claim_id change_id change_id change_link_relation_v1
  | CF_Assessment event_id revision_id assessment_id review_assessment "assessment_id list"
  | CF_OperativeRequest input_request_id revision_id
  | CF_RequestResponse input_request_id
  | CF_FactPort review_fact_ported_payload

definition proposal_fact :: "event_payload \<Rightarrow> change_projection_fact option result" where
  "proposal_fact payload =
     (case payload of
        P_WorkObjectProposed p \<Rightarrow>
          Inr (case wo_work_object p of
                 WP_Revision r \<Rightarrow> Some (CF_Revision (rev_id (rp_revision r)) (rp_object_artifact_content_hash r))
               | WP_TaskAttempt _ \<Rightarrow> None)
      | _ \<Rightarrow> Inl Json)"

definition declaration_fact :: "externals \<Rightarrow> event_payload \<Rightarrow> change_projection_fact option result" where
  "declaration_fact ext payload =
     (case payload of
        P_ChangeDeclared p \<Rightarrow>
          and_then (change_declared_validate ext p) (\<lambda>_.
            Inr (Some (CF_Declaration (cd_change_id p) (cd_identity_descriptor p))))
      | _ \<Rightarrow> Inl Json)"

definition membership_fact :: "externals \<Rightarrow> event_payload \<Rightarrow> change_projection_fact option result" where
  "membership_fact ext payload =
     (case payload of
        P_ChangeMembershipAsserted p \<Rightarrow>
          and_then (membership_asserted_validate ext p) (\<lambda>_.
            Inr (Some (CF_MembershipAsserted (ma_membership_claim_id p) (ma_change_id p) (ma_revision_id p))))
      | _ \<Rightarrow> Inl Json)"

definition membership_withdrawal_fact :: "externals \<Rightarrow> event_payload \<Rightarrow> change_projection_fact option result" where
  "membership_withdrawal_fact ext payload =
     (case payload of
        P_ChangeMembershipWithdrawn p \<Rightarrow>
          and_then (membership_withdrawn_validate ext p) (\<lambda>_.
            Inr (Some (CF_MembershipWithdrawn (mw_membership_claim_id p))))
      | _ \<Rightarrow> Inl Json)"

definition relation_fact :: "externals \<Rightarrow> event_payload \<Rightarrow> change_projection_fact option result" where
  "relation_fact ext payload =
     (case payload of
        P_ChangeRevisionRelationAsserted p \<Rightarrow>
          and_then (revision_relation_asserted_validate ext p) (\<lambda>_.
            Inr (Some (CF_RelationAsserted (cr_relation_claim_id p) (cr_change_id p)
              (cr_successor p) (cr_predecessor p))))
      | _ \<Rightarrow> Inl Json)"

definition relation_withdrawal_fact :: "externals \<Rightarrow> event_payload \<Rightarrow> change_projection_fact option result" where
  "relation_withdrawal_fact ext payload =
     (case payload of
        P_ChangeRevisionRelationWithdrawn p \<Rightarrow>
          and_then (revision_relation_withdrawn_validate ext p) (\<lambda>_.
            Inr (Some (CF_RelationWithdrawn (cx_relation_claim_id p))))
      | _ \<Rightarrow> Inl Json)"

definition link_fact :: "externals \<Rightarrow> event_payload \<Rightarrow> change_projection_fact option result" where
  "link_fact ext payload =
     (case payload of
        P_ChangeLinkAsserted p \<Rightarrow>
          and_then (change_link_validate ext p) (\<lambda>_.
            Inr (Some (CF_LinkAsserted (cl_link_claim_id p) (cl_left_change_id p)
              (cl_right_change_id p) (cl_relation p))))
      | _ \<Rightarrow> Inl Json)"

definition assessment_fact :: "shore_event \<Rightarrow> change_projection_fact option result" where
  "assessment_fact event =
     (case ev_payload event of
        P_ReviewAssessmentRecorded p \<Rightarrow>
          Inr (Some (CF_Assessment (ev_event_id event) (review_target_revision (as_target p))
            (as_assessment_id p) (as_assessment p) (as_replaces_assessment_ids p)))
      | _ \<Rightarrow> Inl Json)"

definition operative_request_fact :: "shore_event \<Rightarrow> change_projection_fact option result" where
  "operative_request_fact event =
     (if ev_assertion_mode event = Operative then
        and_then (decode_input_request_opened_payload (ev_payload event)) (\<lambda>p.
          Inr (if ro_task_target p = None then
                 Some (CF_OperativeRequest (ro_input_request_id p) (review_target_revision (ro_target p)))
               else None))
      else Inr None)"

definition response_fact :: "event_payload \<Rightarrow> change_projection_fact option result" where
  "response_fact payload =
     (case payload of
        P_InputRequestResponded p \<Rightarrow> Inr (Some (CF_RequestResponse (rs_input_request_id p)))
      | _ \<Rightarrow> Inl Json)"

definition fact_port_fact :: "externals \<Rightarrow> shore_event \<Rightarrow> change_projection_fact option result" where
  "fact_port_fact ext event =
     (case ev_payload event of
        P_ReviewFactPorted p \<Rightarrow>
          (case tg_track_id (ev_target event) of
             None \<Rightarrow> Inl (InvalidEvent ''review_fact_ported requires an attributed review track'')
           | Some track_id \<Rightarrow>
               and_then (validate_attribution ext p (wr_actor_id (ev_writer event)) track_id) (\<lambda>_.
                 Inr (Some (CF_FactPort p))))
      | _ \<Rightarrow> Inl Json)"

definition extract_change_projection_fact ::
  "externals \<Rightarrow> shore_event \<Rightarrow> change_projection_fact option result" where
  "extract_change_projection_fact ext event =
     (case ev_event_type event of
        WorkObjectProposed \<Rightarrow> proposal_fact (ev_payload event)
      | ChangeDeclared \<Rightarrow> declaration_fact ext (ev_payload event)
      | ChangeMembershipAsserted \<Rightarrow> membership_fact ext (ev_payload event)
      | ChangeMembershipWithdrawn \<Rightarrow> membership_withdrawal_fact ext (ev_payload event)
      | ChangeRevisionRelationAsserted \<Rightarrow> relation_fact ext (ev_payload event)
      | ChangeRevisionRelationWithdrawn \<Rightarrow> relation_withdrawal_fact ext (ev_payload event)
      | ChangeLinkAsserted \<Rightarrow> link_fact ext (ev_payload event)
      | ReviewAssessmentRecorded \<Rightarrow> assessment_fact event
      | InputRequestOpened \<Rightarrow> operative_request_fact event
      | InputRequestResponded \<Rightarrow> response_fact (ev_payload event)
      | ReviewFactPorted \<Rightarrow> fact_port_fact ext event
      | _ \<Rightarrow> Inr None)"

section \<open>The fold\<close>

record change_membership_fact =
  mf_change_id :: change_id
  mf_revision_id :: revision_id

record change_relation_fact =
  rf_change_id :: change_id
  rf_successor :: revision_ref_v1
  rf_predecessor :: revision_ref_v1

record change_assessment_fact =
  af_assessment_id :: assessment_id
  af_assessment :: review_assessment
  af_replaces :: "assessment_id list"

record change_link_view =
  lv_left_change_id :: change_id
  lv_right_change_id :: change_id
  lv_relation :: change_link_relation_v1

type_synonym assessment_records = "(assessment_id \<times> event_id \<times> change_assessment_fact) list"

record fold_input =
  fi_revisions :: "(revision_id \<times> string list) list"
  fi_declarations :: "(change_id \<times> change_identity_descriptor_v1 list) list"
  fi_memberships :: "(claim_id \<times> change_membership_fact) list"
  fi_membership_withdrawals :: "claim_id list"
  fi_relations :: "(claim_id \<times> change_relation_fact) list"
  fi_relation_withdrawals :: "claim_id list"
  fi_links :: "(claim_id \<times> change_link_view) list"
  fi_assessments :: "(revision_id \<times> assessment_records) list"
  fi_operative_requests :: "(input_request_id \<times> revision_id) list"
  fi_request_response_count :: "(input_request_id \<times> nat) list"
  fi_fact_ports :: "review_fact_ported_payload list"

definition fold_input_default :: fold_input where
  "fold_input_default =
     \<lparr>fi_revisions = [], fi_declarations = [], fi_memberships = [], fi_membership_withdrawals = [],
      fi_relations = [], fi_relation_withdrawals = [], fi_links = [], fi_assessments = [],
      fi_operative_requests = [], fi_request_response_count = [], fi_fact_ports = []\<rparr>"

text \<open>The representative of an assessment id is the record with the least event id.\<close>

definition keep_assessment ::
  "event_id \<Rightarrow> assessment_id \<Rightarrow> change_assessment_fact \<Rightarrow> assessment_records \<Rightarrow> assessment_records" where
  "keep_assessment source_event_id assessment_id candidate records =
     (case bm_get records assessment_id of
        None \<Rightarrow> bm_insert assessment_id (source_event_id, candidate) records
      | Some kept \<Rightarrow>
          if source_event_id < fst kept then bm_insert assessment_id (source_event_id, candidate) records
          else records)"

fun fold_fact :: "change_projection_fact \<Rightarrow> fold_input \<Rightarrow> fold_input" where
  "fold_fact (CF_Revision revision_id object_artifact_content_hash) input =
     input\<lparr>fi_revisions := bm_entry revision_id [] (bs_insert object_artifact_content_hash) (fi_revisions input)\<rparr>"
| "fold_fact (CF_Declaration change_id identity_descriptor) input =
     input\<lparr>fi_declarations := bm_entry change_id [] (\<lambda>ds. ds @ [identity_descriptor]) (fi_declarations input)\<rparr>"
| "fold_fact (CF_MembershipAsserted claim_id change_id revision_id) input =
     input\<lparr>fi_memberships := bm_insert claim_id
       \<lparr>mf_change_id = change_id, mf_revision_id = revision_id\<rparr> (fi_memberships input)\<rparr>"
| "fold_fact (CF_MembershipWithdrawn claim_id) input =
     input\<lparr>fi_membership_withdrawals := bs_insert claim_id (fi_membership_withdrawals input)\<rparr>"
| "fold_fact (CF_RelationAsserted claim_id change_id successor predecessor) input =
     input\<lparr>fi_relations := bm_insert claim_id
       \<lparr>rf_change_id = change_id, rf_successor = successor, rf_predecessor = predecessor\<rparr> (fi_relations input)\<rparr>"
| "fold_fact (CF_RelationWithdrawn claim_id) input =
     input\<lparr>fi_relation_withdrawals := bs_insert claim_id (fi_relation_withdrawals input)\<rparr>"
| "fold_fact (CF_LinkAsserted claim_id left_change_id right_change_id relation) input =
     input\<lparr>fi_links := bm_insert claim_id
       \<lparr>lv_left_change_id = left_change_id, lv_right_change_id = right_change_id, lv_relation = relation\<rparr>
       (fi_links input)\<rparr>"
| "fold_fact (CF_Assessment source_event_id revision_id assessment_id assessment replaces) input =
     input\<lparr>fi_assessments := bm_entry revision_id []
       (keep_assessment source_event_id assessment_id
         \<lparr>af_assessment_id = assessment_id, af_assessment = assessment, af_replaces = replaces\<rparr>)
       (fi_assessments input)\<rparr>"
| "fold_fact (CF_OperativeRequest request_id revision_id) input =
     input\<lparr>fi_operative_requests := bm_insert request_id revision_id (fi_operative_requests input)\<rparr>"
| "fold_fact (CF_RequestResponse request_id) input =
     input\<lparr>fi_request_response_count := bm_entry request_id 0 Suc (fi_request_response_count input)\<rparr>"
| "fold_fact (CF_FactPort port) input =
     input\<lparr>fi_fact_ports := fi_fact_ports input @ [port]\<rparr>"

definition fold_facts :: "change_projection_fact list \<Rightarrow> fold_input" where
  "fold_facts facts = fold fold_fact facts fold_input_default"

section \<open>Order independence\<close>

definition fact_key :: "change_projection_fact \<Rightarrow> (nat \<times> string \<times> string \<times> string) option" where
  "fact_key f =
     (case f of
        CF_MembershipAsserted claim_id _ _ \<Rightarrow> Some (0, claim_id, [], [])
      | CF_RelationAsserted claim_id _ _ _ \<Rightarrow> Some (1, claim_id, [], [])
      | CF_LinkAsserted claim_id _ _ _ \<Rightarrow> Some (2, claim_id, [], [])
      | CF_OperativeRequest request_id _ \<Rightarrow> Some (3, request_id, [], [])
      | CF_Assessment source_event_id revision_id assessment_id _ _ \<Rightarrow>
          Some (4, source_event_id, revision_id, assessment_id)
      | _ \<Rightarrow> None)"

definition agree :: "change_projection_fact \<Rightarrow> change_projection_fact \<Rightarrow> bool" where
  "agree f g \<longleftrightarrow> (fact_key f \<noteq> None \<and> fact_key f = fact_key g \<longrightarrow> f = g)"

definition facts_agree :: "change_projection_fact list \<Rightarrow> bool" where
  "facts_agree facts \<longleftrightarrow> list_all (\<lambda>f. list_all (agree f) facts) facts"

definition fold_input_ok :: "fold_input \<Rightarrow> bool" where
  "fold_input_ok s \<longleftrightarrow>
     bm_ok (fi_revisions s) \<and> list_all (\<lambda>e. bs_ok (snd e)) (fi_revisions s) \<and>
     bm_ok (fi_declarations s) \<and> bm_ok (fi_memberships s) \<and> bs_ok (fi_membership_withdrawals s) \<and>
     bm_ok (fi_relations s) \<and> bs_ok (fi_relation_withdrawals s) \<and> bm_ok (fi_links s) \<and>
     bm_ok (fi_assessments s) \<and> list_all (\<lambda>e. bm_ok (snd e)) (fi_assessments s) \<and>
     bm_ok (fi_operative_requests s) \<and> bm_ok (fi_request_response_count s)"

text \<open>The state with the two vectors read as multisets.\<close>

definition abs_input where
  "abs_input s =
     (s\<lparr>fi_declarations := [], fi_fact_ports := []\<rparr>,
      map (map_prod id mset) (fi_declarations s), mset (fi_fact_ports s))"

lemma bm_insert_map: "map (map_prod id h) (bm_insert k v m) = bm_insert k (h v) (map (map_prod id h) m)"
  by (induction m) auto

lemma bm_get_map_prod: "bm_get (map (map_prod id h) m) k = map_option h (bm_get m k)"
  by (induction m) auto

lemma bm_entry_map:
  "(\<And>v. h (f v) = g (h v)) \<Longrightarrow> map (map_prod id h) (bm_entry k d f m) = bm_entry k (h d) g (map (map_prod id h) m)"
  by (auto simp: bm_entry_def bm_insert_map bm_get_or_def bm_get_map_prod split: option.splits)

lemma bm_entry_commute_at:
  assumes "bm_ok m" and "k = j \<Longrightarrow> f (g (bm_get_or d m k)) = g (f (bm_get_or d m k))"
  shows "bm_entry k d f (bm_entry j d g m) = bm_entry j d g (bm_entry k d f m)"
  using assms
  by (intro bm_ext) (auto simp: bm_get_entry fun_eq_iff bm_get_or_def)

definition better :: "(event_id \<times> 'c) option \<Rightarrow> event_id \<times> 'c \<Rightarrow> event_id \<times> 'c" where
  "better kept x = (case kept of None \<Rightarrow> x | Some k \<Rightarrow> if fst x < fst k then x else k)"

lemma bm_get_keep_assessment:
  "bm_ok m \<Longrightarrow> bm_get (keep_assessment e a c m) = (bm_get m)(a \<mapsto> better (bm_get m a) (e, c))"
  by (auto simp: keep_assessment_def better_def bm_get_insert fun_eq_iff split: option.splits)

lemma bm_ok_keep_assessment [simp]: "bm_ok m \<Longrightarrow> bm_ok (keep_assessment e a c m)"
  by (auto simp: keep_assessment_def split: option.splits)

lemma better_commute:
  "(fst x = fst y \<Longrightarrow> x = y) \<Longrightarrow> better (Some (better k x)) y = better (Some (better k y)) x"
  by (auto simp: better_def split: option.splits)

lemma keep_assessment_commute:
  assumes "bm_ok m" and "e = e' \<and> a = a' \<Longrightarrow> c = c'"
  shows "keep_assessment e a c (keep_assessment e' a' c' m) = keep_assessment e' a' c' (keep_assessment e a c m)"
  using assms better_commute [of "(e, c)" "(e', c')"]
  by (intro bm_ext) (auto simp: bm_get_keep_assessment fun_eq_iff)

lemma assessments_values_ok:
  "bm_ok m \<Longrightarrow> list_all (\<lambda>e. bm_ok (snd e)) m \<Longrightarrow> list_all (\<lambda>e. bm_ok (snd e)) (bm_entry k [] (keep_assessment s a c) m)"
  by (rule values_bm_entry) auto

lemma fold_input_ok_step: "fold_input_ok s \<Longrightarrow> fold_input_ok (fold_fact f s)"
  unfolding fold_input_ok_def
  by (cases f) (simp_all add: revisions_values_ok assessments_values_ok)

lemma abs_input_declaration:
  "map (map_prod id mset) (bm_entry c [] (\<lambda>ds. ds @ [d]) m) =
     bm_entry c {#} (add_mset d) (map (map_prod id mset) m)"
  using bm_entry_map [of mset "\<lambda>ds. ds @ [d]" "add_mset d" c "[]" m] by simp

lemma abs_input_step:
  assumes "abs_input s = abs_input t"
  shows "abs_input (fold_fact f s) = abs_input (fold_fact f t)"
  using assms by (cases s; cases t; cases f) (auto simp: abs_input_def abs_input_declaration)


lemma revisions_commute:
  assumes "bm_ok m" and "list_all (\<lambda>e. bs_ok (snd e)) m"
  shows "bm_entry r [] (bs_insert x) (bm_entry r' [] (bs_insert y) m) =
     bm_entry r' [] (bs_insert y) (bm_entry r [] (bs_insert x) m)"
  by (rule bm_entry_commute_at [OF assms(1)], rule btreeset.add_commute, rule bm_get_or_ok [OF assms(2)]) simp

lemma assessments_commute:
  assumes "bm_ok m" and "list_all (\<lambda>e. bm_ok (snd e)) m" and "e = e' \<and> r = r' \<and> a = a' \<Longrightarrow> c = c'"
  shows "bm_entry r [] (keep_assessment e a c) (bm_entry r' [] (keep_assessment e' a' c') m) =
     bm_entry r' [] (keep_assessment e' a' c') (bm_entry r [] (keep_assessment e a c) m)"
proof (rule bm_entry_commute_at [OF assms(1)], rule keep_assessment_commute)
  show "bm_ok (bm_get_or [] m r)"
    by (rule bm_get_or_ok [OF assms(2)]) simp
qed (use assms(3) in auto)

lemma responses_commute:
  "bm_ok m \<Longrightarrow> bm_entry q 0 Suc (bm_entry q' 0 Suc m) = bm_entry q' 0 Suc (bm_entry q 0 Suc m)"
  by (rule bm_entry_commute_at) simp_all

lemma bm_insert_commute_same:
  "bm_ok m \<Longrightarrow> (k = j \<Longrightarrow> v = w) \<Longrightarrow> bm_insert k v (bm_insert j w m) = bm_insert j w (bm_insert k v m)"
  by (intro bm_ext) (auto simp: bm_get_insert fun_eq_iff)

lemma declarations_commute:
  "bm_ok m \<Longrightarrow> bm_entry c {#} (add_mset d) (bm_entry c' {#} (add_mset d') m) =
     bm_entry c' {#} (add_mset d') (bm_entry c {#} (add_mset d) m)"
  by (rule bm_entry_commute_at) auto

lemma bm_ok_map_prod [simp]: "bm_ok (map (map_prod id h) m) \<longleftrightarrow> bm_ok m"
  by (simp add: comp_def)

lemma abs_input_commute:
  assumes "fold_input_ok s" and "agree f g"
  shows "abs_input (fold_fact f (fold_fact g s)) = abs_input (fold_fact g (fold_fact f s))"
  using assms
  by (cases f; cases g)
    (simp_all add: abs_input_def abs_input_declaration revisions_commute assessments_commute
      responses_commute bm_insert_commute_same btreeset.add_commute declarations_commute
      fold_input_ok_def agree_def fact_key_def add_mset_commute)


interpretation change_fold: unordered_fold fold_fact fold_input_ok "\<lambda>s t. abs_input s = abs_input t" agree
  by unfold_locales
    (auto intro: fold_input_ok_step abs_input_step abs_input_commute)

lemma fold_input_ok_default [simp]: "fold_input_ok fold_input_default"
  by (simp add: fold_input_ok_def fold_input_default_def)

lemma fold_facts_ok: "fold_input_ok (fold_facts facts)"
  unfolding fold_facts_def by (rule change_fold.fold_ok) simp

lemma fold_facts_permuted:
  "mset facts = mset facts' \<Longrightarrow> facts_agree facts \<Longrightarrow> abs_input (fold_facts facts) = abs_input (fold_facts facts')"
  unfolding fold_facts_def
  by (rule change_fold.fold_permuted) (simp_all add: facts_agree_def list_all_iff)

section \<open>What the fold holds\<close>

lemma fold_facts_snoc [simp]:
  "fold_facts [] = fold_input_default" "fold_facts (fs @ [f]) = fold_fact f (fold_facts fs)"
  by (simp_all add: fold_facts_def)

lemma facts_agree_snoc: "facts_agree (fs @ [f]) \<Longrightarrow> facts_agree fs \<and> (\<forall>g \<in> set fs. agree f g)"
  by (auto simp: facts_agree_def list_all_iff)

lemmas fold_ok_parts = fold_facts_ok [unfolded fold_input_ok_def]

lemma fold_revisions:
  "set (bm_get_or [] (fi_revisions (fold_facts fs)) r) = {h. CF_Revision r h \<in> set fs} \<and>
   (bm_get (fi_revisions (fold_facts fs)) r = None \<longleftrightarrow> (\<forall>h. CF_Revision r h \<notin> set fs))"
proof (induction fs rule: rev_induct)
  case Nil
  then show ?case by (simp add: fold_input_default_def bm_get_or_def)
next
  case (snoc f fs)
  then show ?case
    using fold_ok_parts [of fs] by (cases f) (auto simp: bm_get_entry bm_get_or_def split: if_splits)
qed

lemma fold_membership_withdrawals:
  "set (fi_membership_withdrawals (fold_facts fs)) = {i. CF_MembershipWithdrawn i \<in> set fs}"
proof (induction fs rule: rev_induct)
  case (snoc f fs)
  then show ?case by (cases f) auto
qed (simp add: fold_input_default_def)

lemma fold_relation_withdrawals:
  "set (fi_relation_withdrawals (fold_facts fs)) = {i. CF_RelationWithdrawn i \<in> set fs}"
proof (induction fs rule: rev_induct)
  case (snoc f fs)
  then show ?case by (cases f) auto
qed (simp add: fold_input_default_def)

lemma fold_memberships:
  "facts_agree fs \<Longrightarrow> bm_get (fi_memberships (fold_facts fs)) i = Some m \<longleftrightarrow>
     CF_MembershipAsserted i (mf_change_id m) (mf_revision_id m) \<in> set fs"
proof (induction fs rule: rev_induct)
  case (snoc f fs)
  note * = facts_agree_snoc [OF snoc.prems]
  from snoc.IH * fold_ok_parts [of fs] show ?case
    by (cases f) (auto simp: bm_get_insert agree_def fact_key_def)
qed (simp add: fold_input_default_def)

lemma fold_relations:
  "facts_agree fs \<Longrightarrow> bm_get (fi_relations (fold_facts fs)) i = Some r \<longleftrightarrow>
     CF_RelationAsserted i (rf_change_id r) (rf_successor r) (rf_predecessor r) \<in> set fs"
proof (induction fs rule: rev_induct)
  case (snoc f fs)
  note * = facts_agree_snoc [OF snoc.prems]
  from snoc.IH * fold_ok_parts [of fs] show ?case
    by (cases f) (auto simp: bm_get_insert agree_def fact_key_def)
qed (simp add: fold_input_default_def)

lemma fold_operative_requests:
  "facts_agree fs \<Longrightarrow> bm_get (fi_operative_requests (fold_facts fs)) q = Some r \<longleftrightarrow>
     CF_OperativeRequest q r \<in> set fs"
proof (induction fs rule: rev_induct)
  case (snoc f fs)
  note * = facts_agree_snoc [OF snoc.prems]
  from snoc.IH * fold_ok_parts [of fs] show ?case
    by (cases f) (auto simp: bm_get_insert agree_def fact_key_def)
qed (simp add: fold_input_default_def)

lemma fold_request_response_count:
  "bm_get_or 0 (fi_request_response_count (fold_facts fs)) q = count_list fs (CF_RequestResponse q) \<and>
   (bm_get (fi_request_response_count (fold_facts fs)) q = None \<longleftrightarrow> CF_RequestResponse q \<notin> set fs)"
proof (induction fs rule: rev_induct)
  case (snoc f fs)
  from snoc.IH fold_ok_parts [of fs] show ?case
    by (cases f) (auto simp: bm_get_entry bm_get_or_def split: if_splits)
qed (simp add: fold_input_default_def bm_get_or_def)

lemma fold_fact_ports: "set (fi_fact_ports (fold_facts fs)) = {p. CF_FactPort p \<in> set fs}"
proof (induction fs rule: rev_induct)
  case (snoc f fs)
  then show ?case by (cases f) auto
qed (simp add: fold_input_default_def)

lemma fold_declarations:
  "set (bm_get_or [] (fi_declarations (fold_facts fs)) c) = {d. CF_Declaration c d \<in> set fs} \<and>
   (bm_get (fi_declarations (fold_facts fs)) c = None \<longleftrightarrow> (\<forall>d. CF_Declaration c d \<notin> set fs))"
proof (induction fs rule: rev_induct)
  case (snoc f fs)
  then show ?case
    using fold_ok_parts [of fs] by (cases f) (auto simp: bm_get_entry bm_get_or_def split: if_splits)
qed (simp add: fold_input_default_def bm_get_or_def)

end
