(* ===== verification/Change_Projection.thy ===== *)
theory Change_Projection
  imports Change_Fold
begin

text \<open>
  Change state from folded facts (\<open>src/src/session/projection/change.rs\<close>,
  \<open>project_changes_from_facts\<close>): for every Change its members, replacement edges, current
  Revisions, topology, lifecycle, open obligations and diagnostics. The body of the source's
  loop over Change ids is \<open>change_view_of\<close>, its blocks are definitions of their own.
\<close>

section \<open>Views\<close>

datatype change_lifecycle_v1 = CL_Incomplete | Conflicted | InProgress | CL_Accepted

datatype change_topology_v1 =
    Initial | Replacement | ReplacementDivergent | Consolidation | ParallelCurrent | Mixed
  | CT_Incomplete | CycleConflicted

record change_view =
  cv_change_id :: change_id
  cv_members :: "revision_id list"
  cv_current_revisions :: "revision_id list"
  cv_supersedes :: "(revision_id \<times> revision_id) list"
  cv_topology :: change_topology_v1
  cv_lifecycle :: change_lifecycle_v1
  cv_qualified_current_revisions :: "revision_id list"
  cv_operative_obligations :: "input_request_id list"
  cv_diagnostics :: "string list"

record change_projection =
  cp_changes :: "(change_id \<times> change_view) list"
  cp_links :: "change_link_view list"

section \<open>Declarations\<close>

text \<open>
  The flags and the diagnostics the source's block accumulates. \<open>serde_json::to_string\<close>
  writes the text of \<open>to_vec\<close>.
\<close>

fun check_declarations ::
  "externals \<Rightarrow> change_id \<Rightarrow> change_identity_descriptor_v1 list \<Rightarrow> bool result" where
  "check_declarations ext change_id [] = Inr False"
| "check_declarations ext change_id (descriptor # declarations) =
     and_then (derive_change_id ext descriptor) (\<lambda>derived.
     and_then (check_declarations ext change_id declarations) (\<lambda>mismatch.
       Inr (derived \<noteq> change_id \<or> mismatch)))"

definition declaration_status ::
  "externals \<Rightarrow> change_id \<Rightarrow> change_identity_descriptor_v1 list option
     \<Rightarrow> (bool \<times> bool \<times> string list) result" where
  "declaration_status ext change_id found =
     (case found of
        None \<Rightarrow> Inr (True, False, [''change_declaration_missing''])
      | Some declarations \<Rightarrow>
          and_then (check_declarations ext change_id declarations) (\<lambda>mismatch.
          let distinct_texts = bs_collect (map (\<lambda>d. to_vec ext (descriptor_json d)) declarations);
              conflict = length distinct_texts > 1
          in Inr (False, mismatch \<or> conflict,
               bs_collect ((if mismatch then [''change_declaration_identity_mismatch''] else []) @
                           (if conflict then [''change_declaration_conflict''] else [])))))"

section \<open>Members\<close>

definition is_active_membership :: "fold_input \<Rightarrow> change_id \<Rightarrow> claim_id \<times> change_membership_fact \<Rightarrow> bool" where
  "is_active_membership input change_id = (\<lambda>(claim_id, claim).
     mf_change_id claim = change_id \<and> claim_id \<notin> set (fi_membership_withdrawals input))"

definition has_revision :: "fold_input \<Rightarrow> revision_id \<Rightarrow> bool" where
  "has_revision input revision_id \<longleftrightarrow> bm_get (fi_revisions input) revision_id \<noteq> None"

definition change_members :: "fold_input \<Rightarrow> change_id \<Rightarrow> revision_id list" where
  "change_members input change_id =
     bs_collect (map (\<lambda>e. mf_revision_id (snd e))
       (filter (\<lambda>e. is_active_membership input change_id e \<and> has_revision input (mf_revision_id (snd e)))
          (fi_memberships input)))"

definition membership_revision_missing :: "fold_input \<Rightarrow> change_id \<Rightarrow> bool" where
  "membership_revision_missing input change_id =
     list_ex (\<lambda>e. is_active_membership input change_id e \<and> \<not> has_revision input (mf_revision_id (snd e)))
       (fi_memberships input)"

definition has_several_hashes :: "fold_input \<Rightarrow> revision_id \<Rightarrow> bool" where
  "has_several_hashes input revision_id =
     (case bm_get (fi_revisions input) revision_id of None \<Rightarrow> False | Some hashes \<Rightarrow> length hashes > 1)"

definition is_exact_ref :: "fold_input \<Rightarrow> revision_ref_v1 \<Rightarrow> bool" where
  "is_exact_ref input r =
     (case bm_get (fi_revisions input) (rr_revision_id r) of
        None \<Rightarrow> False
      | Some hashes \<Rightarrow> length hashes = 1 \<and> rr_object_artifact_content_hash r \<in> set hashes)"

section \<open>Replacement edges\<close>

record relation_scan =
  rs_supersedes :: "(revision_id \<times> revision_id) list"
  rs_incomplete :: bool
  rs_revision_conflict :: bool
  rs_diagnostics :: "string list"

definition relation_step ::
  "fold_input \<Rightarrow> change_id \<Rightarrow> revision_id list \<Rightarrow> claim_id \<times> change_relation_fact
     \<Rightarrow> relation_scan \<Rightarrow> relation_scan" where
  "relation_step input change_id members entry scan =
     (let (claim_id, claim) = entry;
          successor = rr_revision_id (rf_successor claim);
          predecessor = rr_revision_id (rf_predecessor claim);
          endpoint_conflict = has_several_hashes input successor \<or> has_several_hashes input predecessor;
          exact = is_exact_ref input (rf_successor claim) \<and> is_exact_ref input (rf_predecessor claim)
      in if rf_change_id claim \<noteq> change_id \<or> claim_id \<in> set (fi_relation_withdrawals input) then scan
         else if endpoint_conflict then
           scan\<lparr>rs_revision_conflict := True,
                rs_diagnostics := bs_insert ''change_relation_revision_artifact_conflict'' (rs_diagnostics scan)\<rparr>
         else if \<not> exact then
           scan\<lparr>rs_incomplete := True,
                rs_diagnostics := bs_insert ''change_relation_target_missing_or_mismatched'' (rs_diagnostics scan)\<rparr>
         else if successor \<notin> set members \<or> predecessor \<notin> set members then
           scan\<lparr>rs_incomplete := True,
                rs_diagnostics := bs_insert ''change_relation_membership_incomplete'' (rs_diagnostics scan)\<rparr>
         else scan\<lparr>rs_supersedes := bs_insert (successor, predecessor) (rs_supersedes scan)\<rparr>)"

definition scan_relations ::
  "fold_input \<Rightarrow> change_id \<Rightarrow> revision_id list \<Rightarrow> relation_scan \<Rightarrow> relation_scan" where
  "scan_relations input change_id members scan =
     fold (relation_step input change_id members) (fi_relations input) scan"

section \<open>Obligations and assessments\<close>

record obligation_status =
  oo_unresolved_requests :: "input_request_id list"
  oo_ambiguous_response :: bool

text \<open>The arm of \<open>filter_map\<close> over the ports: where a port carries the request, if it does.\<close>

definition carried_by ::
  "fold_input \<Rightarrow> input_request_id \<Rightarrow> review_fact_ported_payload \<Rightarrow> revision_id list" where
  "carried_by input request_id port =
     (case (fp_origin_fact port, fp_relation port, fp_target_fact port) of
        (FR_InputRequest origin_request, CarriedOpenAs, Some (FR_InputRequest target_request)) \<Rightarrow>
          if origin_request = request_id \<and>
             bm_get (fi_operative_requests input) target_request = Some (rr_revision_id (fp_target_revision port))
          then [rr_revision_id (fp_target_revision port)] else []
      | _ \<Rightarrow> [])"

definition carried_to :: "fold_input \<Rightarrow> input_request_id \<Rightarrow> revision_id list" where
  "carried_to input request_id = bs_collect (concat (map (carried_by input request_id) (fi_fact_ports input)))"

definition obligation_step ::
  "revision_id list \<Rightarrow> revision_id list \<Rightarrow> fold_input \<Rightarrow> input_request_id \<times> revision_id
     \<Rightarrow> obligation_status \<Rightarrow> obligation_status" where
  "obligation_step members current input entry status =
     (let (request_id, origin) = entry
      in if origin \<notin> set members then status
         else case bm_get (fi_request_response_count input) request_id of
           Some n \<Rightarrow>
             if n = 1 then status
             else status\<lparr>oo_unresolved_requests := bs_insert request_id (oo_unresolved_requests status),
                         oo_ambiguous_response := True\<rparr>
         | None \<Rightarrow>
             if carried_to input request_id \<noteq> current then
               status\<lparr>oo_unresolved_requests := bs_insert request_id (oo_unresolved_requests status)\<rparr>
             else status)"

definition operative_obligation_status ::
  "revision_id list \<Rightarrow> revision_id list \<Rightarrow> fold_input \<Rightarrow> obligation_status" where
  "operative_obligation_status members current input =
     fold (obligation_step members current input) (fi_operative_requests input)
       \<lparr>oo_unresolved_requests = [], oo_ambiguous_response = False\<rparr>"

definition has_one_accepting_assessment ::
  "revision_id \<Rightarrow> (revision_id \<times> assessment_records) list \<Rightarrow> bool" where
  "has_one_accepting_assessment revision_id assessments =
     (case bm_get assessments revision_id of
        None \<Rightarrow> False
      | Some records \<Rightarrow>
          let facts = map (\<lambda>e. snd (snd e)) records;
              replaced = bs_collect (concat (map af_replaces facts));
              current = filter (\<lambda>record. af_assessment_id record \<notin> set replaced) facts
          in length current = 1 \<and>
             (af_assessment (current ! 0) = Accepted \<or> af_assessment (current ! 0) = AcceptedWithFollowUp))"

section \<open>One Change\<close>

definition change_topology ::
  "bool \<Rightarrow> bool \<Rightarrow> bool \<Rightarrow> revision_id list \<Rightarrow> (revision_id \<times> revision_id) list \<Rightarrow> change_topology_v1" where
  "change_topology incomplete cycle divergent current supersedes =
     (if incomplete then CT_Incomplete
      else if cycle then CycleConflicted
      else if divergent then ReplacementDivergent
      else if supersedes = [] then (if length current \<le> 1 then Initial else ParallelCurrent)
      else if length current = 1 then
        (if length (filter (\<lambda>(successor, _). successor = hd current) supersedes) > 1
         then Consolidation else Replacement)
      else Mixed)"

definition change_lifecycle ::
  "bool \<Rightarrow> bool \<Rightarrow> revision_id list \<Rightarrow> revision_id list \<Rightarrow> input_request_id list \<Rightarrow> change_lifecycle_v1" where
  "change_lifecycle incomplete conflicted current qualified unresolved =
     (if incomplete then CL_Incomplete
      else if conflicted then Conflicted
      else if current = [] \<or> length qualified \<noteq> length current \<or> unresolved \<noteq> [] then InProgress
      else CL_Accepted)"

definition change_view_of :: "externals \<Rightarrow> fold_input \<Rightarrow> change_id \<Rightarrow> change_view result" where
  "change_view_of ext input change_id =
     and_then (declaration_status ext change_id (bm_get (fi_declarations input) change_id))
       (\<lambda>(declaration_missing, declaration_conflict, declaration_diagnostics).
     let members = change_members input change_id;
         revision_missing = membership_revision_missing input change_id;
         artifact_conflict = list_ex (has_several_hashes input) members;
         diagnostics = bs_extend declaration_diagnostics
           ((if revision_missing then [''change_membership_revision_missing''] else []) @
            (if members = [] then [''change_membership_empty''] else []) @
            (if artifact_conflict then [''change_member_revision_artifact_conflict''] else []));
         scan = scan_relations input change_id members
           \<lparr>rs_supersedes = [],
            rs_incomplete = declaration_missing \<or> revision_missing \<or> members = [],
            rs_revision_conflict = artifact_conflict,
            rs_diagnostics = diagnostics\<rparr>;
         supersedes = rs_supersedes scan;
         incomplete = rs_incomplete scan;
         cycle = revision_graph_has_cycle members supersedes;
         current = current_revisions members supersedes;
         divergent = (\<not> cycle \<and> replacement_heads_diverge current supersedes);
         obligation = operative_obligation_status members current input;
         qualified = filter (\<lambda>revision. has_one_accepting_assessment revision (fi_assessments input)) current
     in Inr \<lparr>cv_change_id = change_id,
             cv_members = members,
             cv_current_revisions = current,
             cv_supersedes = supersedes,
             cv_topology = change_topology incomplete cycle divergent current supersedes,
             cv_lifecycle = change_lifecycle incomplete
               (cycle \<or> divergent \<or> declaration_conflict \<or> rs_revision_conflict scan)
               current qualified (oo_unresolved_requests obligation),
             cv_qualified_current_revisions = qualified,
             cv_operative_obligations = oo_unresolved_requests obligation,
             cv_diagnostics =
               (if oo_ambiguous_response obligation
                then bs_insert ''operative_request_response_ambiguous'' (rs_diagnostics scan)
                else rs_diagnostics scan)\<rparr>)"

section \<open>The projection\<close>

definition change_ids_of :: "fold_input \<Rightarrow> change_id list" where
  "change_ids_of input =
     bs_extend (bs_extend (map fst (fi_declarations input))
        (map (\<lambda>e. mf_change_id (snd e)) (fi_memberships input)))
       (map (\<lambda>e. rf_change_id (snd e)) (fi_relations input))"

definition project_fold_input :: "externals \<Rightarrow> fold_input \<Rightarrow> change_projection result" where
  "project_fold_input ext input =
     and_then (try_map (\<lambda>change_id. and_then (change_view_of ext input change_id) (\<lambda>view. Inr (change_id, view)))
        (change_ids_of input)) (\<lambda>views.
     Inr \<lparr>cp_changes = fold (\<lambda>(change_id, view). bm_insert change_id view) views [],
          cp_links = sort_key (\<lambda>l. (lv_left_change_id l, lv_right_change_id l)) (map snd (fi_links input))\<rparr>)"

definition project_changes_from_facts ::
  "externals \<Rightarrow> change_projection_fact list \<Rightarrow> change_projection result" where
  "project_changes_from_facts ext facts = project_fold_input ext (fold_facts facts)"

fun extract_facts :: "externals \<Rightarrow> shore_event list \<Rightarrow> change_projection_fact list result" where
  "extract_facts ext [] = Inr []"
| "extract_facts ext (event # events) =
     and_then (extract_change_projection_fact ext event) (\<lambda>fact.
     and_then (extract_facts ext events) (\<lambda>facts.
       Inr (case fact of None \<Rightarrow> facts | Some f \<Rightarrow> f # facts)))"

definition project_changes :: "externals \<Rightarrow> shore_event list \<Rightarrow> change_projection result" where
  "project_changes ext events = and_then (extract_facts ext events) (project_changes_from_facts ext)"

section \<open>What a scan of the relations finds\<close>

definition is_active_relation :: "fold_input \<Rightarrow> change_id \<Rightarrow> claim_id \<times> change_relation_fact \<Rightarrow> bool" where
  "is_active_relation input change_id e \<longleftrightarrow>
     rf_change_id (snd e) = change_id \<and> fst e \<notin> set (fi_relation_withdrawals input)"

definition relation_conflicts :: "fold_input \<Rightarrow> change_relation_fact \<Rightarrow> bool" where
  "relation_conflicts input claim \<longleftrightarrow>
     has_several_hashes input (rr_revision_id (rf_successor claim)) \<or>
     has_several_hashes input (rr_revision_id (rf_predecessor claim))"

definition relation_fits :: "fold_input \<Rightarrow> revision_id list \<Rightarrow> change_relation_fact \<Rightarrow> bool" where
  "relation_fits input members claim \<longleftrightarrow>
     is_exact_ref input (rf_successor claim) \<and> is_exact_ref input (rf_predecessor claim) \<and>
     rr_revision_id (rf_successor claim) \<in> set members \<and> rr_revision_id (rf_predecessor claim) \<in> set members"

definition edge_of :: "claim_id \<times> change_relation_fact \<Rightarrow> revision_id \<times> revision_id" where
  "edge_of e = (rr_revision_id (rf_successor (snd e)), rr_revision_id (rf_predecessor (snd e)))"

lemma exact_not_several: "is_exact_ref input r \<Longrightarrow> \<not> has_several_hashes input (rr_revision_id r)"
  by (auto simp: is_exact_ref_def has_several_hashes_def split: option.splits)

lemma relation_fits_no_conflict: "relation_fits input members claim \<Longrightarrow> \<not> relation_conflicts input claim"
  by (auto simp: relation_fits_def relation_conflicts_def dest: exact_not_several)

lemma relation_step_eqs:
  "rs_supersedes (relation_step input c ms e scan) =
     (if is_active_relation input c e \<and> relation_fits input ms (snd e)
      then bs_insert (edge_of e) (rs_supersedes scan)
      else rs_supersedes scan)"
  "rs_incomplete (relation_step input c ms e scan) \<longleftrightarrow> rs_incomplete scan \<or>
     is_active_relation input c e \<and> \<not> relation_conflicts input (snd e) \<and> \<not> relation_fits input ms (snd e)"
  "rs_revision_conflict (relation_step input c ms e scan) \<longleftrightarrow> rs_revision_conflict scan \<or>
     is_active_relation input c e \<and> relation_conflicts input (snd e)"
  using relation_fits_no_conflict [of input ms "snd e"]
  by (auto simp: relation_step_def is_active_relation_def relation_conflicts_def relation_fits_def
      edge_of_def Let_def split: prod.splits)

lemma scan_relations_eqs:
  "set (rs_supersedes (fold (relation_step input c ms) es scan)) = set (rs_supersedes scan) \<union>
     edge_of ` {e \<in> set es. is_active_relation input c e \<and> relation_fits input ms (snd e)}"
  "rs_incomplete (fold (relation_step input c ms) es scan) \<longleftrightarrow> rs_incomplete scan \<or>
     (\<exists>e \<in> set es. is_active_relation input c e \<and> \<not> relation_conflicts input (snd e) \<and> \<not> relation_fits input ms (snd e))"
  "rs_revision_conflict (fold (relation_step input c ms) es scan) \<longleftrightarrow> rs_revision_conflict scan \<or>
     (\<exists>e \<in> set es. is_active_relation input c e \<and> relation_conflicts input (snd e))"
  "bs_ok (rs_supersedes scan) \<Longrightarrow> bs_ok (rs_supersedes (fold (relation_step input c ms) es scan))"
  by (induction es arbitrary: scan) (auto simp: relation_step_eqs)

section \<open>What the obligation scan finds\<close>

definition is_unresolved :: "fold_input \<Rightarrow> revision_id list \<Rightarrow> input_request_id \<Rightarrow> bool" where
  "is_unresolved input current q \<longleftrightarrow>
     (case bm_get (fi_request_response_count input) q of
        Some n \<Rightarrow> n \<noteq> 1 | None \<Rightarrow> carried_to input q \<noteq> current)"

lemma obligation_step_unresolved:
  "oo_unresolved_requests (obligation_step ms cur input e status) =
     (if snd e \<in> set ms \<and> is_unresolved input cur (fst e)
      then bs_insert (fst e) (oo_unresolved_requests status) else oo_unresolved_requests status)"
  by (auto simp: obligation_step_def is_unresolved_def Let_def split: prod.splits option.splits)

lemma fold_obligations:
  "set (oo_unresolved_requests (fold (obligation_step ms cur input) es status)) =
     set (oo_unresolved_requests status) \<union> {q. \<exists>r \<in> set ms. (q, r) \<in> set es \<and> is_unresolved input cur q}"
  by (induction es arbitrary: status) (auto simp: obligation_step_unresolved)

lemma set_unresolved:
  "set (oo_unresolved_requests (operative_obligation_status ms cur input)) =
     {q. \<exists>r \<in> set ms. (q, r) \<in> set (fi_operative_requests input) \<and> is_unresolved input cur q}"
  by (simp add: operative_obligation_status_def fold_obligations)

section \<open>Specification over the set of facts\<close>

definition hashes_of :: "change_projection_fact set \<Rightarrow> revision_id \<Rightarrow> string set" where
  "hashes_of F r = {h. CF_Revision r h \<in> F}"

definition members_of :: "change_projection_fact set \<Rightarrow> change_id \<Rightarrow> revision_id set" where
  "members_of F c =
     {r. \<exists>i. CF_MembershipAsserted i c r \<in> F \<and> CF_MembershipWithdrawn i \<notin> F \<and> hashes_of F r \<noteq> {}}"

definition is_exact_in :: "change_projection_fact set \<Rightarrow> revision_ref_v1 \<Rightarrow> bool" where
  "is_exact_in F r \<longleftrightarrow> hashes_of F (rr_revision_id r) = {rr_object_artifact_content_hash r}"

definition edges_of :: "change_projection_fact set \<Rightarrow> change_id \<Rightarrow> (revision_id \<times> revision_id) set" where
  "edges_of F c =
     {(rr_revision_id s, rr_revision_id p) | i s p.
        CF_RelationAsserted i c s p \<in> F \<and> CF_RelationWithdrawn i \<notin> F \<and> is_exact_in F s \<and> is_exact_in F p \<and>
        rr_revision_id s \<in> members_of F c \<and> rr_revision_id p \<in> members_of F c}"

definition currents_of :: "change_projection_fact set \<Rightarrow> change_id \<Rightarrow> revision_id set" where
  "currents_of F c = members_of F c - snd ` edges_of F c"

lemma fold_revisions_Some:
  "bm_get (fi_revisions (fold_facts fs)) r = Some hs \<Longrightarrow> set hs = hashes_of (set fs) r \<and> bs_ok hs"
  using fold_revisions [of fs r] fold_ok_parts [of fs]
  by (force simp: bm_get_or_def hashes_of_def list_all_iff dest: map_of_SomeD)

lemma has_revision_iff: "has_revision (fold_facts fs) r \<longleftrightarrow> hashes_of (set fs) r \<noteq> {}"
  using fold_revisions [of fs r] by (auto simp: has_revision_def hashes_of_def)

lemma finite_hashes: "finite (hashes_of (set fs) r)"
proof -
  have "hashes_of (set fs) r \<subseteq> (\<lambda>f. case f of CF_Revision _ h \<Rightarrow> h | _ \<Rightarrow> []) ` set fs"
    by (force simp: hashes_of_def)
  then show ?thesis by (rule finite_subset) simp
qed

lemma has_several_hashes_iff:
  "has_several_hashes (fold_facts fs) r \<longleftrightarrow> card (hashes_of (set fs) r) > 1"
proof (cases "bm_get (fi_revisions (fold_facts fs)) r")
  case None
  then show ?thesis
    using has_revision_iff [of fs r] by (simp add: has_several_hashes_def has_revision_def)
next
  case (Some hs)
  with fold_revisions_Some [OF Some] length_bs_ok [of hs] show ?thesis
    by (simp add: has_several_hashes_def)
qed

lemma is_exact_ref_iff: "is_exact_ref (fold_facts fs) r \<longleftrightarrow> is_exact_in (set fs) r"
proof (cases "bm_get (fi_revisions (fold_facts fs)) (rr_revision_id r)")
  case None
  then show ?thesis
    using has_revision_iff [of fs "rr_revision_id r"] by (auto simp: is_exact_ref_def is_exact_in_def has_revision_def)
next
  case (Some hs)
  with fold_revisions_Some [OF Some] length_bs_ok [of hs] show ?thesis
    by (auto simp: is_exact_ref_def is_exact_in_def card_1_singleton_iff)
qed


lemma active_membership_iff:
  assumes "facts_agree fs"
  shows "(i, m) \<in> set (fi_memberships (fold_facts fs)) \<and> is_active_membership (fold_facts fs) c (i, m) \<longleftrightarrow>
    mf_change_id m = c \<and> CF_MembershipAsserted i c (mf_revision_id m) \<in> set fs \<and> CF_MembershipWithdrawn i \<notin> set fs"
  using fold_memberships [OF assms, of i m] fold_ok_parts [of fs]
  by (auto simp: is_active_membership_def fold_membership_withdrawals bm_mem_iff)

lemma ex_active_membership:
  assumes "facts_agree fs"
  shows "(\<exists>e \<in> set (fi_memberships (fold_facts fs)). is_active_membership (fold_facts fs) c e \<and> Q (mf_revision_id (snd e))) \<longleftrightarrow>
    (\<exists>i r. CF_MembershipAsserted i c r \<in> set fs \<and> CF_MembershipWithdrawn i \<notin> set fs \<and> Q r)" (is "?l \<longleftrightarrow> ?r")
proof -
  have "?l \<longleftrightarrow> (\<exists>i m. ((i, m) \<in> set (fi_memberships (fold_facts fs)) \<and> is_active_membership (fold_facts fs) c (i, m)) \<and>
      Q (mf_revision_id m))"
    by force
  also have "\<dots> \<longleftrightarrow> ?r"
    unfolding active_membership_iff [OF assms]
  proof (intro iffI; elim exE conjE)
    fix i r assume "CF_MembershipAsserted i c r \<in> set fs" "CF_MembershipWithdrawn i \<notin> set fs" "Q r"
    then show "\<exists>i. \<exists>m::change_membership_fact. (mf_change_id m = c \<and> CF_MembershipAsserted i c (mf_revision_id m) \<in> set fs \<and>
        CF_MembershipWithdrawn i \<notin> set fs) \<and> Q (mf_revision_id m)"
      by (intro exI [of _ i] exI [of _ "\<lparr>mf_change_id = c, mf_revision_id = r\<rparr>"]) simp
  qed blast
  finally show ?thesis .
qed

lemma set_change_members:
  assumes "facts_agree fs"
  shows "set (change_members (fold_facts fs) c) = members_of (set fs) c"
proof -
  have "r \<in> set (change_members (fold_facts fs) c) \<longleftrightarrow>
      (\<exists>e \<in> set (fi_memberships (fold_facts fs)). is_active_membership (fold_facts fs) c e \<and>
         (mf_revision_id (snd e) = r \<and> hashes_of (set fs) (mf_revision_id (snd e)) \<noteq> {}))" for r
    unfolding change_members_def set_bs_collect set_map set_filter image_iff has_revision_iff by blast
  then show ?thesis
    unfolding ex_active_membership [OF assms, where Q = "\<lambda>x. x = _ \<and> hashes_of (set fs) x \<noteq> {}"] members_of_def
    by blast
qed

lemma membership_revision_missing_iff:
  assumes "facts_agree fs"
  shows "membership_revision_missing (fold_facts fs) c \<longleftrightarrow>
    (\<exists>i r. CF_MembershipAsserted i c r \<in> set fs \<and> CF_MembershipWithdrawn i \<notin> set fs \<and> hashes_of (set fs) r = {})"
  using ex_active_membership [OF assms, of c "\<lambda>r. hashes_of (set fs) r = {}"]
  by (simp add: membership_revision_missing_def has_revision_iff list_ex_iff)

lemma active_relation_iff:
  assumes "facts_agree fs"
  shows "(i, r) \<in> set (fi_relations (fold_facts fs)) \<and> is_active_relation (fold_facts fs) c (i, r) \<longleftrightarrow>
    rf_change_id r = c \<and> CF_RelationAsserted i c (rf_successor r) (rf_predecessor r) \<in> set fs \<and>
    CF_RelationWithdrawn i \<notin> set fs"
  using fold_relations [OF assms, of i r] fold_ok_parts [of fs]
  by (auto simp: is_active_relation_def fold_relation_withdrawals bm_mem_iff)

lemma ex_active_relation:
  assumes "facts_agree fs"
  shows "(\<exists>e \<in> set (fi_relations (fold_facts fs)). is_active_relation (fold_facts fs) c e \<and> Q (rf_successor (snd e)) (rf_predecessor (snd e))) \<longleftrightarrow>
    (\<exists>i s p. CF_RelationAsserted i c s p \<in> set fs \<and> CF_RelationWithdrawn i \<notin> set fs \<and> Q s p)" (is "?l \<longleftrightarrow> ?r")
proof -
  have "?l \<longleftrightarrow> (\<exists>i r. ((i, r) \<in> set (fi_relations (fold_facts fs)) \<and> is_active_relation (fold_facts fs) c (i, r)) \<and>
      Q (rf_successor r) (rf_predecessor r))"
    by force
  also have "\<dots> \<longleftrightarrow> ?r"
    unfolding active_relation_iff [OF assms]
  proof (intro iffI; elim exE conjE)
    fix i s p assume "CF_RelationAsserted i c s p \<in> set fs" "CF_RelationWithdrawn i \<notin> set fs" "Q s p"
    then show "\<exists>i. \<exists>r::change_relation_fact. (rf_change_id r = c \<and> CF_RelationAsserted i c (rf_successor r) (rf_predecessor r) \<in> set fs \<and>
        CF_RelationWithdrawn i \<notin> set fs) \<and> Q (rf_successor r) (rf_predecessor r)"
      by (intro exI [of _ i] exI [of _ "\<lparr>rf_change_id = c, rf_successor = s, rf_predecessor = p\<rparr>"]) simp
  qed blast
  finally show ?thesis .
qed


section \<open>Views meet the specification\<close>

lemma relation_fits_iff:
  assumes "facts_agree fs"
  shows "relation_fits (fold_facts fs) (change_members (fold_facts fs) c) claim \<longleftrightarrow>
    is_exact_in (set fs) (rf_successor claim) \<and> is_exact_in (set fs) (rf_predecessor claim) \<and>
    rr_revision_id (rf_successor claim) \<in> members_of (set fs) c \<and>
    rr_revision_id (rf_predecessor claim) \<in> members_of (set fs) c"
  by (simp add: relation_fits_def is_exact_ref_iff set_change_members [OF assms])

lemma set_scan_supersedes:
  assumes "facts_agree fs" and "rs_supersedes scan = []"
  shows "set (rs_supersedes (scan_relations (fold_facts fs) c (change_members (fold_facts fs) c) scan)) =
    edges_of (set fs) c"
proof -
  let ?Q = "\<lambda>a s p. a = (rr_revision_id s, rr_revision_id p) \<and> is_exact_in (set fs) s \<and> is_exact_in (set fs) p \<and>
    rr_revision_id s \<in> members_of (set fs) c \<and> rr_revision_id p \<in> members_of (set fs) c"
  have "a \<in> set (rs_supersedes (scan_relations (fold_facts fs) c (change_members (fold_facts fs) c) scan)) \<longleftrightarrow>
      (\<exists>e \<in> set (fi_relations (fold_facts fs)). is_active_relation (fold_facts fs) c e \<and>
         ?Q a (rf_successor (snd e)) (rf_predecessor (snd e)))" for a
    unfolding scan_relations_def scan_relations_eqs assms(2) relation_fits_iff [OF assms(1)] image_iff edge_of_def
    by auto
  then show ?thesis
    unfolding ex_active_relation [OF assms(1), where Q = "?Q _"] edges_of_def by blast
qed

lemma change_view_of_spec:
  assumes "facts_agree fs" and "change_view_of ext (fold_facts fs) c = Inr v"
  shows "cv_change_id v = c \<and> bs_ok (cv_members v) \<and> bs_ok (cv_current_revisions v) \<and> bs_ok (cv_supersedes v) \<and>
    set (cv_members v) = members_of (set fs) c \<and> set (cv_supersedes v) = edges_of (set fs) c \<and>
    set (cv_current_revisions v) = currents_of (set fs) c"
proof -
  let ?ms = "change_members (fold_facts fs) c"
  obtain scan where v: "cv_change_id v = c" "cv_members v = ?ms"
    "cv_supersedes v = rs_supersedes (scan_relations (fold_facts fs) c ?ms scan)" "rs_supersedes scan = []"
    "cv_current_revisions v = current_revisions ?ms (cv_supersedes v)"
    using assms(2) by (auto simp: change_view_of_def and_then_eq_Inr_iff Let_def)
  have "bs_ok ?ms"
    by (simp add: change_members_def)
  moreover have "bs_ok (cv_supersedes v)"
    using v(4) by (simp add: v(3) scan_relations_def scan_relations_eqs)
  ultimately show ?thesis
    using v set_scan_supersedes [OF assms(1) v(4), of c]
    by (simp add: set_change_members [OF assms(1)] set_current_revisions bs_ok_current_revisions currents_of_def)
qed

end
