(* ===== verification/Change_Acceptance.thy ===== *)
theory Change_Acceptance
  imports Change_Projection
begin

text \<open>
  What the Change projection says about a set of facts: when a Change is accepted, which Changes
  the projection holds, that it succeeds whenever every fact was extracted, and that the order
  of events does not show in it. The specification is written over sets of facts
  (\<open>members_of\<close>, \<open>edges_of\<close>, \<open>currents_of\<close>, \<open>accepted_in\<close>, \<open>settled_in\<close>) and the lemmas show that
  the fold, the scans and the searches of \<open>src/src/session/projection/change.rs\<close> implement it.
\<close>

section \<open>Lifecycle\<close>






section \<open>Acceptance over the set of facts\<close>











lemma check_declarations_iff:
  "check_declarations ext c ds = Inr b \<longleftrightarrow>
     (\<forall>d \<in> set ds. \<exists>i. derive_change_id ext d = Inr i) \<and> (b \<longleftrightarrow> (\<exists>d \<in> set ds. derive_change_id ext d \<noteq> Inr c))"
  by (induction ds arbitrary: b) (auto simp: and_then_eq_Inr_iff)









section \<open>The projection as a map of views\<close>




section \<open>When the projection succeeds\<close>

lemma derive_change_id_ok_iff: "(\<exists>i. derive_change_id ext d = Inr i) \<longleftrightarrow> descriptor_validate d = Inr ()"
  by (auto simp: derive_change_id_def and_then_eq_Inr_iff)

lemma declaration_status_ok_iff:
  "(\<exists>x. declaration_status ext c found = Inr x) \<longleftrightarrow>
     (\<forall>ds. found = Some ds \<longrightarrow> (\<forall>d \<in> set ds. descriptor_validate d = Inr ()))"
proof (cases found)
  case (Some ds)
  have "(\<exists>b. check_declarations ext c ds = Inr b) \<longleftrightarrow> (\<forall>d \<in> set ds. descriptor_validate d = Inr ())"
    by (auto simp: check_declarations_iff derive_change_id_ok_iff)
  then show ?thesis
    unfolding declaration_status_def Some by (auto simp: and_then_eq_Inr_iff Let_def)
qed (auto simp: declaration_status_def)

lemma change_view_ok_iff:
  "(\<exists>v. change_view_of ext input c = Inr v) \<longleftrightarrow>
     (\<exists>x. declaration_status ext c (bm_get (fi_declarations input) c) = Inr x)"
  unfolding change_view_of_def and_then_eq_Inr_iff by (fastforce simp: Let_def)

lemma project_ok_iff:
  "(\<exists>P. project_changes_from_facts ext fs = Inr P) \<longleftrightarrow>
     (\<forall>c d. CF_Declaration c d \<in> set fs \<longrightarrow> descriptor_validate d = Inr ())"
proof -
  have decl: "(\<forall>ds. bm_get (fi_declarations (fold_facts fs)) c = Some ds \<longrightarrow> (\<forall>d \<in> set ds. descriptor_validate d = Inr ())) \<longleftrightarrow>
      (\<forall>d. CF_Declaration c d \<in> set fs \<longrightarrow> descriptor_validate d = Inr ())" for c
    using fold_declarations [of fs c]
    by (cases "bm_get (fi_declarations (fold_facts fs)) c") (auto simp: bm_get_or_def)
  have "CF_Declaration c d \<in> set fs \<Longrightarrow> c \<in> set (change_ids_of (fold_facts fs))" for c d
    using fold_declarations [of fs c] by (auto simp: change_ids_of_def bm_dom [symmetric] image_iff dest: map_of_SomeD)
  moreover have "(\<exists>P. project_changes_from_facts ext fs = Inr P) \<longleftrightarrow>
      (\<forall>c \<in> set (change_ids_of (fold_facts fs)). \<exists>v. change_view_of ext (fold_facts fs) c = Inr v)"
    using try_map_ok_iff [of "\<lambda>c. and_then (change_view_of ext (fold_facts fs) c) (\<lambda>view. Inr (c, view))" "change_ids_of (fold_facts fs)"]
    by (simp add: project_changes_from_facts_def project_fold_input_def and_then_eq_Inr_iff)
  ultimately show ?thesis
    unfolding change_view_ok_iff declaration_status_ok_iff decl by blast
qed

lemma extract_declaration:
  "extract_change_projection_fact ext e = Inr (Some (CF_Declaration c d)) \<Longrightarrow> descriptor_validate d = Inr ()"
  unfolding extract_change_projection_fact_def
  by (auto simp: proposal_fact_def declaration_fact_def membership_fact_def membership_withdrawal_fact_def
      relation_fact_def relation_withdrawal_fact_def link_fact_def assessment_fact_def operative_request_fact_def
      response_fact_def fact_port_fact_def and_then_eq_Inr_iff change_declared_validate_def derive_change_id_valid
      split: event_type.splits event_payload.splits work_object_proposal.splits option.splits if_splits)

definition fact_of :: "externals \<Rightarrow> shore_event \<Rightarrow> change_projection_fact option" where
  "fact_of ext e = (case extract_change_projection_fact ext e of Inl _ \<Rightarrow> None | Inr f \<Rightarrow> f)"

lemma extract_facts_iff:
  "extract_facts ext es = Inr fs \<longleftrightarrow>
     (\<forall>e \<in> set es. \<exists>f. extract_change_projection_fact ext e = Inr f) \<and> fs = List.map_filter (fact_of ext) es"
  by (induction es arbitrary: fs)
    (auto simp: and_then_eq_Inr_iff fact_of_def List.map_filter_simps split: option.splits)

lemma fact_of_Some: "fact_of ext e = Some f \<Longrightarrow> extract_change_projection_fact ext e = Inr (Some f)"
  by (auto simp: fact_of_def split: sum.splits)

lemma extract_facts_valid:
  "extract_facts ext es = Inr fs \<Longrightarrow> CF_Declaration c d \<in> set fs \<Longrightarrow> descriptor_validate d = Inr ()"
  by (auto simp: extract_facts_iff List.map_filter_def) (metis fact_of_Some extract_declaration option.sel)

lemma extract_facts_permuted:
  assumes "extract_facts ext es = Inr fs" and "mset es = mset es'"
  shows "\<exists>fs'. extract_facts ext es' = Inr fs' \<and> mset fs = mset fs'"
proof -
  have fs: "fs = List.map_filter (fact_of ext) es" and ok: "\<forall>e \<in> set es'. \<exists>f. extract_change_projection_fact ext e = Inr f"
    using assms(1) unfolding extract_facts_iff mset_eq_setD [OF assms(2)] by blast+
  have "mset fs = mset (List.map_filter (fact_of ext) es')"
    unfolding fs List.map_filter_def mset_map mset_filter assms(2) ..
  with ok show ?thesis
    unfolding extract_facts_iff by blast
qed

section \<open>Order independence of the projection\<close>

lemma declaration_status_permuted:
  assumes "mset ds = mset ds'" and "\<forall>d \<in> set ds. descriptor_validate d = Inr ()"
  shows "declaration_status ext c (Some ds) = declaration_status ext c (Some ds')"
proof -
  have s: "set ds = set ds'" using assms(1) by (rule mset_eq_setD)
  obtain b where b: "check_declarations ext c ds = Inr b"
    using assms(2) check_declarations_iff [of ext c ds] by (auto simp: derive_change_id_ok_iff)
  then have b': "check_declarations ext c ds' = Inr b"
    unfolding check_declarations_iff s .
  have t: "bs_collect (map (\<lambda>d. to_vec ext (descriptor_json d)) ds) = bs_collect (map (\<lambda>d. to_vec ext (descriptor_json d)) ds')"
    by (simp add: bs_collect_eq_iff s)
  show ?thesis
    by (simp add: declaration_status_def b b' t)
qed

lemma vectors_irrelevant:
  fixes D Q s
  defines "t \<equiv> s\<lparr>fi_declarations := D, fi_fact_ports := Q\<rparr>"
  assumes "set (fi_fact_ports s) = set Q"
  shows "change_members t c = change_members s c"
    and "membership_revision_missing t c = membership_revision_missing s c"
    and "has_several_hashes t = has_several_hashes s"
    and "scan_relations t c ms = scan_relations s c ms"
    and "operative_obligation_status ms cur t = operative_obligation_status ms cur s"
    and "fi_assessments t = fi_assessments s"
proof -
  have active: "is_active_membership t c = is_active_membership s c" "has_revision t = has_revision s"
    and hashes: "has_several_hashes t = has_several_hashes s" and exact: "is_exact_ref t = is_exact_ref s"
    by (simp_all add: t_def is_active_membership_def has_revision_def fun_eq_iff has_several_hashes_def is_exact_ref_def)
  show "change_members t c = change_members s c"
    unfolding change_members_def active by (simp add: t_def)
  show "membership_revision_missing t c = membership_revision_missing s c"
    unfolding membership_revision_missing_def active by (simp add: t_def)
  show "has_several_hashes t = has_several_hashes s" by (fact hashes)
  have lists: "fi_relations t = fi_relations s" "fi_operative_requests t = fi_operative_requests s"
    "fi_request_response_count t = fi_request_response_count s"
    by (simp_all add: t_def)
  have step: "relation_step t c ms = relation_step s c ms"
    unfolding relation_step_def hashes exact by (simp add: t_def)
  show "scan_relations t c ms = scan_relations s c ms"
    by (rule ext) (simp only: scan_relations_def lists step)
  have "carried_by t = carried_by s"
    by (intro ext) (simp only: carried_by_def lists)
  then have "carried_to t = carried_to s"
    using assms(2) unfolding carried_to_def by (auto simp: bs_collect_eq_iff t_def)
  then have step: "obligation_step ms cur t = obligation_step ms cur s"
    by (intro ext) (simp only: obligation_step_def lists)
  show "operative_obligation_status ms cur t = operative_obligation_status ms cur s"
    by (simp only: operative_obligation_status_def lists step)
qed (simp add: t_def)

lemma project_permuted:
  assumes "abs_input s = abs_input t"
    and "\<And>c ds. bm_get (fi_declarations s) c = Some ds \<Longrightarrow> \<forall>d \<in> set ds. descriptor_validate d = Inr ()"
  shows "project_fold_input ext s = project_fold_input ext t"
proof -
  define D Q where "D = fi_declarations t" and "Q = fi_fact_ports t"
  have t: "t = s\<lparr>fi_declarations := D, fi_fact_ports := Q\<rparr>" and Q: "set (fi_fact_ports s) = set Q"
    and D: "map (map_prod id mset) (fi_declarations s) = map (map_prod id mset) D"
    using assms(1) mset_eq_setD [of "fi_fact_ports s" "fi_fact_ports t"]
    by (cases s, cases t, auto simp: abs_input_def D_def Q_def)+
  note same = vectors_irrelevant [where D = D and Q = Q and s = s, OF Q, folded t]
  have get: "map_option mset (bm_get (fi_declarations s) c) = map_option mset (bm_get D c)" for c
    using D bm_get_map_prod [of mset "fi_declarations s" c] bm_get_map_prod [of mset D c] by simp
  have decl: "declaration_status ext c (bm_get (fi_declarations t) c) = declaration_status ext c (bm_get (fi_declarations s) c)" for c
  proof (cases "bm_get (fi_declarations s) c")
    case None
    with get [of c] show ?thesis by (simp add: D_def)
  next
    case (Some ds)
    then obtain ds' where "bm_get D c = Some ds'" "mset ds = mset ds'"
      using get [of c] by (cases "bm_get D c") auto
    then show ?thesis
      using Some declaration_status_permuted [of ds ds' ext c] assms(2) [OF Some] by (simp add: D_def)
  qed
  have view: "change_view_of ext t c = change_view_of ext s c" for c
    unfolding change_view_of_def decl same ..
  have "map fst (fi_declarations s) = map fst D"
    using arg_cong [OF D, of "map fst"] by (simp add: comp_def)
  then have "change_ids_of s = change_ids_of t"
    by (simp add: change_ids_of_def t)
  moreover have "fi_links t = fi_links s" by (simp add: t)
  ultimately show ?thesis
    unfolding project_fold_input_def view by simp
qed

lemma project_facts_permuted:
  assumes "mset fs = mset fs'" and "facts_agree fs"
    and "\<And>c d. CF_Declaration c d \<in> set fs \<Longrightarrow> descriptor_validate d = Inr ()"
  shows "project_changes_from_facts ext fs = project_changes_from_facts ext fs'"
  unfolding project_changes_from_facts_def
proof (rule project_permuted [OF fold_facts_permuted [OF assms(1,2)]])
  fix c ds assume "bm_get (fi_declarations (fold_facts fs)) c = Some ds"
  then have "set ds = {d. CF_Declaration c d \<in> set fs}"
    using fold_declarations [of fs c] by (simp add: bm_get_or_def)
  then show "\<forall>d \<in> set ds. descriptor_validate d = Inr ()"
    using assms(3) by blast
qed

section \<open>A small accepted Change\<close>

definition demo_externals :: externals where
  "demo_externals = \<lparr>sha256 = (\<lambda>_. []), to_vec = (\<lambda>_. [])\<rparr>"




definition demo_response :: shore_event where
  "demo_response = removal_event\<lparr>ev_event_type := InputRequestResponded,
     ev_payload := P_InputRequestResponded \<lparr>rs_input_request_response_id = ''p'', rs_input_request_id = ''q'',
       rs_revision_id = Some ''a'', rs_task_target = None, rs_outcome = Approved, rs_reason = None,
       rs_reason_content_type = TextPlain, rs_reason_artifact_path = None, rs_reason_byte_size = None,
       rs_reason_content_hash = None, rs_target_fingerprint = None\<rparr>\<rparr>"





section \<open>Properties\<close>





text \<open>C20. Folding Change state is independent of event order: two orders of one event set whose
  facts do not contradict each other about a claim, a request or an assessment id project to
  the same Changes, diagnostics and links included.\<close>

theorem project_changes_order_independent:
  assumes "extract_facts ext events = Inr facts" and "facts_agree facts" and "mset events = mset events'"
  shows "project_changes ext events = project_changes ext events'"
proof -
  obtain facts' where "extract_facts ext events' = Inr facts'" and m: "mset facts = mset facts'"
    using extract_facts_permuted [OF assms(1,3)] by blast
  then show ?thesis
    using project_facts_permuted [OF m assms(2) extract_facts_valid [OF assms(1)]] assms(1)
    by (simp add: project_changes_def)
qed

theorem project_changes_order_independent_witness:
  "project_changes demo_externals [removal_event, demo_response] =
     project_changes demo_externals [demo_response, removal_event]"
proof (rule project_changes_order_independent)
  show "extract_facts demo_externals [removal_event, demo_response] = Inr [CF_RequestResponse ''q'']"
    by (simp add: extract_change_projection_fact_def removal_event_def demo_response_def response_fact_def)
  show "facts_agree [CF_RequestResponse ''q'']"
    by (simp add: facts_agree_def agree_def)
qed simp

text \<open>C29. The projection fails only on an event whose own payload is rejected: once every event's
  fact is extracted, the fold, the identity checks and the graph searches all return.\<close>

theorem project_changes_fails_only_on_extraction:
  "(\<exists>P. project_changes ext events = Inr P) \<longleftrightarrow>
     (\<forall>e \<in> set events. \<exists>f. extract_change_projection_fact ext e = Inr f)"
proof -
  have "(\<exists>facts. extract_facts ext events = Inr facts) \<longleftrightarrow>
      (\<forall>e \<in> set events. \<exists>f. extract_change_projection_fact ext e = Inr f)"
    by (simp add: extract_facts_iff)
  moreover have "\<exists>P. project_changes_from_facts ext facts = Inr P" if "extract_facts ext events = Inr facts" for facts
    using project_ok_iff extract_facts_valid [OF that] by blast
  ultimately show ?thesis
    unfolding project_changes_def and_then_eq_Inr_iff by blast
qed

theorem project_changes_fails_only_on_extraction_witness:
  "\<exists>P. project_changes demo_externals [removal_event, demo_response] = Inr P"
  unfolding project_changes_fails_only_on_extraction
  by (simp add: extract_change_projection_fact_def removal_event_def demo_response_def response_fact_def)



end
