(* ===== verification/Union_Find.thy ===== *)
theory Union_Find
  imports Prelude "HOL-Library.Monad_Syntax"
begin

text \<open>
  Threads of Revisions: the union-find of \<open>src/src/session/projection/supersession.rs\<close>
  (\<open>connected_components\<close>, \<open>find\<close>). A loop that might not end and an index out of range are the
  value \<open>None\<close>; the lemmas show that neither happens: on every input the search returns, and what
  it returns is the partition of the known nodes into connected components.
\<close>

section \<open>The code\<close>

partial_function (option) find_root :: "nat list \<Rightarrow> nat \<Rightarrow> (nat list \<times> nat) option" where
  "find_root parent node =
     (if node < length parent \<and> parent ! node < length parent then
        (if parent ! node \<noteq> node then
           find_root (parent[node := parent ! (parent ! node)]) (parent ! (parent ! node))
         else Some (parent, node))
      else None)"

declare find_root.simps [code]

definition join :: "nat \<Rightarrow> nat \<Rightarrow> nat list \<Rightarrow> nat list option" where
  "join a b parent = do {
     (parent, ra) \<leftarrow> find_root parent a;
     (parent, rb) \<leftarrow> find_root parent b;
     Some (if ra \<noteq> rb then parent[ra := rb] else parent)
   }"

fun join_targets :: "('a::linorder \<times> nat) list \<Rightarrow> nat \<Rightarrow> 'a list \<Rightarrow> nat list \<Rightarrow> nat list option" where
  "join_targets index_of a [] parent = Some parent"
| "join_targets index_of a (target # targets) parent =
     (case bm_get index_of target of
        None \<Rightarrow> join_targets index_of a targets parent
      | Some b \<Rightarrow> do { parent \<leftarrow> join a b parent; join_targets index_of a targets parent })"

fun join_declared :: "('a::linorder \<times> nat) list \<Rightarrow> ('a \<times> 'a list) list \<Rightarrow> nat list \<Rightarrow> nat list option" where
  "join_declared index_of [] parent = Some parent"
| "join_declared index_of ((revision, targets) # declared) parent =
     (case bm_get index_of revision of
        None \<Rightarrow> join_declared index_of declared parent
      | Some a \<Rightarrow> do { parent \<leftarrow> join_targets index_of a targets parent; join_declared index_of declared parent })"

fun group_nodes ::
  "nat \<Rightarrow> 'a::linorder list \<Rightarrow> nat list \<Rightarrow> (nat \<times> 'a list) list \<Rightarrow> (nat \<times> 'a list) list option" where
  "group_nodes i [] parent groups = Some groups"
| "group_nodes i (revision # nodes) parent groups = do {
     (parent, root) \<leftarrow> find_root parent i;
     group_nodes (i + 1) nodes parent (bm_entry root [] (bs_insert revision) groups)
   }"

definition index_of_nodes :: "'a::linorder list \<Rightarrow> ('a \<times> nat) list" where
  "index_of_nodes nodes = fold (\<lambda>(revision, i). bm_insert revision i) (zip nodes [0..<length nodes]) []"

definition connected_components :: "'a::linorder list \<Rightarrow> ('a \<times> 'a list) list \<Rightarrow> 'a list list option" where
  "connected_components known declared = do {
     parent \<leftarrow> join_declared (index_of_nodes known) declared [0..<length known];
     groups \<leftarrow> group_nodes 0 known parent [];
     Some (map snd groups)
   }"


section \<open>Roots\<close>

text \<open>\<open>root_in p k i r\<close>: following parents from \<open>i\<close> reaches the root \<open>r\<close> after \<open>k\<close> steps.\<close>

inductive root_in :: "nat list \<Rightarrow> nat \<Rightarrow> nat \<Rightarrow> nat \<Rightarrow> bool" for p where
  here: "i < length p \<Longrightarrow> p ! i = i \<Longrightarrow> root_in p 0 i i"
| up: "i < length p \<Longrightarrow> p ! i \<noteq> i \<Longrightarrow> root_in p k (p ! i) r \<Longrightarrow> root_in p (Suc k) i r"

definition root_of :: "nat list \<Rightarrow> nat \<Rightarrow> nat \<Rightarrow> bool" where
  "root_of p i r \<longleftrightarrow> (\<exists>k. root_in p k i r)"

definition forest :: "nat list \<Rightarrow> bool" where
  "forest p \<longleftrightarrow> (\<forall>i < length p. \<exists>r. root_of p i r)"

lemma root_in_bounds: "root_in p k i r \<Longrightarrow> i < length p \<and> r < length p \<and> p ! r = r"
  by (induction rule: root_in.induct) auto

lemma root_in_det: "root_in p k i r \<Longrightarrow> root_in p k' i r' \<Longrightarrow> k = k' \<and> r = r'"
proof (induction arbitrary: k' r' rule: root_in.induct)
  case (here i)
  from here.prems here.hyps show ?case by (cases rule: root_in.cases) auto
next
  case (up i k r)
  from up.prems up.hyps(1,2) up.IH show ?case by (cases rule: root_in.cases) auto
qed

lemma root_of_det: "root_of p i r \<Longrightarrow> root_of p i r' \<Longrightarrow> r = r'"
  by (auto simp: root_of_def dest: root_in_det)

lemma root_in_parent:
  "i < length p \<Longrightarrow> p ! i \<noteq> i \<Longrightarrow> root_in p k i r \<longleftrightarrow> (\<exists>k'. k = Suc k' \<and> root_in p k' (p ! i) r)"
  by (subst root_in.simps) auto

text \<open>Path halving moves a node to its grandparent: no root changes, no path gets longer.\<close>

lemma halve_root_in:
  assumes "root_in p k i r" and "j < length p" and "p ! j < length p"
  shows "\<exists>k' \<le> k. root_in (p[j := p ! (p ! j)]) k' i r"
  using assms(1)
proof (induction rule: root_in.induct)
  case (here i)
  then show ?case using assms(2) by (auto intro!: root_in.here simp: nth_list_update)
next
  case (up i k r)
  let ?p = "p[j := p ! (p ! j)]"
  obtain k' where k': "k' \<le> k" "root_in ?p k' (p ! i) r" using up.IH by blast
  show ?case
  proof (cases "i = j")
    case False
    then have "root_in ?p (Suc k') i r"
      using up.hyps k' by (intro root_in.up) auto
    with k' show ?thesis by auto
  next
    case True
    with up.hyps have pi: "?p ! (p ! i) = p ! (p ! i)" "?p ! i = p ! (p ! i)" by auto
    show ?thesis
    proof (cases "p ! (p ! i) = p ! i")
      case True
      then have "root_in ?p (Suc k') i r"
        using up.hyps k' pi by (intro root_in.up) auto
      with k' show ?thesis by auto
    next
      case False
      then obtain k'' where k'': "k' = Suc k''" "root_in ?p k'' (p ! (p ! i)) r"
        using k'(2) pi assms(3) \<open>i = j\<close> by (auto simp: root_in_parent)
      show ?thesis
      proof (cases "p ! (p ! i) = i")
        case True
        with k'' k' show ?thesis by (intro exI [of _ k'']) auto
      next
        case False
        then have "root_in ?p (Suc k'') i r"
          using up.hyps k'' pi by (intro root_in.up) auto
        with k'' k' show ?thesis by (intro exI [of _ "Suc k''"]) auto
      qed
    qed
  qed
qed

lemma find_root_returns:
  assumes "root_in p k i r"
  shows "\<exists>p'. find_root p i = Some (p', r) \<and> length p' = length p \<and> (\<forall>j s. root_of p j s \<longrightarrow> root_of p' j s)"
  using assms
proof (induction k arbitrary: p i rule: less_induct)
  case (less k)
  note b = root_in_bounds [OF less.prems]
  show ?case
  proof (cases "p ! i = i")
    case True
    then have "r = i"
      using root_in_det [OF less.prems root_in.here] b by auto
    then show ?thesis
      using True b by (subst find_root.simps) auto
  next
    case False
    then obtain k1 where k1: "k = Suc k1" "root_in p k1 (p ! i) r"
      using less.prems b by (auto simp: root_in_parent)
    let ?p = "p[i := p ! (p ! i)]"
    have bi: "p ! i < length p" using root_in_bounds [OF k1(2)] by simp
    have step: "find_root p i = find_root ?p (p ! (p ! i))"
      using False b bi by (subst find_root.simps) auto
    have "\<exists>k2 < k. root_in p k2 (p ! (p ! i)) r"
    proof (cases "p ! (p ! i) = p ! i")
      case True
      with k1 show ?thesis by auto
    next
      case False
      with k1 bi obtain k2 where "k1 = Suc k2" "root_in p k2 (p ! (p ! i)) r" by (auto simp: root_in_parent)
      with k1 show ?thesis by (intro exI [of _ k2]) simp
    qed
    then obtain k2 where k2: "k2 < k" "root_in ?p k2 (p ! (p ! i)) r"
      using halve_root_in [OF _ _ bi, of _ _ r] b by (metis le_less_trans)
    obtain p' where p': "find_root ?p (p ! (p ! i)) = Some (p', r)" "length p' = length ?p"
      "\<And>j s. root_of ?p j s \<Longrightarrow> root_of p' j s"
      using less.IH [OF k2] by blast
    have "root_of ?p j s" if "root_of p j s" for j s
      using that halve_root_in [OF _ _ bi] b unfolding root_of_def by blast
    with p' show ?thesis
      unfolding step by auto
  qed
qed

definition roots_kept :: "nat list \<Rightarrow> nat list \<Rightarrow> bool" where
  "roots_kept p p' \<longleftrightarrow> length p' = length p \<and> (\<forall>i r. root_of p' i r \<longleftrightarrow> root_of p i r)"

lemma find_root_spec:
  assumes "forest p" and "i < length p"
  obtains p' r where "find_root p i = Some (p', r)" and "root_of p i r" and "forest p'" and "roots_kept p p'"
proof -
  obtain k r where r: "root_in p k i r"
    using assms by (auto simp: forest_def root_of_def)
  obtain p' where p': "find_root p i = Some (p', r)" "length p' = length p" "\<forall>j s. root_of p j s \<longrightarrow> root_of p' j s"
    using find_root_returns [OF r] by blast
  have "root_of p j s" if "root_of p' j s" for j s
    using that p' assms(1) root_of_det [of p' j] root_in_bounds unfolding forest_def root_of_def by metis
  with p' have "roots_kept p p'" by (auto simp: roots_kept_def)
  moreover from this have "forest p'"
    using assms(1) by (simp add: roots_kept_def forest_def)
  ultimately show thesis
    using that p'(1) r by (auto simp: root_of_def)
qed

definition same_root :: "nat list \<Rightarrow> nat \<Rightarrow> nat \<Rightarrow> bool" where
  "same_root p i j \<longleftrightarrow> (\<exists>r. root_of p i r \<and> root_of p j r)"

lemma same_root_kept: "roots_kept p p' \<Longrightarrow> same_root p' i j \<longleftrightarrow> same_root p i j"
  by (simp add: roots_kept_def same_root_def)

text \<open>Linking one root below another redirects exactly the nodes of the first tree.\<close>

lemma link_root_of:
  assumes "ra \<noteq> rb" and "root_of p a ra" and "root_of p b rb" and "root_of p i r"
  shows "root_of (p[ra := rb]) i (if r = ra then rb else r)"
proof -
  have ab: "ra < length p" "p ! ra = ra" "rb < length p" "p ! rb = rb"
    using assms root_in_bounds by (auto simp: root_of_def)
  let ?p = "p[ra := rb]"
  have rb: "root_in ?p 0 rb rb"
    using ab assms(1) by (intro root_in.here) auto
  obtain k where "root_in p k i r" using assms(4) by (auto simp: root_of_def)
  then show ?thesis
  proof (induction rule: root_in.induct)
    case (here i)
    show ?case
    proof (cases "i = ra")
      case True
      have "root_in ?p (Suc 0) ra rb"
        using ab assms(1) rb by (intro root_in.up) auto
      with True show ?thesis by (auto simp: root_of_def)
    next
      case False
      with here have "root_in ?p 0 i i" by (intro root_in.here) auto
      with False show ?thesis by (auto simp: root_of_def)
    qed
  next
    case (up i k r)
    then have "i \<noteq> ra" using ab by auto
    obtain k' where "root_in ?p k' (p ! i) (if r = ra then rb else r)"
      using up.IH by (auto simp: root_of_def)
    then have "root_in ?p (Suc k') i (if r = ra then rb else r)"
      using up.hyps \<open>i \<noteq> ra\<close> by (intro root_in.up) auto
    then show ?case by (auto simp: root_of_def)
  qed
qed

definition tree_rel :: "nat list \<Rightarrow> (nat \<times> nat) set" where
  "tree_rel p = {(i, j). same_root p i j}"

lemma same_root_equiv:
  "same_root p i j \<Longrightarrow> same_root p j i"
  "same_root p i j \<Longrightarrow> same_root p j k \<Longrightarrow> same_root p i k"
  by (auto simp: same_root_def) (metis root_of_det)

lemma same_root_iff: "root_of p i r \<Longrightarrow> root_of p j s \<Longrightarrow> same_root p i j \<longleftrightarrow> r = s"
  unfolding same_root_def by (metis root_of_det)

lemma same_root_refl: "forest p \<Longrightarrow> i < length p \<Longrightarrow> same_root p i i"
  by (auto simp: same_root_def forest_def)

lemma same_root_bounds: "same_root p i j \<Longrightarrow> i < length p \<and> j < length p"
  by (auto simp: same_root_def root_of_def dest: root_in_bounds)

lemma link_same_root:
  assumes "forest p" and "ra \<noteq> rb" and "root_of p a ra" and "root_of p b rb"
  shows "same_root (p[ra := rb]) i j \<longleftrightarrow>
    same_root p i j \<or> same_root p i a \<and> same_root p b j \<or> same_root p i b \<and> same_root p a j"
proof (cases "i < length p \<and> j < length p")
  case False
  then show ?thesis
    using same_root_bounds [of p] same_root_bounds [of "p[ra := rb]"] by auto
next
  case True
  then obtain r s where rs: "root_of p i r" "root_of p j s"
    using assms(1) unfolding forest_def by blast
  let ?f = "\<lambda>r. if r = ra then rb else r"
  have new: "root_of (p[ra := rb]) i (?f r)" "root_of (p[ra := rb]) j (?f s)"
    using link_root_of [OF assms(2-4)] rs by blast+
  have "same_root (p[ra := rb]) i j \<longleftrightarrow> ?f r = ?f s"
    by (rule same_root_iff [OF new])
  moreover have "same_root p i j \<longleftrightarrow> r = s" "same_root p i a \<longleftrightarrow> r = ra" "same_root p i b \<longleftrightarrow> r = rb"
    "same_root p a j \<longleftrightarrow> ra = s" "same_root p b j \<longleftrightarrow> rb = s"
    using rs assms(3,4) by (simp_all add: same_root_iff)
  ultimately show ?thesis
    using assms(2) by auto
qed

lemma link_forest:
  assumes "forest p" and "ra \<noteq> rb" and "root_of p a ra" and "root_of p b rb"
  shows "forest (p[ra := rb])"
  using assms link_root_of [OF assms(2-4)] unfolding forest_def by (metis length_list_update)

lemma tree_rel_link:
  assumes "forest p" and "a < length p" and "b < length p"
    and "\<And>i j. same_root p' i j \<longleftrightarrow>
      same_root p i j \<or> same_root p i a \<and> same_root p b j \<or> same_root p i b \<and> same_root p a j"
  shows "tree_rel p' = (tree_rel p \<union> {(a, b), (b, a)})\<^sup>+"
proof
  note e = same_root_equiv [of p] same_root_refl [OF assms(1)]
  show "(tree_rel p \<union> {(a, b), (b, a)})\<^sup>+ \<subseteq> tree_rel p'"
  proof (rule subrelI, erule trancl_induct)
    fix x y assume "(x, y) \<in> tree_rel p \<union> {(a, b), (b, a)}"
    then show "(x, y) \<in> tree_rel p'"
      using assms(2,3) e(3) by (auto simp: tree_rel_def assms(4))
  next
    fix x y z assume "(x, y) \<in> tree_rel p'" "(y, z) \<in> tree_rel p \<union> {(a, b), (b, a)}"
    then show "(x, z) \<in> tree_rel p'"
      using assms(2,3) e unfolding tree_rel_def assms(4) by blast
  qed
  show "tree_rel p' \<subseteq> (tree_rel p \<union> {(a, b), (b, a)})\<^sup>+"
  proof (rule subrelI)
    fix i j assume "(i, j) \<in> tree_rel p'"
    then consider "(i, j) \<in> tree_rel p" | "(i, a) \<in> tree_rel p" "(b, j) \<in> tree_rel p" | "(i, b) \<in> tree_rel p" "(a, j) \<in> tree_rel p"
      by (auto simp: tree_rel_def assms(4))
    then show "(i, j) \<in> (tree_rel p \<union> {(a, b), (b, a)})\<^sup>+"
      by cases (blast, (meson UnI1 UnI2 insertI1 insertI2 r_into_trancl trancl_trans)+)
  qed
qed

section \<open>Joining edges\<close>

definition joined :: "nat list \<Rightarrow> (nat \<times> nat) set \<Rightarrow> nat list \<Rightarrow> bool" where
  "joined p S p' \<longleftrightarrow> forest p' \<and> length p' = length p \<and> tree_rel p' = (tree_rel p \<union> S \<union> S\<inverse>)\<^sup>+"

lemma tree_rel_trancl: "(tree_rel p)\<^sup>+ = tree_rel p"
  by (rule trancl_id) (auto simp: tree_rel_def trans_def dest: same_root_equiv(2))

lemma trancl_absorb: "(X\<^sup>+ \<union> Y)\<^sup>+ = (X \<union> Y)\<^sup>+"
proof
  have step: "e \<in> (X \<union> Y)\<^sup>+" if "e \<in> X\<^sup>+ \<union> Y" for e
    using that trancl_mono [of e X "X \<union> Y"] by (cases e) auto
  show "(X\<^sup>+ \<union> Y)\<^sup>+ \<subseteq> (X \<union> Y)\<^sup>+"
    by (rule subrelI, erule trancl_induct) (blast intro: step trancl_trans)+
  show "(X \<union> Y)\<^sup>+ \<subseteq> (X\<^sup>+ \<union> Y)\<^sup>+"
    by (rule subsetI, erule trancl_mono) auto
qed

lemma joined_refl: "forest p \<Longrightarrow> joined p {} p"
  by (simp add: joined_def tree_rel_trancl)

lemma joined_trans: "joined p S p' \<Longrightarrow> joined p' T p'' \<Longrightarrow> joined p (S \<union> T) p''"
  using trancl_absorb [of "tree_rel p \<union> S \<union> S\<inverse>" "T \<union> T\<inverse>"]
  by (auto simp: joined_def Un_ac converse_Un)

lemma join_spec:
  assumes "forest p" and "a < length p" and "b < length p"
  shows "\<exists>p'. join a b p = Some p' \<and> joined p {(a, b)} p'"
proof -
  obtain p1 ra where 1: "find_root p a = Some (p1, ra)" "root_of p a ra" "forest p1" "roots_kept p p1"
    using find_root_spec [OF assms(1,2)] .
  have "b < length p1" using 1 assms by (simp add: roots_kept_def)
  then obtain p2 rb where 2: "find_root p1 b = Some (p2, rb)" "root_of p1 b rb" "forest p2" "roots_kept p1 p2"
    using find_root_spec [OF 1(3)] by blast
  have kept: "roots_kept p p2" and roots: "root_of p2 a ra" "root_of p2 b rb"
    using 1 2 by (auto simp: roots_kept_def)
  then have rel: "same_root p2 i j \<longleftrightarrow> same_root p i j" for i j
    by (simp add: same_root_kept)
  define p' where "p' = (if ra \<noteq> rb then p2[ra := rb] else p2)"
  have "same_root p' i j \<longleftrightarrow> same_root p i j \<or> same_root p i a \<and> same_root p b j \<or> same_root p i b \<and> same_root p a j" for i j
  proof (cases "ra = rb")
    case True
    then have "same_root p a b" using roots rel by (auto simp: same_root_def)
    moreover have "p' = p2" using True by (simp add: p'_def)
    ultimately show ?thesis
      unfolding \<open>p' = p2\<close> rel by (meson same_root_equiv)
  next
    case False
    with link_same_root [OF 2(3) False roots, of i j] show ?thesis by (simp add: p'_def rel)
  qed
  then have "tree_rel p' = (tree_rel p \<union> {(a, b), (b, a)})\<^sup>+"
    by (rule tree_rel_link [OF assms])
  moreover have "forest p'" "length p' = length p"
    using 2(3) link_forest [OF 2(3) _ roots] kept by (auto simp: p'_def roots_kept_def)
  moreover have "tree_rel p \<union> {(a, b)} \<union> {(a, b)}\<inverse> = tree_rel p \<union> {(a, b), (b, a)}" by auto
  ultimately have "joined p {(a, b)} p'"
    by (simp only: joined_def)
  then show ?thesis
    using 1(1) 2(1) by (auto simp: join_def p'_def)
qed

lemma join_targets_spec:
  assumes "forest p" and "a < length p" and "\<And>t b. bm_get idx t = Some b \<Longrightarrow> b < length p"
  shows "\<exists>p'. join_targets idx a ts p = Some p' \<and>
    joined p {(a, b) | t b. t \<in> set ts \<and> bm_get idx t = Some b} p'"
  using assms
proof (induction ts arbitrary: p)
  case Nil
  then show ?case by (simp add: joined_refl)
next
  case (Cons t ts)
  show ?case
  proof (cases "bm_get idx t")
    case None
    have "{(a, b) | x b. x \<in> set (t # ts) \<and> bm_get idx x = Some b} = {(a, b) | x b. x \<in> set ts \<and> bm_get idx x = Some b}"
      using None by auto
    with Cons.IH [OF Cons.prems] None show ?thesis by simp
  next
    case (Some b)
    obtain p1 where p1: "join a b p = Some p1" "joined p {(a, b)} p1"
      using join_spec Cons.prems Some by blast
    then obtain p2 where p2: "join_targets idx a ts p1 = Some p2"
      "joined p1 {(a, b) | t b. t \<in> set ts \<and> bm_get idx t = Some b} p2"
      using Cons.IH [of p1] Cons.prems by (auto simp: joined_def)
    have "{(a, b)} \<union> {(a, b) | x b. x \<in> set ts \<and> bm_get idx x = Some b} =
        {(a, b) | x b. x \<in> set (t # ts) \<and> bm_get idx x = Some b}"
      using Some by auto
    with joined_trans [OF p1(2) p2(2)] p1 p2 Some show ?thesis by simp
  qed
qed

definition index_edges :: "('a::linorder \<times> nat) list \<Rightarrow> ('a \<times> 'a list) list \<Rightarrow> (nat \<times> nat) set" where
  "index_edges idx declared = {(a, b) | r ts t a b. (r, ts) \<in> set declared \<and> t \<in> set ts \<and>
     bm_get idx r = Some a \<and> bm_get idx t = Some b}"

lemma index_edges_Cons:
  "index_edges idx ((r, ts) # declared) =
     {(a, b) | t a b. bm_get idx r = Some a \<and> t \<in> set ts \<and> bm_get idx t = Some b} \<union> index_edges idx declared"
  unfolding index_edges_def by (rule set_eqI) (simp split: prod.split; blast)

lemma join_declared_spec:
  assumes "forest p" and "\<And>t b. bm_get idx t = Some b \<Longrightarrow> b < length p"
  shows "\<exists>p'. join_declared idx declared p = Some p' \<and> joined p (index_edges idx declared) p'"
  using assms
proof (induction declared arbitrary: p)
  case Nil
  then show ?case by (simp add: index_edges_def joined_refl)
next
  case (Cons d declared)
  obtain r ts where d: "d = (r, ts)" by force
  show ?case
  proof (cases "bm_get idx r")
    case None
    have "index_edges idx (d # declared) = index_edges idx declared"
      using None d by (simp add: index_edges_Cons)
    with Cons.IH [OF Cons.prems] None d show ?thesis by simp
  next
    case (Some a)
    obtain p1 where p1: "join_targets idx a ts p = Some p1"
      "joined p {(a, b) | t b. t \<in> set ts \<and> bm_get idx t = Some b} p1"
      using join_targets_spec [of p a idx ts] Cons.prems Some by blast
    then obtain p2 where p2: "join_declared idx declared p1 = Some p2" "joined p1 (index_edges idx declared) p2"
      using Cons.IH [of p1] Cons.prems by (auto simp: joined_def)
    have "{(a, b) | t b. t \<in> set ts \<and> bm_get idx t = Some b} \<union> index_edges idx declared = index_edges idx (d # declared)"
      using Some d by (simp add: index_edges_Cons)
    with joined_trans [OF p1(2) p2(2)] p1 p2 Some d show ?thesis by simp
  qed
qed

section \<open>Grouping by root\<close>

lemma group_nodes_spec:
  assumes "forest p" and "i + length ns \<le> length p" and "bm_ok g" and "list_all (\<lambda>e. bs_ok (snd e)) g"
  shows "\<exists>g'. group_nodes i ns p g = Some g' \<and> bm_ok g' \<and> list_all (\<lambda>e. bs_ok (snd e)) g' \<and>
    (\<forall>r. set (bm_get_or [] g' r) = set (bm_get_or [] g r) \<union> {y. \<exists>j < length ns. y = ns ! j \<and> root_of p (i + j) r}) \<and>
    dom (bm_get g') = dom (bm_get g) \<union> {r. \<exists>j < length ns. root_of p (i + j) r}"
  using assms
proof (induction ns arbitrary: i p g)
  case (Cons x ns)
  obtain p1 r1 where p1: "find_root p i = Some (p1, r1)" "root_of p i r1" "forest p1" "roots_kept p p1"
    using find_root_spec [OF Cons.prems(1)] Cons.prems(2) by (metis add_gr_0 length_greater_0_conv less_add_same_cancel1 list.discI order_less_le_trans)
  let ?g = "bm_entry r1 [] (bs_insert x) g"
  have ok: "bm_ok ?g" "list_all (\<lambda>e. bs_ok (snd e)) ?g"
    using Cons.prems(3,4) by (simp_all add: revisions_values_ok)
  obtain g' where g': "group_nodes (i + 1) ns p1 ?g = Some g'" "bm_ok g'" "list_all (\<lambda>e. bs_ok (snd e)) g'"
    "\<And>r. set (bm_get_or [] g' r) = set (bm_get_or [] ?g r) \<union> {y. \<exists>j < length ns. y = ns ! j \<and> root_of p1 (i + 1 + j) r}"
    "dom (bm_get g') = dom (bm_get ?g) \<union> {r. \<exists>j < length ns. root_of p1 (i + 1 + j) r}"
    using Cons.IH [OF p1(3) _ ok, of "i + 1"] Cons.prems(2) p1(4) by (auto simp: roots_kept_def)
  have at: "root_of p i r \<longleftrightarrow> r = r1" for r
    using p1(2) root_of_det by blast
  have kept: "root_of p1 j r \<longleftrightarrow> root_of p j r" for j r
    using p1(4) by (simp add: roots_kept_def)
  have nodes: "{y. \<exists>j < length (x # ns). y = (x # ns) ! j \<and> root_of p (i + j) r} =
      (if r = r1 then {x} else {}) \<union> {y. \<exists>j < length ns. y = ns ! j \<and> root_of p (i + 1 + j) r}" for r
    by (auto simp: Ex_less_Suc2 at)
  have roots: "{r. \<exists>j < length (x # ns). root_of p (i + j) r} = insert r1 {r. \<exists>j < length ns. root_of p (i + 1 + j) r}"
    by (auto simp: Ex_less_Suc2 at)
  have "set (bm_get_or [] ?g r) = set (bm_get_or [] g r) \<union> (if r = r1 then {x} else {})" for r
    using Cons.prems(3) by (simp add: bm_get_or_entry)
  then show ?case
    using g' p1(1) Cons.prems(3) unfolding nodes roots kept by (auto simp: bm_get_entry)
qed (simp)

lemma index_of_nodes_get:
  assumes "distinct ns"
  shows "bm_get (index_of_nodes ns) x = Some i \<longleftrightarrow> i < length ns \<and> ns ! i = x"
proof -
  have "map_of (rev (zip ns [0..<length ns])) x = Some i \<longleftrightarrow> (x, i) \<in> set (zip ns [0..<length ns])"
    using assms by (subst map_of_functional) (auto simp: in_set_zip nth_eq_iff_index_eq)
  then show ?thesis
    by (auto simp: index_of_nodes_def bm_fold_insert in_set_zip)
qed

lemma forest_initial: "forest [0..<n]" "tree_rel [0..<n] = Id_on {..<n}"
proof -
  have r: "root_of [0..<n] i r \<longleftrightarrow> i < n \<and> r = i" for i r
    unfolding root_of_def by (subst root_in.simps) (auto intro: root_in.here)
  then show "forest [0..<n]" "tree_rel [0..<n] = Id_on {..<n}"
    by (auto simp: forest_def tree_rel_def same_root_def)
qed

definition thread_edges :: "'a list \<Rightarrow> ('a \<times> 'a list) list \<Rightarrow> ('a \<times> 'a) set" where
  "thread_edges known declared = {(x, y). x \<in> set known \<and> y \<in> set known \<and> (\<exists>ts. (x, ts) \<in> set declared \<and> y \<in> set ts)}"

lemma index_edges_iff:
  assumes "distinct known"
  shows "(a, b) \<in> index_edges (index_of_nodes known) declared \<longleftrightarrow>
    a < length known \<and> b < length known \<and> (known ! a, known ! b) \<in> thread_edges known declared"
  using index_of_nodes_get [OF assms] by (auto simp: index_edges_def thread_edges_def)

lemma index_connected_iff:
  fixes declared :: "('a::linorder \<times> 'a list) list"
  assumes "distinct known" and "i < length known" and "j < length known"
  defines "S \<equiv> index_edges (index_of_nodes known) declared" and "T \<equiv> thread_edges known declared"
  shows "(i, j) \<in> (Id_on {..<length known} \<union> S \<union> S\<inverse>)\<^sup>+ \<longleftrightarrow> (known ! i, known ! j) \<in> (T \<union> T\<inverse>)\<^sup>*"
    (is "_ \<in> ?R\<^sup>+ \<longleftrightarrow> _")
proof
  have step: "(known ! a, known ! b) \<in> (T \<union> T\<inverse>)\<^sup>*" if "(a, b) \<in> ?R" for a b
    using that index_edges_iff [OF assms(1), of _ _ declared] by (auto simp: S_def T_def)
  assume "(i, j) \<in> ?R\<^sup>+"
  then show "(known ! i, known ! j) \<in> (T \<union> T\<inverse>)\<^sup>*"
    by (induction rule: trancl_induct) (blast intro: step rtrancl_trans)+
next
  have "\<exists>k < length known. known ! k = y \<and> (i, k) \<in> ?R\<^sup>+" if "(known ! i, y) \<in> (T \<union> T\<inverse>)\<^sup>*" for y
    using that
  proof (induction rule: rtrancl_induct)
    case base
    then show ?case using assms(2) by (intro exI [of _ i]) auto
  next
    case (step y z)
    then obtain k where k: "k < length known" "known ! k = y" "(i, k) \<in> ?R\<^sup>+" by blast
    obtain l where l: "l < length known" "known ! l = z"
      using step.hyps(2) by (auto simp: T_def thread_edges_def in_set_conv_nth)
    have "(k, l) \<in> ?R"
      using step.hyps(2) k l index_edges_iff [OF assms(1), of _ _ declared] by (auto simp: S_def T_def)
    with k l show ?case by (blast intro: trancl_into_trancl)
  qed
  moreover assume "(known ! i, known ! j) \<in> (T \<union> T\<inverse>)\<^sup>*"
  ultimately show "(i, j) \<in> ?R\<^sup>+"
    using assms(1,3) by (metis nth_eq_iff_index_eq)
qed

lemma connected_components_spec:
  fixes known :: "'a::linorder list"
  assumes "bs_ok known"
  shows "\<exists>comps. connected_components known declared = Some comps \<and> distinct comps \<and>
    (\<forall>C \<in> set comps. bs_ok C \<and> C \<noteq> []) \<and>
    (\<forall>C \<in> set comps. \<forall>C' \<in> set comps. set C \<inter> set C' \<noteq> {} \<longrightarrow> C = C') \<and>
    (\<forall>x y. (\<exists>C \<in> set comps. x \<in> set C \<and> y \<in> set C) \<longleftrightarrow> x \<in> set known \<and> y \<in> set known \<and>
       (x, y) \<in> (thread_edges known declared \<union> (thread_edges known declared)\<inverse>)\<^sup>*)"
proof -
  let ?n = "length known" and ?T = "thread_edges known declared"
  have d: "distinct known" using bs_ok_distinct [OF assms] .
  obtain p where p: "join_declared (index_of_nodes known) declared [0..<?n] = Some p"
    "joined [0..<?n] (index_edges (index_of_nodes known) declared) p"
    using join_declared_spec [of "[0..<?n]" "index_of_nodes known" declared] forest_initial(1) index_of_nodes_get [OF d] by auto
  then have fp: "forest p" "length p = ?n" by (auto simp: joined_def)
  have rel: "same_root p i j \<longleftrightarrow> (known ! i, known ! j) \<in> (?T \<union> ?T\<inverse>)\<^sup>*" if "i < ?n" "j < ?n" for i j
  proof -
    have "tree_rel p = (Id_on {..<?n} \<union> index_edges (index_of_nodes known) declared \<union>
        (index_edges (index_of_nodes known) declared)\<inverse>)\<^sup>+"
      using p(2) unfolding joined_def forest_initial(2) by blast
    then have "(i, j) \<in> tree_rel p \<longleftrightarrow> (known ! i, known ! j) \<in> (?T \<union> ?T\<inverse>)\<^sup>*"
      using index_connected_iff [OF d that] by blast
    then show ?thesis by (simp add: tree_rel_def)
  qed
  obtain g where g: "group_nodes 0 known p [] = Some g" "bm_ok g" "list_all (\<lambda>e. bs_ok (snd e)) g"
    "\<And>r. set (bm_get_or [] g r) = {y. \<exists>j < ?n. y = known ! j \<and> root_of p j r}"
    "dom (bm_get g) = {r. \<exists>j < ?n. root_of p j r}"
    using group_nodes_spec [OF fp(1), of 0 known "[]"] fp(2) by (auto simp: bm_get_or_def)
  have mem: "(r, C) \<in> set g \<longleftrightarrow> (\<exists>j < ?n. root_of p j r) \<and> bs_ok C \<and> set C = {y. \<exists>j < ?n. y = known ! j \<and> root_of p j r}" for r C
  proof -
    have "(r, C) \<in> set g \<longleftrightarrow> r \<in> dom (bm_get g) \<and> C = bm_get_or [] g r"
      using bm_mem_iff [OF g(2), of r C] by (auto simp: bm_get_or_def dom_def)
    moreover have "bs_ok (bm_get_or [] g r)"
      using bm_get_or_ok [OF g(3), of "[]" r] by simp
    ultimately show ?thesis
      unfolding g(5) using g(4) [of r] bs_ext [of C "bm_get_or [] g r"] by auto
  qed
  have classes: "(\<exists>C \<in> set (map snd g). x \<in> set C \<and> y \<in> set C) \<longleftrightarrow>
      (\<exists>i < ?n. \<exists>j < ?n. x = known ! i \<and> y = known ! j \<and> same_root p i j)" for x y
  proof -
    have "(\<exists>C \<in> set (map snd g). x \<in> set C \<and> y \<in> set C) \<longleftrightarrow> (\<exists>r C. (r, C) \<in> set g \<and> x \<in> set C \<and> y \<in> set C)"
      by force
    also have "\<dots> \<longleftrightarrow> (\<exists>i < ?n. \<exists>j < ?n. x = known ! i \<and> y = known ! j \<and> same_root p i j)"
    proof
      assume "\<exists>r C. (r, C) \<in> set g \<and> x \<in> set C \<and> y \<in> set C"
      then obtain r C where "set C = {y. \<exists>j < ?n. y = known ! j \<and> root_of p j r}" "x \<in> set C" "y \<in> set C"
        unfolding mem by blast
      then show "\<exists>i < ?n. \<exists>j < ?n. x = known ! i \<and> y = known ! j \<and> same_root p i j"
        unfolding same_root_def by blast
    next
      assume "\<exists>i < ?n. \<exists>j < ?n. x = known ! i \<and> y = known ! j \<and> same_root p i j"
      then obtain i j r where ij: "i < ?n" "j < ?n" "x = known ! i" "y = known ! j" "root_of p i r" "root_of p j r"
        unfolding same_root_def by blast
      then have "r \<in> dom (bm_get g)" unfolding g(5) by blast
      then obtain C where "(r, C) \<in> set g" using bm_mem_iff [OF g(2)] by auto
      with ij show "\<exists>r C. (r, C) \<in> set g \<and> x \<in> set C \<and> y \<in> set C"
        unfolding mem by (intro exI [of _ r] exI [of _ C]) auto
    qed
    finally show ?thesis .
  qed
  have single: "e = f" if e: "e \<in> set g" "f \<in> set g" "x \<in> set (snd e)" "x \<in> set (snd f)" for e f x
  proof -
    obtain r C s D where ef: "e = (r, C)" "f = (s, D)" by (metis prod.collapse)
    then obtain i j where ij: "i < ?n" "j < ?n" "x = known ! i" "x = known ! j" "root_of p i r" "root_of p j s"
      using e mem by auto
    then have "i = j" using d by (simp add: nth_eq_iff_index_eq)
    then have "r = s" using ij root_of_det by blast
    moreover have "C = D" using e(1,2) mem bs_ext [of C D] unfolding ef \<open>r = s\<close> by simp
    ultimately show ?thesis by (simp add: ef)
  qed
  have disjoint: "C = D" if CD: "C \<in> set (map snd g)" "D \<in> set (map snd g)" "set C \<inter> set D \<noteq> {}" for C D
  proof -
    obtain x where "x \<in> set C" "x \<in> set D" using CD(3) by blast
    moreover obtain e f where "e \<in> set g" "f \<in> set g" "C = snd e" "D = snd f" using CD(1,2) by auto
    ultimately show ?thesis using single by blast
  qed
  have "distinct (map snd g)"
  proof (rule distinct_map [THEN iffD2, OF conjI])
    show "distinct g" using bm_ok_distinct [OF g(2)] by (simp add: distinct_map)
    show "inj_on snd (set g)"
    proof (rule inj_onI)
      fix e f assume ef: "e \<in> set g" "f \<in> set g" "snd e = snd f"
      obtain r C where e: "e = (r, C)" by force
      obtain i where "i < ?n" "root_of p i r" using ef(1) mem e by blast
      then have "known ! i \<in> set C" using ef(1) mem e by auto
      then show "e = f" using single [OF ef(1,2), of "known ! i"] ef(3) e by simp
    qed
  qed
  moreover have "bs_ok C \<and> C \<noteq> []" if C: "C \<in> set (map snd g)" for C
  proof -
    obtain e where "e \<in> set g" "C = snd e" using C by auto
    then have r: "(fst e, C) \<in> set g" by simp
    then obtain i where "i < ?n" "root_of p i (fst e)" using mem by blast
    then have "known ! i \<in> set C" using r mem by blast
    then show ?thesis using r mem by auto
  qed
  moreover have "(\<exists>C \<in> set (map snd g). x \<in> set C \<and> y \<in> set C) \<longleftrightarrow>
      x \<in> set known \<and> y \<in> set known \<and> (x, y) \<in> (?T \<union> ?T\<inverse>)\<^sup>*" for x y
    unfolding classes in_set_conv_nth [of _ known] using rel by metis
  moreover have "connected_components known declared = Some (map snd g)"
    using p(1) g(1) by (simp add: connected_components_def)
  ultimately show ?thesis using disjoint by blast
qed
section \<open>Properties\<close>

text \<open>\<open>find_root\<close> ends on every forest of parents: although it rewrites the parents while it walks
  (path halving), it returns the root of the node it started from, and the rewritten vector
  has the same length and the same root at every node.\<close>

theorem find_root_terminates:
  assumes "forest p" and "i < length p"
  shows "\<exists>p' r. find_root p i = Some (p', r) \<and> root_of p i r \<and> length p' = length p \<and>
    (\<forall>j s. root_of p' j s \<longleftrightarrow> root_of p j s)"
  by (rule find_root_spec [OF assms]) (auto simp: roots_kept_def)

theorem find_root_terminates_witness:
  "\<exists>p' r. find_root [0, 0, 1, 2] 3 = Some (p', r) \<and> root_of [0, 0, 1, 2] 3 r \<and> length p' = 4"
proof -
  have r: "root_of [0, 0, 1, 2] i 0" if "i < 4" for i
  proof -
    have "root_of [0, 0, 1, 2] 0 0" "root_of [0, 0, 1, 2] 1 0" "root_of [0, 0, 1, 2] 2 0" "root_of [0, 0, 1, 2] 3 0"
      unfolding root_of_def by (fastforce simp: numeral_eq_Suc intro: root_in.intros)+
    then show ?thesis using that by (auto simp: less_Suc_eq numeral_eq_Suc)
  qed
  have "forest [0, 0, 1, 2]" unfolding forest_def by (intro allI impI exI [of _ 0] r) simp
  from find_root_terminates [OF this, of 3] show ?thesis by auto
qed

text \<open>C27. The threads are the connected components: for a set of known Revisions and any declared edges,
  the union-find pass returns non-empty, pairwise disjoint, strictly sorted groups, and two
  Revisions are in one group exactly when both are known and a chain of edges between known
  Revisions, taken in either direction, connects them.\<close>

theorem threads_are_components:
  fixes known :: "'a::linorder list"
  assumes "bs_ok known"
  shows "\<exists>comps. connected_components known declared = Some comps \<and>
    (\<forall>C \<in> set comps. bs_ok C \<and> C \<noteq> []) \<and>
    (\<forall>C \<in> set comps. \<forall>C' \<in> set comps. set C \<inter> set C' \<noteq> {} \<longrightarrow> C = C') \<and>
    (\<forall>x y. (\<exists>C \<in> set comps. x \<in> set C \<and> y \<in> set C) \<longleftrightarrow> x \<in> set known \<and> y \<in> set known \<and>
       (x, y) \<in> (thread_edges known declared \<union> (thread_edges known declared)\<inverse>)\<^sup>*)"
  using connected_components_spec [OF assms, of declared] by (elim exE conjE) (intro exI conjI)

theorem threads_are_components_witness:
  "\<exists>comps. connected_components [1, 2, 3 :: nat] [(1, [3, 7])] = Some comps \<and> (\<exists>C \<in> set comps. 1 \<in> set C \<and> 3 \<in> set C)"
proof -
  have "bs_ok [1, 2, 3 :: nat]" by simp
  from threads_are_components [OF this, of "[(1, [3, 7])]"] obtain comps
    where c: "connected_components [1, 2, 3 :: nat] [(1, [3, 7])] = Some comps"
      and in_iff: "\<forall>x y. (\<exists>C \<in> set comps. x \<in> set C \<and> y \<in> set C) \<longleftrightarrow> x \<in> set [1, 2, 3] \<and> y \<in> set [1, 2, 3] \<and>
       (x, y) \<in> (thread_edges [1, 2, 3] [(1, [3, 7])] \<union> (thread_edges [1, 2, 3] [(1, [3, 7])])\<inverse>)\<^sup>*"
    by blast
  have "(1, 3) \<in> thread_edges [1, 2, 3 :: nat] [(1, [3, 7])]" by (simp add: thread_edges_def)
  then have "\<exists>C \<in> set comps. 1 \<in> set C \<and> 3 \<in> set C" using in_iff [rule_format, of 1 3] by auto
  with c show ?thesis by blast
qed

end
