(* ===== verification/Tarjan.thy ===== *)
theory Tarjan
  imports Prelude "HOL-Library.Monad_Syntax"
begin

text \<open>
  The iterative strongly-connected-components search of
  \<open>src/src/session/projection/supersession.rs\<close> (\<open>directed_cycles\<close>). One iteration of its
  \<open>while let\<close> loop is \<open>tarjan_step\<close>. The vectors \<open>stack\<close> and \<open>call_stack\<close> are lists with the last
  element first; the sentinel \<open>usize::MAX\<close> of \<open>index\<close>, which no position of a vector reaches, is
  \<open>None\<close>. A pop from an empty stack (the source's \<open>expect\<close>) and a loop that does not end are the
  value \<open>None\<close> of the result. The lemmas show that the search returns on every graph and that
  what it collects are exactly the strongly connected components.
\<close>

section \<open>The code\<close>


record tarjan_state =
  ts_index :: "nat option list"
  ts_lowlink :: "nat list"
  ts_on_stack :: "bool list"
  ts_stack :: "nat list"
  ts_next_index :: nat
  ts_sccs :: "nat list list"
  ts_call_stack :: "(nat \<times> nat) list"

definition open_node :: "nat \<Rightarrow> tarjan_state \<Rightarrow> tarjan_state" where
  "open_node node s =
     s\<lparr>ts_index := (ts_index s)[node := Some (ts_next_index s)],
       ts_lowlink := (ts_lowlink s)[node := ts_next_index s],
       ts_next_index := ts_next_index s + 1,
       ts_stack := node # ts_stack s,
       ts_on_stack := (ts_on_stack s)[node := True]\<rparr>"

definition scan_edge :: "nat list list \<Rightarrow> nat \<Rightarrow> nat \<Rightarrow> tarjan_state \<Rightarrow> tarjan_state" where
  "scan_edge adjacency node cursor s =
     (let child = adjacency ! node ! cursor;
          s = s\<lparr>ts_call_stack := (node, cursor + 1) # tl (ts_call_stack s)\<rparr>
      in case ts_index s ! child of
           None \<Rightarrow> s\<lparr>ts_call_stack := (child, 0) # ts_call_stack s\<rparr>
         | Some i \<Rightarrow>
             if ts_on_stack s ! child then
               s\<lparr>ts_lowlink := (ts_lowlink s)[node := min (ts_lowlink s ! node) i]\<rparr>
             else s)"

fun pop_scc :: "nat \<Rightarrow> nat list \<Rightarrow> bool list \<Rightarrow> nat list \<Rightarrow> (nat list \<times> bool list \<times> nat list) option" where
  "pop_scc node [] on_stack scc = None"
| "pop_scc node (popped # stack) on_stack scc =
     (let on_stack = on_stack[popped := False]; scc = scc @ [popped]
      in if popped = node then Some (stack, on_stack, scc) else pop_scc node stack on_stack scc)"

definition close_node :: "nat \<Rightarrow> tarjan_state \<Rightarrow> tarjan_state option" where
  "close_node node s = do {
     s \<leftarrow> (if ts_index s ! node = Some (ts_lowlink s ! node) then do {
             (stack, on_stack, scc) \<leftarrow> pop_scc node (ts_stack s) (ts_on_stack s) [];
             Some (s\<lparr>ts_stack := stack, ts_on_stack := on_stack, ts_sccs := ts_sccs s @ [scc]\<rparr>)
           } else Some s);
     let s = s\<lparr>ts_call_stack := tl (ts_call_stack s)\<rparr>;
     Some (case ts_call_stack s of
             [] \<Rightarrow> s
           | (parent, _) # _ \<Rightarrow>
               s\<lparr>ts_lowlink := (ts_lowlink s)[parent := min (ts_lowlink s ! parent) (ts_lowlink s ! node)]\<rparr>)
   }"

definition tarjan_step :: "nat list list \<Rightarrow> tarjan_state \<Rightarrow> tarjan_state option" where
  "tarjan_step adjacency s =
     (case ts_call_stack s of
        [] \<Rightarrow> Some s
      | (node, cursor) # _ \<Rightarrow>
          let s = (if cursor = 0 then open_node node s else s)
          in if cursor < length (adjacency ! node) then Some (scan_edge adjacency node cursor s)
             else close_node node s)"

partial_function (option) tarjan_loop :: "nat list list \<Rightarrow> tarjan_state \<Rightarrow> tarjan_state option" where
  "tarjan_loop adjacency s =
     (if ts_call_stack s = [] then Some s
      else do { s \<leftarrow> tarjan_step adjacency s; tarjan_loop adjacency s })"

declare tarjan_loop.simps [code]

fun tarjan_starts :: "nat list list \<Rightarrow> nat list \<Rightarrow> tarjan_state \<Rightarrow> tarjan_state option" where
  "tarjan_starts adjacency [] s = Some s"
| "tarjan_starts adjacency (start # starts) s =
     (if ts_index s ! start \<noteq> None then tarjan_starts adjacency starts s
      else do {
        s \<leftarrow> tarjan_loop adjacency (s\<lparr>ts_call_stack := [(start, 0)]\<rparr>);
        tarjan_starts adjacency starts s
      })"

definition tarjan_initial :: "nat \<Rightarrow> tarjan_state" where
  "tarjan_initial n =
     \<lparr>ts_index = replicate n None, ts_lowlink = replicate n 0, ts_on_stack = replicate n False,
      ts_stack = [], ts_next_index = 0, ts_sccs = [], ts_call_stack = []\<rparr>"


section \<open>Invariant\<close>

abbreviation gray :: "(nat \<times> nat) list \<Rightarrow> nat set" where
  "gray cs \<equiv> fst ` set cs"

abbreviation ix :: "tarjan_state \<Rightarrow> nat \<Rightarrow> nat" where
  "ix s v \<equiv> the (ts_index s ! v)"

definition graph_edges :: "nat list list \<Rightarrow> (nat \<times> nat) set" where
  "graph_edges adj = {(i, j). i < length adj \<and> j \<in> set (adj ! i)}"

definition closed_nodes :: "tarjan_state \<Rightarrow> nat set" where
  "closed_nodes s = \<Union> (set ` set (ts_sccs s))"

definition is_scc :: "(nat \<times> nat) set \<Rightarrow> nat set \<Rightarrow> bool" where
  "is_scc E C \<longleftrightarrow> C \<noteq> {} \<and> (\<forall>x \<in> C. \<forall>y. y \<in> C \<longleftrightarrow> (x, y) \<in> E\<^sup>* \<and> (y, x) \<in> E\<^sup>*)"

text \<open>The successors of a node the search has looked at.\<close>

definition seen :: "nat list list \<Rightarrow> (nat \<times> nat) list \<Rightarrow> nat \<Rightarrow> nat set" where
  "seen adj cs x = (case map_of cs x of None \<Rightarrow> set (adj ! x) | Some c \<Rightarrow> set (take c (adj ! x)))"

definition shape_inv :: "nat list list \<Rightarrow> tarjan_state \<Rightarrow> bool" where
  "shape_inv adj s \<longleftrightarrow>
     length (ts_index s) = length adj \<and> length (ts_lowlink s) = length adj \<and> length (ts_on_stack s) = length adj \<and>
     (\<forall>v < length adj. ts_on_stack s ! v \<longleftrightarrow> v \<in> set (ts_stack s)) \<and>
     (\<forall>v < length adj. ts_index s ! v \<noteq> None \<longleftrightarrow> v \<in> set (ts_stack s) \<union> closed_nodes s) \<and>
     set (ts_stack s) \<union> closed_nodes s \<subseteq> {..<length adj} \<and>
     set (ts_stack s) \<inter> closed_nodes s = {} \<and>
     ts_next_index s = card (set (ts_stack s) \<union> closed_nodes s) \<and>
     (\<forall>v \<in> set (ts_stack s). ix s v < ts_next_index s) \<and>
     sorted_wrt (\<lambda>x y. ix s x > ix s y) (ts_stack s)"

definition calls_inv :: "nat list list \<Rightarrow> (nat \<times> nat) list \<Rightarrow> tarjan_state \<Rightarrow> bool" where
  "calls_inv adj cs s \<longleftrightarrow>
     gray cs \<subseteq> set (ts_stack s) \<and> (\<forall>(v, c) \<in> set cs. c \<le> length (adj ! v)) \<and>
     sorted_wrt (\<lambda>x y. ix s x > ix s y) (map fst cs)"

definition paths_inv :: "nat list list \<Rightarrow> (nat \<times> nat) list \<Rightarrow> tarjan_state \<Rightarrow> bool" where
  "paths_inv adj cs s \<longleftrightarrow>
     (\<forall>g \<in> gray cs. \<forall>x \<in> set (ts_stack s). ix s g \<le> ix s x \<longrightarrow> (g, x) \<in> (graph_edges adj)\<^sup>*) \<and>
     (\<forall>x \<in> set (ts_stack s). \<exists>g \<in> gray cs. ix s g \<le> ix s x \<and> (x, g) \<in> (graph_edges adj)\<^sup>*)"

definition closed_inv :: "nat list list \<Rightarrow> tarjan_state \<Rightarrow> bool" where
  "closed_inv adj s \<longleftrightarrow>
     graph_edges adj `` closed_nodes s \<subseteq> closed_nodes s \<and> (\<forall>C \<in> set (ts_sccs s). is_scc (graph_edges adj) (set C) \<and> distinct C) \<and>
     distinct (map set (ts_sccs s))"

definition seen_inv :: "nat list list \<Rightarrow> (nat \<times> nat) list \<Rightarrow> nat set \<Rightarrow> tarjan_state \<Rightarrow> bool" where
  "seen_inv adj cs pend s \<longleftrightarrow>
     (\<forall>x \<in> set (ts_stack s). seen adj cs x \<subseteq> set (ts_stack s) \<union> closed_nodes s \<union> pend)"

definition low_inv :: "nat list list \<Rightarrow> (nat \<times> nat) list \<Rightarrow> tarjan_state \<Rightarrow> bool" where
  "low_inv adj cs s \<longleftrightarrow>
     (\<forall>g \<in> gray cs. ts_lowlink s ! g \<le> ix s g \<and>
        (\<exists>y \<in> set (ts_stack s). ix s y = ts_lowlink s ! g \<and> (g, y) \<in> (graph_edges adj)\<^sup>*)) \<and>
     (\<forall>x \<in> set (ts_stack s). \<forall>y \<in> seen adj cs x \<inter> set (ts_stack s). \<forall>g \<in> gray cs.
        ix s g \<le> ix s x \<and> (\<forall>h \<in> gray cs. ix s g < ix s h \<longrightarrow> ix s x < ix s h) \<longrightarrow>
        ts_lowlink s ! g \<le> ix s y)"

definition tarjan_inv :: "nat list list \<Rightarrow> (nat \<times> nat) list \<Rightarrow> nat set \<Rightarrow> tarjan_state \<Rightarrow> bool" where
  "tarjan_inv adj cs pend s \<longleftrightarrow> shape_inv adj s \<and> calls_inv adj cs s \<and> paths_inv adj cs s \<and> closed_inv adj s \<and>
     seen_inv adj cs pend s \<and> low_inv adj cs s"

definition graph_ok :: "nat list list \<Rightarrow> bool" where
  "graph_ok adj \<longleftrightarrow> (\<forall>i < length adj. \<forall>j \<in> set (adj ! i). j < length adj)"


section \<open>Opening a node\<close>

lemma shapeD:
  assumes "shape_inv adj s"
  shows "length (ts_index s) = length adj" "length (ts_lowlink s) = length adj" "length (ts_on_stack s) = length adj"
    "\<And>v. v < length adj \<Longrightarrow> ts_on_stack s ! v \<longleftrightarrow> v \<in> set (ts_stack s)"
    "\<And>v. v < length adj \<Longrightarrow> ts_index s ! v \<noteq> None \<longleftrightarrow> v \<in> set (ts_stack s) \<or> v \<in> closed_nodes s"
    "\<And>v. v \<in> set (ts_stack s) \<Longrightarrow> v < length adj" "\<And>v. v \<in> closed_nodes s \<Longrightarrow> v < length adj"
    "\<And>v. v \<in> set (ts_stack s) \<Longrightarrow> v \<notin> closed_nodes s"
    "ts_next_index s = card (set (ts_stack s) \<union> closed_nodes s)"
    "\<And>v. v \<in> set (ts_stack s) \<Longrightarrow> ix s v < ts_next_index s"
    "sorted_wrt (\<lambda>x y. ix s x > ix s y) (ts_stack s)"
  using assms unfolding shape_inv_def by blast+

lemma shape_fresh:
  assumes "shape_inv adj s" and "v < length adj" and "ts_index s ! v = None"
  shows "v \<notin> set (ts_stack s)" and "v \<notin> closed_nodes s"
  using shapeD(5) [OF assms(1,2)] assms(3) by blast+

lemma open_ix:
  assumes "shape_inv adj s" and "v < length adj"
  shows "ix (open_node v s) v = ts_next_index s" and "x \<noteq> v \<Longrightarrow> ts_index (open_node v s) ! x = ts_index s ! x"
    and "ts_lowlink (open_node v s) ! v = ts_next_index s" and "x \<noteq> v \<Longrightarrow> ts_lowlink (open_node v s) ! x = ts_lowlink s ! x"
  using assms(2) shapeD(1,2) [OF assms(1)] by (simp_all add: open_node_def)

lemma open_fields [simp]:
  "ts_stack (open_node v s) = v # ts_stack s" "ts_sccs (open_node v s) = ts_sccs s"
  "closed_nodes (open_node v s) = closed_nodes s" "ts_next_index (open_node v s) = Suc (ts_next_index s)"
  "ts_call_stack (open_node v s) = ts_call_stack s"
  by (simp_all add: open_node_def closed_nodes_def)

lemma open_shape:
  assumes "shape_inv adj s" and "v < length adj" and "ts_index s ! v = None"
  shows "shape_inv adj (open_node v s)"
proof -
  note f = shape_fresh [OF assms] and i = open_ix [OF assms(1,2)] and d = shapeD [OF assms(1)]
  have old: "ix (open_node v s) x = ix s x" if "x \<in> set (ts_stack s)" for x
    using i(2) [of x] that f(1) by metis
  have fin: "finite (set (ts_stack s) \<union> closed_nodes s)"
    by (rule finite_subset [of _ "{..<length adj}"]) (use d(6,7) in blast, simp)
  have card: "card (insert v (set (ts_stack s) \<union> closed_nodes s)) = Suc (ts_next_index s)"
    unfolding d(9) using fin f by (intro card_insert_disjoint) blast+
  have "\<forall>x < length adj. ts_on_stack (open_node v s) ! x \<longleftrightarrow> x \<in> set (v # ts_stack s)"
    using d(3,4) assms(2) by (auto simp: open_node_def nth_list_update)
  moreover have "\<forall>x < length adj. ts_index (open_node v s) ! x \<noteq> None \<longleftrightarrow> x \<in> set (v # ts_stack s) \<union> closed_nodes s"
    using d(1,5) assms(2) by (auto simp: open_node_def nth_list_update)
  moreover have "\<forall>x \<in> set (v # ts_stack s). ix (open_node v s) x < Suc (ts_next_index s)"
    using i(1) old d(10) by (auto simp: less_Suc_eq)
  moreover have "sorted_wrt (\<lambda>x y. ix (open_node v s) x > ix (open_node v s) y) (v # ts_stack s)"
    using d(10,11) old i(1) by (auto intro: sorted_wrt_mono_rel [of "ts_stack s" "\<lambda>x y. ix s x > ix s y"])
  ultimately show ?thesis
    using d(1,2,3,6,7,8) assms(2) f card unfolding shape_inv_def open_fields
    by (simp add: open_node_def) blast
qed

lemma seen_Cons: "seen adj ((v, c) # cs) x = (if x = v then set (take c (adj ! v)) else seen adj cs x)"
  by (simp add: seen_def)

lemma open_old:
  assumes "shape_inv adj s" and "v < length adj" and "ts_index s ! v = None" and "x \<in> set (ts_stack s)"
  shows "x \<noteq> v" and "ix (open_node v s) x = ix s x" and "ts_lowlink (open_node v s) ! x = ts_lowlink s ! x"
    and "ix s x < ix (open_node v s) v"
proof -
  show ne: "x \<noteq> v" using shape_fresh(1) [OF assms(1-3)] assms(4) by blast
  show "ix (open_node v s) x = ix s x" "ts_lowlink (open_node v s) ! x = ts_lowlink s ! x"
    using open_ix(2,4) [OF assms(1,2) ne] by simp_all
  show "ix s x < ix (open_node v s) v"
    using open_ix(1) [OF assms(1,2)] shapeD(10) [OF assms(1,4)] by simp
qed

lemma callsD:
  assumes "calls_inv adj cs s"
  shows "\<And>g. g \<in> gray cs \<Longrightarrow> g \<in> set (ts_stack s)" "\<And>v c. (v, c) \<in> set cs \<Longrightarrow> c \<le> length (adj ! v)"
    "sorted_wrt (\<lambda>x y. ix s x > ix s y) (map fst cs)"
  using assms unfolding calls_inv_def by blast+

lemma open_calls:
  assumes "shape_inv adj s" and "v < length adj" and "ts_index s ! v = None" and "calls_inv adj cs s"
  shows "calls_inv adj ((v, 0) # cs) (open_node v s)"
proof -
  note old = open_old [OF assms(1-3)] and c = callsD [OF assms(4)]
  have "sorted_wrt (\<lambda>x y. ix (open_node v s) x > ix (open_node v s) y) (map fst cs)"
    by (rule sorted_wrt_mono_rel [OF _ c(3)]) (use old(2) c(1) in auto)
  then show ?thesis
    using c(1,2) old unfolding calls_inv_def open_fields by fastforce
qed

lemma pathsD:
  assumes "paths_inv adj cs s"
  shows "\<And>g x. g \<in> gray cs \<Longrightarrow> x \<in> set (ts_stack s) \<Longrightarrow> ix s g \<le> ix s x \<Longrightarrow> (g, x) \<in> (graph_edges adj)\<^sup>*"
    "\<And>x. x \<in> set (ts_stack s) \<Longrightarrow> \<exists>g \<in> gray cs. ix s g \<le> ix s x \<and> (x, g) \<in> (graph_edges adj)\<^sup>*"
  using assms unfolding paths_inv_def by blast+

lemma gray_top:
  assumes "calls_inv adj ((w, c) # cs) s" and "g \<in> gray ((w, c) # cs)"
  shows "ix s g \<le> ix s w"
  using callsD(3) [OF assms(1)] assms(2) by (auto simp: less_imp_le)

lemma open_paths:
  assumes "shape_inv adj s" and "v < length adj" and "ts_index s ! v = None" and "calls_inv adj cs s"
    and "paths_inv adj cs s" and "cs = [] \<or> (fst (hd cs), v) \<in> graph_edges adj"
  shows "paths_inv adj ((v, 0) # cs) (open_node v s)"
proof -
  note old = open_old [OF assms(1-3)] and c = callsD [OF assms(4)] and p = pathsD [OF assms(5)]
  let ?s = "open_node v s"
  have reach: "(g, v) \<in> (graph_edges adj)\<^sup>*" if g: "g \<in> gray cs" for g
  proof -
    obtain w k rest where cs: "cs = (w, k) # rest" using g by (cases cs) auto
    have "(g, w) \<in> (graph_edges adj)\<^sup>*"
      using p(1) [OF g, of w] gray_top [of adj w k rest s g] assms(4) g c(1) [of w] by (auto simp: cs)
    then show ?thesis using assms(6) cs by (auto intro: rtrancl_into_rtrancl)
  qed
  have "(g, x) \<in> (graph_edges adj)\<^sup>*" if "g \<in> gray ((v, 0) # cs)" "x \<in> set (v # ts_stack s)" "ix ?s g \<le> ix ?s x" for g x
  proof (cases "x = v")
    case True
    then show ?thesis using that(1) reach by auto
  next
    case False
    then have x: "x \<in> set (ts_stack s)" using that(2) by simp
    then have "g \<noteq> v" using old [OF x] that(3) by auto
    then have g: "g \<in> gray cs" using that(1) by auto
    then show ?thesis using p(1) [OF g x] that(3) old(2) [OF x] old(2) [OF c(1) [OF g]] by simp
  qed
  moreover have "\<exists>g \<in> gray ((v, 0) # cs). ix ?s g \<le> ix ?s x \<and> (x, g) \<in> (graph_edges adj)\<^sup>*" if "x \<in> set (v # ts_stack s)" for x
  proof (cases "x = v")
    case False
    then have x: "x \<in> set (ts_stack s)" using that by simp
    obtain g where g: "g \<in> gray cs" "ix s g \<le> ix s x" "(x, g) \<in> (graph_edges adj)\<^sup>*" using p(2) [OF x] by blast
    then show ?thesis using old(2) [OF x] old(2) [OF c(1) [OF g(1)]] by (intro bexI [of _ g]) simp_all
  qed auto
  ultimately show ?thesis unfolding paths_inv_def open_fields by blast
qed

lemma lowD:
  assumes "low_inv adj cs s"
  shows "\<And>g. g \<in> gray cs \<Longrightarrow> ts_lowlink s ! g \<le> ix s g"
    "\<And>g. g \<in> gray cs \<Longrightarrow> \<exists>y \<in> set (ts_stack s). ix s y = ts_lowlink s ! g \<and> (g, y) \<in> (graph_edges adj)\<^sup>*"
    "\<And>x y g. x \<in> set (ts_stack s) \<Longrightarrow> y \<in> seen adj cs x \<Longrightarrow> y \<in> set (ts_stack s) \<Longrightarrow> g \<in> gray cs \<Longrightarrow>
       ix s g \<le> ix s x \<Longrightarrow> (\<And>h. h \<in> gray cs \<Longrightarrow> ix s g < ix s h \<Longrightarrow> ix s x < ix s h) \<Longrightarrow>
       ts_lowlink s ! g \<le> ix s y"
  using assms unfolding low_inv_def by blast+

lemma low_invI:
  assumes "\<And>g. g \<in> gray cs \<Longrightarrow> ts_lowlink s ! g \<le> ix s g"
    and "\<And>g. g \<in> gray cs \<Longrightarrow> \<exists>y \<in> set (ts_stack s). ix s y = ts_lowlink s ! g \<and> (g, y) \<in> (graph_edges adj)\<^sup>*"
    and "\<And>x y g. x \<in> set (ts_stack s) \<Longrightarrow> y \<in> seen adj cs x \<Longrightarrow> y \<in> set (ts_stack s) \<Longrightarrow> g \<in> gray cs \<Longrightarrow>
       ix s g \<le> ix s x \<Longrightarrow> (\<And>h. h \<in> gray cs \<Longrightarrow> ix s g < ix s h \<Longrightarrow> ix s x < ix s h) \<Longrightarrow>
       ts_lowlink s ! g \<le> ix s y"
  shows "low_inv adj cs s"
  using assms unfolding low_inv_def by blast

lemma open_low:
  assumes "shape_inv adj s" and "v < length adj" and "ts_index s ! v = None" and "calls_inv adj cs s"
    and "low_inv adj cs s"
  shows "low_inv adj ((v, 0) # cs) (open_node v s)"
proof (rule low_invI)
  note old = open_old [OF assms(1-3)] and c = callsD [OF assms(4)] and l = lowD [OF assms(5)]
    and new = open_ix(1,3) [OF assms(1,2)]
  let ?s = "open_node v s"
  fix g assume g: "g \<in> gray ((v, 0) # cs)"
  then consider "g = v" | "g \<in> gray cs" by auto
  then show "ts_lowlink ?s ! g \<le> ix ?s g"
    by cases (simp_all add: new old c(1) l(1))
  from g consider "g = v" | "g \<in> gray cs" by auto
  then show "\<exists>y \<in> set (ts_stack ?s). ix ?s y = ts_lowlink ?s ! g \<and> (g, y) \<in> (graph_edges adj)\<^sup>*"
  proof cases
    case 2
    obtain y where "y \<in> set (ts_stack s)" "ix s y = ts_lowlink s ! g" "(g, y) \<in> (graph_edges adj)\<^sup>*" using l(2) [OF 2] by blast
    then show ?thesis by (intro bexI [of _ y]) (simp_all add: old c(1) 2)
  qed (simp add: new)
next
  note old = open_old [OF assms(1-3)] and c = callsD [OF assms(4)] and l = lowD [OF assms(5)]
    and new = open_ix(1,3) [OF assms(1,2)]
  let ?s = "open_node v s"
  fix x y g
  assume x: "x \<in> set (ts_stack ?s)" and y: "y \<in> seen adj ((v, 0) # cs) x" "y \<in> set (ts_stack ?s)"
    and g: "g \<in> gray ((v, 0) # cs)" "ix ?s g \<le> ix ?s x"
    and top: "\<And>h. h \<in> gray ((v, 0) # cs) \<Longrightarrow> ix ?s g < ix ?s h \<Longrightarrow> ix ?s x < ix ?s h"
  have xv: "x \<noteq> v" "y \<in> seen adj cs x" using y(1) by (auto simp: seen_Cons split: if_splits)
  then have xs: "x \<in> set (ts_stack s)" using x by simp
  then have "g \<noteq> v" using old [OF xs] g(2) by auto
  then have gs: "g \<in> gray cs" using g(1) by auto
  note gold = old [OF c(1) [OF gs]]
  show "ts_lowlink ?s ! g \<le> ix ?s y"
  proof (cases "y = v")
    case True
    then show ?thesis using l(1) [OF gs] gold by simp
  next
    case False
    then have ys: "y \<in> set (ts_stack s)" using y(2) by simp
    have "ts_lowlink s ! g \<le> ix s y"
    proof (rule l(3) [OF xs xv(2) ys gs])
      show "ix s g \<le> ix s x" using g(2) gold old [OF xs] by simp
      fix h assume "h \<in> gray cs" "ix s g < ix s h"
      then show "ix s x < ix s h" using top [of h] gold old [OF xs] old [OF c(1)] by simp
    qed
    then show ?thesis using gold old [OF ys] by simp
  qed
qed

lemma open_inv:
  assumes "tarjan_inv adj cs {v} s" and "v < length adj" and "ts_index s ! v = None"
    and "cs = [] \<or> (fst (hd cs), v) \<in> graph_edges adj"
  shows "tarjan_inv adj ((v, 0) # cs) {} (open_node v s)"
proof -
  have i: "shape_inv adj s" "calls_inv adj cs s" "paths_inv adj cs s" "closed_inv adj s" "seen_inv adj cs {v} s" "low_inv adj cs s"
    using assms(1) unfolding tarjan_inv_def by blast+
  have "closed_inv adj (open_node v s)" using i(4) unfolding closed_inv_def open_fields .
  moreover have "seen_inv adj ((v, 0) # cs) {} (open_node v s)"
    using i(5) unfolding seen_inv_def open_fields by (auto simp: seen_Cons)
  ultimately show ?thesis
    unfolding tarjan_inv_def
    using open_shape [OF i(1) assms(2,3)] open_calls [OF i(1) assms(2,3) i(2)]
      open_paths [OF i(1) assms(2,3) i(2,3) assms(4)] open_low [OF i(1) assms(2,3) i(2,6)] by blast
qed


section \<open>Looking at an edge\<close>

lemma tarjan_inv_call_stack [simp]: "tarjan_inv adj cs pend (s\<lparr>ts_call_stack := k\<rparr>) \<longleftrightarrow> tarjan_inv adj cs pend s"
  by (simp add: tarjan_inv_def shape_inv_def calls_inv_def paths_inv_def closed_inv_def seen_inv_def low_inv_def closed_nodes_def)

lemma tarjan_inv_call_stack_low [simp]:
  "tarjan_inv adj cs pend (s\<lparr>ts_call_stack := k, ts_lowlink := l\<rparr>) \<longleftrightarrow> tarjan_inv adj cs pend (s\<lparr>ts_lowlink := l\<rparr>)"
proof -
  have "s\<lparr>ts_call_stack := k, ts_lowlink := l\<rparr> = s\<lparr>ts_lowlink := l, ts_call_stack := k\<rparr>" by (cases s) simp
  then show ?thesis by (simp only: tarjan_inv_call_stack)
qed

lemma tarjan_invD:
  assumes "tarjan_inv adj cs pend s"
  shows "shape_inv adj s" "calls_inv adj cs s" "paths_inv adj cs s" "closed_inv adj s" "seen_inv adj cs pend s" "low_inv adj cs s"
  using assms unfolding tarjan_inv_def by blast+

lemma closed_nodes_update [simp]:
  "closed_nodes (s\<lparr>ts_lowlink := l\<rparr>) = closed_nodes s" "closed_nodes (s\<lparr>ts_call_stack := k\<rparr>) = closed_nodes s"
  by (simp_all add: closed_nodes_def)

lemma seen_advance:
  assumes "c < length (adj ! v)"
  shows "seen adj ((v, Suc c) # cs) x = (if x = v then insert (adj ! v ! c) (seen adj ((v, c) # cs) x) else seen adj ((v, c) # cs) x)"
  using assms by (auto simp: seen_Cons take_Suc_conv_app_nth)

lemma gray_advance: "gray ((v, Suc c) # cs) = gray ((v, c) # cs)"
  by simp

lemma advance_low:
  assumes "tarjan_inv adj ((v, c) # cs) {} s" and "c < length (adj ! v)" and "v < length adj"
    and "m \<le> ts_lowlink s ! v" and "m = ts_lowlink s ! v \<or> adj ! v ! c \<in> set (ts_stack s) \<and> m = ix s (adj ! v ! c)"
    and "adj ! v ! c \<in> set (ts_stack s) \<Longrightarrow> m \<le> ix s (adj ! v ! c)"
  shows "low_inv adj ((v, Suc c) # cs) (s\<lparr>ts_lowlink := (ts_lowlink s)[v := m]\<rparr>)" (is "low_inv _ _ ?s")
proof (rule low_invI)
  note i = tarjan_invD [OF assms(1)]
  note sh = shapeD [OF i(1)] and c = callsD [OF i(2)] and l = lowD [OF i(6)]
  have new: "(ts_lowlink s)[v := m] ! g = (if g = v then m else ts_lowlink s ! g)" for g
    using assms(3) sh(2) by (simp add: nth_list_update)
  have edge: "(v, adj ! v ! c) \<in> graph_edges adj" using assms(2,3) by (simp add: graph_edges_def)
  { fix g assume "g \<in> gray ((v, Suc c) # cs)"
    then have g: "g \<in> gray ((v, c) # cs)" by simp
    show "ts_lowlink ?s ! g \<le> ix ?s g"
      using l(1) [OF g] assms(4) by (auto simp: new)
    show "\<exists>y \<in> set (ts_stack ?s). ix ?s y = ts_lowlink ?s ! g \<and> (g, y) \<in> (graph_edges adj)\<^sup>*"
      using l(2) [OF g] assms(5) edge by (auto simp: new)
  next
    fix x y g
    assume x: "x \<in> set (ts_stack ?s)" and y: "y \<in> seen adj ((v, Suc c) # cs) x" "y \<in> set (ts_stack ?s)"
      and g: "g \<in> gray ((v, Suc c) # cs)" "ix ?s g \<le> ix ?s x"
      and top: "\<And>h. h \<in> gray ((v, Suc c) # cs) \<Longrightarrow> ix ?s g < ix ?s h \<Longrightarrow> ix ?s x < ix ?s h"
    have le: "ts_lowlink ?s ! g \<le> ts_lowlink s ! g" using assms(4) by (simp add: new)
    show "ts_lowlink ?s ! g \<le> ix ?s y"
    proof (cases "y \<in> seen adj ((v, c) # cs) x")
      case True
      have "ts_lowlink s ! g \<le> ix s y"
        using l(3) [of x y g] x y(2) True g top by simp
      with le show ?thesis by simp
    next
      case False
      then have xy: "x = v" "y = adj ! v ! c"
        using y(1) by (auto simp: seen_advance [OF assms(2)] split: if_splits)
      have "g = v"
      proof (rule ccontr)
        assume "g \<noteq> v"
        then have "ix s g < ix s v" using c(3) g(1) by auto
        then show False using top [of v] xy by simp
      qed
      then show ?thesis using assms(6) xy y(2) by (simp add: new)
    qed
  }
qed

lemma advance_inv:
  assumes "tarjan_inv adj ((v, c) # cs) {} s" and "c < length (adj ! v)" and "v < length adj"
    and "m \<le> ts_lowlink s ! v" and "m = ts_lowlink s ! v \<or> adj ! v ! c \<in> set (ts_stack s) \<and> m = ix s (adj ! v ! c)"
    and "adj ! v ! c \<in> set (ts_stack s) \<Longrightarrow> m \<le> ix s (adj ! v ! c)"
    and "adj ! v ! c \<in> set (ts_stack s) \<union> closed_nodes s \<union> pend"
  shows "tarjan_inv adj ((v, Suc c) # cs) pend (s\<lparr>ts_lowlink := (ts_lowlink s)[v := m]\<rparr>)" (is "tarjan_inv _ _ _ ?s")
proof -
  note i = tarjan_invD [OF assms(1)]
  have "shape_inv adj ?s"
    using i(1) by (auto simp: shape_inv_def)
  moreover have "calls_inv adj ((v, Suc c) # cs) ?s" using i(2) assms(2) by (auto simp: calls_inv_def)
  moreover have "paths_inv adj ((v, Suc c) # cs) ?s" using i(3) by (simp add: paths_inv_def)
  moreover have "closed_inv adj ?s" using i(4) by (simp add: closed_inv_def)
  moreover have "seen_inv adj ((v, Suc c) # cs) pend ?s"
    using i(5) assms(7) unfolding seen_inv_def seen_advance [OF assms(2)] by auto
  ultimately show ?thesis
    unfolding tarjan_inv_def using advance_low [OF assms(1-6)] by blast
qed

lemma scan_edge_inv:
  assumes "tarjan_inv adj ((v, c) # cs) {} s" and "c < length (adj ! v)" and "v < length adj" and "graph_ok adj"
    and "ts_call_stack s = (v, c) # cs"
  defines "y \<equiv> adj ! v ! c" and "t \<equiv> scan_edge adj v c s"
  shows "ts_index s ! y = None \<Longrightarrow> ts_call_stack t = (y, 0) # (v, Suc c) # cs \<and> tarjan_inv adj ((v, Suc c) # cs) {y} t \<and>
      ts_index t ! y = None \<and> (v, y) \<in> graph_edges adj \<and> y < length adj"
    and "ts_index s ! y \<noteq> None \<Longrightarrow> ts_call_stack t = (v, Suc c) # cs \<and> tarjan_inv adj ((v, Suc c) # cs) {} t"
    and "ts_index t = ts_index s"
proof -
  note i = tarjan_invD [OF assms(1)]
  note sh = shapeD [OF i(1)]
  have y: "y < length adj" "(v, y) \<in> graph_edges adj"
    using assms(2-4) by (auto simp: graph_ok_def graph_edges_def y_def)
  have low: "ts_lowlink s ! v \<le> ts_lowlink s ! v" by simp
  show "ts_index t = ts_index s"
    by (simp add: t_def scan_edge_def Let_def split: option.split)
  { assume n: "ts_index s ! y = None"
    then have "y \<notin> set (ts_stack s)" using sh(5) [OF y(1)] by blast
    then have "tarjan_inv adj ((v, Suc c) # cs) {y} (s\<lparr>ts_lowlink := (ts_lowlink s)[v := ts_lowlink s ! v]\<rparr>)"
      by (intro advance_inv [OF assms(1-3) low]) (auto simp: y_def)
    then show "ts_call_stack t = (y, 0) # (v, Suc c) # cs \<and> tarjan_inv adj ((v, Suc c) # cs) {y} t \<and>
      ts_index t ! y = None \<and> (v, y) \<in> graph_edges adj \<and> y < length adj"
      using n y assms(5) by (simp add: t_def scan_edge_def y_def Let_def) }
  { assume "ts_index s ! y \<noteq> None"
    then obtain k where k: "ts_index s ! y = Some k" by blast
    then have vis: "y \<in> set (ts_stack s) \<union> closed_nodes s" using sh(5) [OF y(1)] by auto
    show "ts_call_stack t = (v, Suc c) # cs \<and> tarjan_inv adj ((v, Suc c) # cs) {} t"
    proof (cases "y \<in> set (ts_stack s)")
      case True
      have "tarjan_inv adj ((v, Suc c) # cs) {} (s\<lparr>ts_lowlink := (ts_lowlink s)[v := min (ts_lowlink s ! v) k]\<rparr>)"
        using True vis k by (intro advance_inv [OF assms(1-3)]) (auto simp: y_def min_def)
      then show ?thesis
        using True k assms(5) sh(4) [OF y(1)] by (simp add: t_def scan_edge_def y_def Let_def)
    next
      case False
      then have "tarjan_inv adj ((v, Suc c) # cs) {} (s\<lparr>ts_lowlink := (ts_lowlink s)[v := ts_lowlink s ! v]\<rparr>)"
        using vis by (intro advance_inv [OF assms(1-3) low]) (auto simp: y_def)
      then show ?thesis
        using False k assms(5) sh(4) [OF y(1)] by (simp add: t_def scan_edge_def y_def Let_def)
    qed }
qed


section \<open>Closing a node\<close>

lemma pop_scc_eq:
  "v \<notin> set pre \<Longrightarrow> pop_scc v (pre @ v # post) on acc =
     Some (post, fold (\<lambda>x on. on[x := False]) (pre @ [v]) on, acc @ pre @ [v])"
  by (induction pre arbitrary: on acc) (auto simp: Let_def)

lemma clear_one: "i < length on \<Longrightarrow> on[a := False] ! i \<longleftrightarrow> on ! i \<and> i \<noteq> a"
  by (cases "a = i") auto

lemma clear_all:
  "length (fold (\<lambda>x on. on[x := False]) xs on) = length on"
  "i < length on \<Longrightarrow> fold (\<lambda>x on. on[x := False]) xs on ! i \<longleftrightarrow> on ! i \<and> i \<notin> set xs"
  by (induction xs arbitrary: on) (auto simp: clear_one)

definition popped :: "nat list \<Rightarrow> nat \<Rightarrow> nat list \<Rightarrow> tarjan_state \<Rightarrow> tarjan_state" where
  "popped pre v post s = s\<lparr>ts_stack := post, ts_on_stack := fold (\<lambda>x on. on[x := False]) (pre @ [v]) (ts_on_stack s),
     ts_sccs := ts_sccs s @ [pre @ [v]]\<rparr>"

lemma popped_fields [simp]:
  "ts_stack (popped pre v post s) = post" "ts_index (popped pre v post s) = ts_index s"
  "ts_lowlink (popped pre v post s) = ts_lowlink s" "ts_next_index (popped pre v post s) = ts_next_index s"
  "ts_call_stack (popped pre v post s) = ts_call_stack s" "ts_sccs (popped pre v post s) = ts_sccs s @ [pre @ [v]]"
  "closed_nodes (popped pre v post s) = closed_nodes s \<union> set (pre @ [v])"
  by (auto simp: popped_def closed_nodes_def)

lemma segment:
  assumes "shape_inv adj s" and "ts_stack s = pre @ v # post"
  shows "distinct (ts_stack s)" and "x \<in> set (pre @ [v]) \<longleftrightarrow> x \<in> set (ts_stack s) \<and> ix s v \<le> ix s x"
    and "x \<in> set post \<longleftrightarrow> x \<in> set (ts_stack s) \<and> ix s x < ix s v"
proof -
  have so: "sorted_wrt (\<lambda>x y. ix s x > ix s y) (pre @ v # post)" using shapeD(11) [OF assms(1)] assms(2) by simp
  have "distinct ys" if "sorted_wrt (\<lambda>x y. ix s x > ix s y) ys" for ys
    using that by (induction ys) auto
  from this [OF so] show "distinct (ts_stack s)" unfolding assms(2) .
  show "x \<in> set (pre @ [v]) \<longleftrightarrow> x \<in> set (ts_stack s) \<and> ix s v \<le> ix s x"
    "x \<in> set post \<longleftrightarrow> x \<in> set (ts_stack s) \<and> ix s x < ix s v"
    using so unfolding assms(2) by (fastforce simp: sorted_wrt_append)+
qed

lemma popped_shape:
  assumes "shape_inv adj s" and "ts_stack s = pre @ v # post"
  shows "shape_inv adj (popped pre v post s)"
proof -
  note d = shapeD [OF assms(1)] and seg = segment [OF assms]
  have un: "set post \<union> (closed_nodes s \<union> set (pre @ [v])) = set (ts_stack s) \<union> closed_nodes s"
    using assms(2) by auto
  have on: "\<forall>x < length adj. ts_on_stack (popped pre v post s) ! x \<longleftrightarrow> x \<in> set post"
    using d(3,4) seg(1) by (auto simp: popped_def clear_all clear_one assms(2))
  have so: "sorted_wrt (\<lambda>x y. ix s x > ix s y) post"
    using d(11) by (simp add: assms(2) sorted_wrt_append)
  have dis: "set post \<inter> (closed_nodes s \<union> set (pre @ [v])) = {}"
    using d(8) seg(1) by (auto simp: assms(2))
  have "set (ts_stack s) \<union> closed_nodes s \<subseteq> {..<length adj}" using d(6,7) by blast
  then show ?thesis
    using d(1,2,3,5,9,10) on so dis unfolding shape_inv_def popped_fields un
    by (simp add: popped_def clear_all assms(2))
qed


lemma calls_top:
  assumes "calls_inv adj ((v, c) # cs) s" and "g \<in> gray cs"
  shows "ix s g < ix s v" and "g \<noteq> v"
  using callsD(3) [OF assms(1)] assms(2) by auto

lemma segment_edges:
  assumes "tarjan_inv adj ((v, c) # cs) {} s" and "length (adj ! v) \<le> c" and "ts_stack s = pre @ v # post"
    and "ix s v \<le> ts_lowlink s ! v" and "x \<in> set (pre @ [v])" and "(x, y) \<in> graph_edges adj"
  shows "y \<in> set (pre @ [v]) \<union> closed_nodes s"
proof -
  note i = tarjan_invD [OF assms(1)] and seg = segment [OF tarjan_invD(1) [OF assms(1)] assms(3)]
  have x: "x \<in> set (ts_stack s)" "ix s v \<le> ix s x" using seg(2) assms(5) by blast+
  have "x = v \<or> map_of cs x = None"
    using calls_top(1) [OF i(2), of x] x(2) by (metis leD map_of_eq_None_iff)
  then have "seen adj ((v, c) # cs) x = set (adj ! x)"
    using assms(2) by (auto simp: seen_def)
  then have y: "y \<in> seen adj ((v, c) # cs) x" using assms(6) by (simp add: graph_edges_def)
  then have "y \<in> set (ts_stack s) \<union> closed_nodes s"
    using i(5) x(1) by (auto simp: seen_inv_def)
  moreover have "ix s v \<le> ix s y" if "y \<in> set (ts_stack s)"
  proof -
    have "ts_lowlink s ! v \<le> ix s y"
      using lowD(3) [OF i(6) x(1) y that, of v] x(2) calls_top(1) [OF i(2)] by fastforce
    with assms(4) show ?thesis by simp
  qed
  ultimately show ?thesis using seg(2) by blast
qed

lemma segment_closed:
  assumes "tarjan_inv adj ((v, c) # cs) {} s" and "length (adj ! v) \<le> c" and "ts_stack s = pre @ v # post"
    and "ix s v \<le> ts_lowlink s ! v" and "(x, y) \<in> (graph_edges adj)\<^sup>*" and "x \<in> set (pre @ [v]) \<union> closed_nodes s"
  shows "y \<in> set (pre @ [v]) \<union> closed_nodes s"
  using assms(5,6)
proof (induction rule: rtrancl_induct)
  case (step y z)
  then show ?case
    using segment_edges [OF assms(1-4)] tarjan_invD(4) [OF assms(1)] unfolding closed_inv_def by blast
qed

lemma segment_scc:
  assumes "tarjan_inv adj ((v, c) # cs) {} s" and "length (adj ! v) \<le> c" and "ts_stack s = pre @ v # post"
    and "ix s v \<le> ts_lowlink s ! v"
  shows "is_scc (graph_edges adj) (set (pre @ [v]))"
proof -
  note i = tarjan_invD [OF assms(1)]
  note seg = segment [OF i(1) assms(3)] and closed = segment_closed [OF assms]
  have down: "(v, x) \<in> (graph_edges adj)\<^sup>*" if "x \<in> set (pre @ [v])" for x
    using pathsD(1) [OF i(3), of v x] that seg(2) by simp
  have up: "(x, v) \<in> (graph_edges adj)\<^sup>*" if x: "x \<in> set (pre @ [v])" for x
  proof -
    obtain g where g: "g \<in> gray ((v, c) # cs)" "(x, g) \<in> (graph_edges adj)\<^sup>*"
      using pathsD(2) [OF i(3), of x] x seg(2) by blast
    have "g \<in> set (ts_stack s)" using callsD(1) [OF i(2) g(1)] .
    then have "ix s v \<le> ix s g"
      using closed [OF g(2)] x shapeD(8) [OF i(1)] seg(2) by blast
    then have "g = v" using g(1) calls_top(1) [OF i(2), of g] by fastforce
    then show ?thesis using g(2) by simp
  qed
  have apart: "y \<in> set (pre @ [v])" if "(x, y) \<in> (graph_edges adj)\<^sup>*" "(y, x) \<in> (graph_edges adj)\<^sup>*" "x \<in> set (pre @ [v])" for x y
  proof -
    have "y \<in> set (pre @ [v]) \<union> closed_nodes s" using closed [OF that(1)] that(3) by blast
    moreover have "y \<notin> closed_nodes s"
    proof
      assume "y \<in> closed_nodes s"
      with that(2) have "x \<in> closed_nodes s"
        using i(4) unfolding closed_inv_def by (induction rule: rtrancl_induct) blast+
      then show False using that(3) seg(2) shapeD(8) [OF i(1)] by blast
    qed
    ultimately show ?thesis by blast
  qed
  show ?thesis
    unfolding is_scc_def using down up apart by (auto intro: rtrancl_trans)
qed

lemma seen_tail: "x \<noteq> v \<Longrightarrow> seen adj ((v, c) # cs) x = seen adj cs x"
  by (simp add: seen_Cons)

lemma popped_inv:
  assumes "tarjan_inv adj ((v, c) # cs) {} s" and "length (adj ! v) \<le> c" and "ts_stack s = pre @ v # post"
    and "ts_lowlink s ! v = ix s v"
  shows "tarjan_inv adj cs {} (popped pre v post s)" (is "tarjan_inv _ _ _ ?s")
proof -
  note i = tarjan_invD [OF assms(1)]
  note seg = segment [OF i(1) assms(3)] and c = callsD [OF i(2)] and p = pathsD [OF i(3)] and l = lowD [OF i(6)]
  have le: "ix s v \<le> ts_lowlink s ! v" using assms(4) by simp
  have post: "x \<in> set (ts_stack s)" "ix s x < ix s v" "x \<noteq> v" if "x \<in> set post" for x
    using that seg(3) by auto
  have gray: "g \<in> set post" if "g \<in> gray cs" for g
    using that c(1) calls_top [OF i(2) that] seg(3) by auto
  have calls: "calls_inv adj cs ?s"
    using c(2,3) gray by (auto simp: calls_inv_def)
  have paths: "paths_inv adj cs ?s"
  proof -
    have "\<exists>g \<in> gray cs. ix s g \<le> ix s x \<and> (x, g) \<in> (graph_edges adj)\<^sup>*" if x: "x \<in> set post" for x
    proof -
      obtain g where g: "g \<in> gray ((v, c) # cs)" "ix s g \<le> ix s x" "(x, g) \<in> (graph_edges adj)\<^sup>*"
        using p(2) [OF post(1) [OF x]] by blast
      then have "g \<noteq> v" using post(2) [OF x] by auto
      with g show ?thesis by auto
    qed
    then show ?thesis using p(1) post(1) by (auto simp: paths_inv_def)
  qed
  have closed: "closed_inv adj ?s"
  proof -
    have new: "is_scc (graph_edges adj) (set (pre @ [v]))" by (rule segment_scc [OF assms(1-3) le])
    have "graph_edges adj `` (closed_nodes s \<union> set (pre @ [v])) \<subseteq> closed_nodes s \<union> set (pre @ [v])"
      using segment_edges [OF assms(1-3) le] i(4) unfolding closed_inv_def by blast
    moreover have "set (pre @ [v]) \<notin> set (map set (ts_sccs s))"
      using seg(2) [of v] shapeD(8) [OF i(1), of v] assms(3) by (auto simp: closed_nodes_def)
    moreover have "distinct (pre @ [v])" using seg(1) by (auto simp: assms(3))
    ultimately show ?thesis
      using i(4) new unfolding closed_inv_def popped_fields by auto
  qed
  have seen: "seen_inv adj cs {} ?s"
    unfolding seen_inv_def popped_fields
  proof
    fix x assume x: "x \<in> set post"
    have "seen adj ((v, c) # cs) x \<subseteq> set (ts_stack s) \<union> closed_nodes s"
      using i(5) post(1) [OF x] unfolding seen_inv_def by blast
    then show "seen adj cs x \<subseteq> set post \<union> (closed_nodes s \<union> set (pre @ [v])) \<union> {}"
      unfolding seen_tail [OF post(3) [OF x]] assms(3) by auto
  qed
  have low: "low_inv adj cs ?s"
  proof (rule low_invI)
    fix g assume g: "g \<in> gray cs"
    then have g': "g \<in> gray ((v, c) # cs)" by simp
    show "ts_lowlink ?s ! g \<le> ix ?s g" using l(1) [OF g'] by simp
    obtain y where y: "y \<in> set (ts_stack s)" "ix s y = ts_lowlink s ! g" "(g, y) \<in> (graph_edges adj)\<^sup>*" using l(2) [OF g'] by blast
    then have "y \<in> set post" using l(1) [OF g'] calls_top(1) [OF i(2) g] seg(3) by simp
    with y show "\<exists>y \<in> set (ts_stack ?s). ix ?s y = ts_lowlink ?s ! g \<and> (g, y) \<in> (graph_edges adj)\<^sup>*" by auto
  next
    fix x y g
    assume x: "x \<in> set (ts_stack ?s)" and y: "y \<in> seen adj cs x" "y \<in> set (ts_stack ?s)" and g: "g \<in> gray cs" "ix ?s g \<le> ix ?s x"
      and top: "\<And>h. h \<in> gray cs \<Longrightarrow> ix ?s g < ix ?s h \<Longrightarrow> ix ?s x < ix ?s h"
    have "ts_lowlink s ! g \<le> ix s y"
    proof (rule l(3) [of x y g])
      fix h assume "h \<in> gray ((v, c) # cs)" "ix s g < ix s h"
      then show "ix s x < ix s h" using top [of h] post(2) x by auto
    qed (use x y g post in \<open>auto simp: seen_tail\<close>)
    then show "ts_lowlink ?s ! g \<le> ix ?s y" by simp
  qed
  show ?thesis
    unfolding tarjan_inv_def using popped_shape [OF i(1) assms(3)] calls paths closed seen low by blast
qed

lemma seen_close:
  assumes "length (adj ! v) \<le> c"
  shows "seen adj cs x \<subseteq> seen adj ((v, c) # cs) x"
  using assms by (auto simp: seen_def split: option.splits dest: in_set_takeD)

lemma low_reaches_gray:
  assumes "tarjan_inv adj ((v, c) # cs) {} s" and "ts_lowlink s ! v < ix s v"
  obtains g where "g \<in> gray cs" and "(v, g) \<in> (graph_edges adj)\<^sup>*"
proof -
  note i = tarjan_invD [OF assms(1)]
  obtain y where y: "y \<in> set (ts_stack s)" "ix s y = ts_lowlink s ! v" "(v, y) \<in> (graph_edges adj)\<^sup>*"
    using lowD(2) [OF i(6), of v] by auto
  obtain g where g: "g \<in> gray ((v, c) # cs)" "ix s g \<le> ix s y" "(y, g) \<in> (graph_edges adj)\<^sup>*"
    using pathsD(2) [OF i(3) y(1)] by blast
  then have "g \<noteq> v" using assms(2) y(2) by auto
  with g y show thesis by (intro that [of g]) (auto intro: rtrancl_trans)
qed

lemma closed_low:
  assumes "tarjan_inv adj ((v, c) # (p, k) # cs) {} s" and "ts_lowlink s ! v < ix s v" and "length (adj ! v) \<le> c"
  shows "low_inv adj ((p, k) # cs) (s\<lparr>ts_lowlink := (ts_lowlink s)[p := min (ts_lowlink s ! p) (ts_lowlink s ! v)]\<rparr>)"
    (is "low_inv _ ?cs ?s")
proof (rule low_invI)
  note i = tarjan_invD [OF assms(1)]
  note sh = shapeD [OF i(1)] and c = callsD [OF i(2)] and l = lowD [OF i(6)]
  have p: "p \<in> set (ts_stack s)" "p < length adj" using c(1) [of p] sh(6) by auto
  have new: "(ts_lowlink s)[p := m] ! g = (if g = p then m else ts_lowlink s ! g)" for g m
    using p(2) sh(2) by (simp add: nth_list_update)
  have down: "(p, v) \<in> (graph_edges adj)\<^sup>*"
    using pathsD(1) [OF i(3), of p v] c(1) [of v] calls_top(1) [OF i(2), of p] by (simp add: less_imp_le)
  { fix g assume g: "g \<in> gray ?cs"
    then have g': "g \<in> gray ((v, c) # ?cs)" by simp
    show "ts_lowlink ?s ! g \<le> ix ?s g" using l(1) [OF g'] by (auto simp: new)
    show "\<exists>y \<in> set (ts_stack ?s). ix ?s y = ts_lowlink ?s ! g \<and> (g, y) \<in> (graph_edges adj)\<^sup>*"
    proof (cases "g = p \<and> ts_lowlink s ! v < ts_lowlink s ! p")
      case True
      obtain y where "y \<in> set (ts_stack s)" "ix s y = ts_lowlink s ! v" "(v, y) \<in> (graph_edges adj)\<^sup>*" using l(2) [of v] by auto
      then show ?thesis using True down by (intro bexI [of _ y]) (auto simp: new intro: rtrancl_trans)
    next
      case False
      then show ?thesis using l(2) [OF g'] by (auto simp: new min_def)
    qed
  next
    fix x y g
    assume x: "x \<in> set (ts_stack ?s)" and y: "y \<in> seen adj ?cs x" "y \<in> set (ts_stack ?s)" and g: "g \<in> gray ?cs" "ix ?s g \<le> ix ?s x"
      and top: "\<And>h. h \<in> gray ?cs \<Longrightarrow> ix ?s g < ix ?s h \<Longrightarrow> ix ?s x < ix ?s h"
    have y': "y \<in> seen adj ((v, c) # ?cs) x"
      using y(1) seen_close [OF assms(3)] by blast
    show "ts_lowlink ?s ! g \<le> ix ?s y"
    proof (cases "ix s v \<le> ix s x")
      case True
      have "g = p"
      proof (rule ccontr)
        assume "g \<noteq> p"
        then have "ix s g < ix s p" using c(3) g(1) by auto
        then have "ix s x < ix s p" using top [of p] by simp
        then show False using True calls_top(1) [OF i(2), of p] by simp
      qed
      moreover have "ts_lowlink s ! v \<le> ix s y"
        using l(3) [of x y v] x y' y(2) True calls_top(1) [OF i(2)] by fastforce
      ultimately show ?thesis by (simp add: new)
    next
      case False
      have "ts_lowlink s ! g \<le> ix s y"
      proof (rule l(3) [of x y g])
        fix h assume "h \<in> gray ((v, c) # ?cs)" "ix s g < ix s h"
        then show "ix s x < ix s h" using top [of h] False by auto
      qed (use x y' y(2) g in auto)
      then show ?thesis by (auto simp: new intro: min.coboundedI1)
    qed
  }
qed

lemma closed_inv_step:
  assumes "tarjan_inv adj ((v, c) # (p, k) # cs) {} s" and "ts_lowlink s ! v < ix s v" and "length (adj ! v) \<le> c"
  shows "tarjan_inv adj ((p, k) # cs) {} (s\<lparr>ts_lowlink := (ts_lowlink s)[p := min (ts_lowlink s ! p) (ts_lowlink s ! v)]\<rparr>)"
    (is "tarjan_inv _ ?cs _ ?s")
proof -
  note i = tarjan_invD [OF assms(1)]
  have "shape_inv adj ?s" using i(1) by (auto simp: shape_inv_def)
  moreover have "calls_inv adj ?cs ?s" using i(2) by (auto simp: calls_inv_def)
  moreover have "paths_inv adj ?cs ?s"
  proof -
    obtain g where g: "g \<in> gray ?cs" "(v, g) \<in> (graph_edges adj)\<^sup>*" using low_reaches_gray [OF assms(1,2)] .
    have "\<exists>g \<in> gray ?cs. ix s g \<le> ix s x \<and> (x, g) \<in> (graph_edges adj)\<^sup>*" if x: "x \<in> set (ts_stack s)" for x
    proof -
      obtain h where h: "h \<in> gray ((v, c) # ?cs)" "ix s h \<le> ix s x" "(x, h) \<in> (graph_edges adj)\<^sup>*" using pathsD(2) [OF i(3) x] by blast
      show ?thesis
      proof (cases "h = v")
        case True
        then show ?thesis using h g calls_top(1) [OF i(2) g(1)] by (intro bexI [of _ g]) (auto intro: rtrancl_trans)
      next
        case False
        then show ?thesis using h by auto
      qed
    qed
    then show ?thesis using pathsD(1) [OF i(3)] by (auto simp: paths_inv_def)
  qed
  moreover have "closed_inv adj ?s" using i(4) by (simp add: closed_inv_def)
  moreover have "seen_inv adj ?cs {} ?s"
    using i(5) seen_close [OF assms(3), of ?cs] unfolding seen_inv_def by (simp add: subset_trans) blast
  ultimately show ?thesis unfolding tarjan_inv_def using closed_low [OF assms] by blast
qed


lemma close_node_inv:
  assumes "tarjan_inv adj ((v, c) # cs) {} s" and "length (adj ! v) \<le> c" and "ts_call_stack s = (v, c) # cs"
  shows "\<exists>t. close_node v s = Some t \<and> ts_call_stack t = cs \<and> tarjan_inv adj cs {} t \<and> ts_index t = ts_index s"
proof -
  note i = tarjan_invD [OF assms(1)]
  have v: "v \<in> set (ts_stack s)" using callsD(1) [OF i(2), of v] by simp
  then have iv: "ts_index s ! v = Some (ix s v)" using shapeD(5,6) [OF i(1)] by (metis option.exhaust_sel)
  have le: "ts_lowlink s ! v \<le> ix s v" using lowD(1) [OF i(6), of v] by simp
  show ?thesis
  proof (cases "ts_lowlink s ! v = ix s v")
    case True
    obtain pre post where st: "ts_stack s = pre @ v # post" "v \<notin> set pre" using split_list_first [OF v] by blast
    have inv: "tarjan_inv adj cs {} (popped pre v post s)" by (rule popped_inv [OF assms(1,2) st(1) True])
    have pop: "pop_scc v (ts_stack s) (ts_on_stack s) [] =
        Some (post, fold (\<lambda>x on. on[x := False]) (pre @ [v]) (ts_on_stack s), pre @ [v])"
      unfolding st(1) by (simp only: pop_scc_eq [OF st(2)] append_Nil)
    have "(ts_lowlink s)[p := min (ts_lowlink s ! p) (ts_lowlink s ! v)] = ts_lowlink s" if "cs = (p, k) # rest" for p k rest
      using that lowD(1) [OF i(6), of p] calls_top(1) [OF i(2), of p] True by (simp add: min_absorb1)
    then have "close_node v s = Some ((popped pre v post s)\<lparr>ts_call_stack := cs\<rparr>)"
      using True iv pop assms(3) by (auto simp: close_node_def popped_def Let_def split: list.split)
    with inv show ?thesis by simp
  next
    case False
    then have lt: "ts_lowlink s ! v < ix s v" using le by simp
    obtain g where "g \<in> gray cs" using low_reaches_gray [OF assms(1) lt] by blast
    then obtain p k rest where cs: "cs = (p, k) # rest" by (cases cs) auto
    let ?t = "s\<lparr>ts_call_stack := cs, ts_lowlink := (ts_lowlink s)[p := min (ts_lowlink s ! p) (ts_lowlink s ! v)]\<rparr>"
    have "ts_index s ! v \<noteq> Some (ts_lowlink s ! v)" using False by auto
    then have "close_node v s = Some ?t"
      using assms(3) by (simp add: close_node_def cs Let_def)
    with closed_inv_step [OF assms(1) [unfolded cs] lt assms(2)] show ?thesis
      by (simp add: cs)
  qed
qed

section \<open>The loop\<close>

definition ready :: "nat list list \<Rightarrow> tarjan_state \<Rightarrow> bool" where
  "ready adj s \<longleftrightarrow>
     (case ts_call_stack s of
        [] \<Rightarrow> tarjan_inv adj [] {} s
      | (v, c) # cs \<Rightarrow> (\<forall>e \<in> set cs. 0 < snd e) \<and> v < length adj \<and>
          (if c = 0 then ts_index s ! v = None \<and> tarjan_inv adj cs {v} s \<and> (cs = [] \<or> (fst (hd cs), v) \<in> graph_edges adj)
           else tarjan_inv adj ((v, c) # cs) {} s))"

definition unopened :: "nat list list \<Rightarrow> tarjan_state \<Rightarrow> nat set" where
  "unopened adj s = {v. v < length adj \<and> ts_index s ! v = None \<and> v \<notin> gray (ts_call_stack s)}"

definition work :: "nat list list \<Rightarrow> tarjan_state \<Rightarrow> nat" where
  "work adj s = (\<Sum>v \<in> unopened adj s. length (adj ! v) + 2) + (\<Sum>(v, c) \<leftarrow> ts_call_stack s. length (adj ! v) + 1 - c)"

lemma ready_opened:
  assumes "ready adj s" and "ts_call_stack s = (v, c) # cs"
  defines "t \<equiv> if c = 0 then open_node v s else s"
  shows "tarjan_inv adj ((v, c) # cs) {} t" and "v < length adj" and "ts_call_stack t = (v, c) # cs"
    and "\<And>x. x \<noteq> v \<Longrightarrow> ts_index t ! x = ts_index s ! x"
proof -
  show v: "v < length adj" using assms(1,2) by (simp add: ready_def)
  show "tarjan_inv adj ((v, c) # cs) {} t"
    using assms(1,2) open_inv [of adj cs v s] by (auto simp: ready_def t_def split: if_splits)
  show "ts_call_stack t = (v, c) # cs" using assms(2) by (simp add: t_def)
  show "ts_index t ! x = ts_index s ! x" if "x \<noteq> v" for x
    using that by (simp add: t_def open_node_def)
qed

lemma gray_visited:
  assumes "tarjan_inv adj cs pend s" and "g \<in> gray cs"
  shows "ts_index s ! g \<noteq> None" and "g < length adj"
  using callsD(1) [OF tarjan_invD(2) [OF assms(1)] assms(2)] shapeD(5,6) [OF tarjan_invD(1) [OF assms(1)]] by blast+

lemma step_ready:
  assumes "ready adj s" and "ts_call_stack s = (v, c) # cs" and "graph_ok adj"
  shows "\<exists>t. tarjan_step adj s = Some t \<and> ready adj t \<and> work adj t < work adj s \<and>
    (\<forall>x. x = v \<or> ts_index s ! x \<noteq> None \<longrightarrow> ts_index t ! x \<noteq> None)"
proof -
  define s' where "s' = (if c = 0 then open_node v s else s)"
  note o = ready_opened [OF assms(1,2), folded s'_def]
  have pos: "\<forall>e \<in> set cs. 0 < snd e" using assms(1,2) by (simp add: ready_def)
  have un: "unopened adj s = {x. x < length adj \<and> ts_index s' ! x = None \<and> x \<notin> gray ((v, c) # cs)}"
    using o(4) assms(2) by (auto simp: unopened_def)
  have fin: "finite (unopened adj s)" by (simp add: unopened_def)
  have vis: "\<forall>x. x = v \<or> ts_index s ! x \<noteq> None \<longrightarrow> ts_index s' ! x \<noteq> None"
    using o(4) gray_visited(1) [OF o(1), of v] by (metis fst_conv image_eqI list.set_intros(1))
  show ?thesis
  proof (cases "c < length (adj ! v)")
    case True
    let ?y = "adj ! v ! c" and ?t = "scan_edge adj v c s'"
    note e = scan_edge_inv [OF o(1) True o(2) assms(3) o(3)]
    have step: "tarjan_step adj s = Some ?t" using True assms(2) by (simp add: tarjan_step_def s'_def)
    show ?thesis
    proof (cases "ts_index s' ! ?y")
      case None
      note n = e(1) [OF None]
      have "?y \<notin> gray ((v, c) # cs)" using gray_visited(1) [OF o(1)] None by blast
      then have y: "?y \<in> unopened adj s" using None n by (simp add: un)
      have "unopened adj ?t = unopened adj s - {?y}"
        unfolding un using n e(3) by (auto simp: unopened_def)
      then have "work adj ?t < work adj s"
        using n assms(2) True sum.remove [OF fin y, of "\<lambda>v. length (adj ! v) + 2"] by (simp add: work_def)
      moreover have "ready adj ?t" using n pos by (simp add: ready_def)
      ultimately show ?thesis using step vis e(3) by auto
    next
      case (Some k)
      then have n: "ts_call_stack ?t = (v, Suc c) # cs" "tarjan_inv adj ((v, Suc c) # cs) {} ?t" using e(2) by simp_all
      have "unopened adj ?t = unopened adj s"
        unfolding un using n e(3) by (auto simp: unopened_def)
      then have "work adj ?t < work adj s" using n assms(2) True by (simp add: work_def)
      moreover have "ready adj ?t" using n pos o(2) by (simp add: ready_def)
      ultimately show ?thesis using step vis e(3) by auto
    qed
  next
    case False
    then have c: "length (adj ! v) \<le> c" "c \<le> length (adj ! v)"
      using callsD(2) [OF tarjan_invD(2) [OF o(1)], of v c] by auto
    obtain t where t: "close_node v s' = Some t" "ts_call_stack t = cs" "tarjan_inv adj cs {} t" "ts_index t = ts_index s'"
      using close_node_inv [OF o(1) c(1) o(3)] by blast
    have "unopened adj t = unopened adj s"
      unfolding un using t gray_visited(1) [OF o(1), of v] by (auto simp: unopened_def)
    then have "work adj t < work adj s" using t assms(2) c by (simp add: work_def)
    moreover have "ready adj t"
      using t pos gray_visited(2) [OF t(3)] by (auto simp: ready_def split: list.split)
    moreover have "tarjan_step adj s = Some t" using False t(1) assms(2) by (simp add: tarjan_step_def s'_def)
    ultimately show ?thesis using vis t(4) by auto
  qed
qed

lemma loop_returns:
  assumes "ready adj s" and "graph_ok adj"
  shows "\<exists>t. tarjan_loop adj s = Some t \<and> ts_call_stack t = [] \<and> tarjan_inv adj [] {} t \<and>
    (\<forall>x. ts_index s ! x \<noteq> None \<or> x \<in> gray (take 1 (ts_call_stack s)) \<longrightarrow> ts_index t ! x \<noteq> None)"
  using assms(1)
proof (induction "work adj s" arbitrary: s rule: less_induct)
  case less
  show ?case
  proof (cases "ts_call_stack s")
    case Nil
    then show ?thesis using less.prems by (subst tarjan_loop.simps) (simp add: ready_def)
  next
    case (Cons e cs)
    obtain v c where e: "e = (v, c)" by force
    obtain t where t: "tarjan_step adj s = Some t" "ready adj t" "work adj t < work adj s"
      "\<forall>x. x = v \<or> ts_index s ! x \<noteq> None \<longrightarrow> ts_index t ! x \<noteq> None"
      using step_ready [OF less.prems _ assms(2), of v c cs] Cons e by auto
    have loop: "tarjan_loop adj s = tarjan_loop adj t" using t(1) Cons by (subst tarjan_loop.simps) simp
    have top: "gray (take 1 (ts_call_stack s)) = {v}" using Cons e by simp
    show ?thesis unfolding loop top using less.hyps [OF t(3,2)] t(4) by blast
  qed
qed

lemma empty_stack:
  assumes "tarjan_inv adj [] pend s"
  shows "ts_stack s = []"
  using pathsD(2) [OF tarjan_invD(3) [OF assms]] by (cases "ts_stack s") auto

lemma starts_return:
  assumes "tarjan_inv adj [] {} s" and "graph_ok adj" and "set starts \<subseteq> {..<length adj}"
  shows "\<exists>t. tarjan_starts adj starts s = Some t \<and> tarjan_inv adj [] {} t \<and>
    (\<forall>x. ts_index s ! x \<noteq> None \<or> x \<in> set starts \<longrightarrow> ts_index t ! x \<noteq> None)"
  using assms(1,3)
proof (induction starts arbitrary: s)
  case (Cons start starts)
  show ?case
  proof (cases "ts_index s ! start = None")
    case False
    have "set starts \<subseteq> {..<length adj}" using Cons.prems(2) by simp
    from Cons.IH [OF Cons.prems(1) this] obtain t where "tarjan_starts adj starts s = Some t" "tarjan_inv adj [] {} t"
      "\<forall>x. ts_index s ! x \<noteq> None \<or> x \<in> set starts \<longrightarrow> ts_index t ! x \<noteq> None" by blast
    with False show ?thesis by (intro exI [of _ t]) auto
  next
    case True
    let ?s = "s\<lparr>ts_call_stack := [(start, 0)]\<rparr>"
    have "tarjan_inv adj [] {start} s" using Cons.prems(1) by (auto simp: tarjan_inv_def seen_inv_def)
    then have "ready adj ?s" using True Cons.prems(2) by (simp add: ready_def)
    from loop_returns [OF this assms(2)] obtain t where t: "tarjan_loop adj ?s = Some t" "tarjan_inv adj [] {} t"
      "\<forall>x. ts_index s ! x \<noteq> None \<or> x = start \<longrightarrow> ts_index t ! x \<noteq> None" by auto
    obtain u where "tarjan_starts adj starts t = Some u" "tarjan_inv adj [] {} u"
      "\<forall>x. ts_index t ! x \<noteq> None \<or> x \<in> set starts \<longrightarrow> ts_index u ! x \<noteq> None"
      using Cons.IH [OF t(2)] Cons.prems(2) by auto
    with True t show ?thesis by (intro exI [of _ u]) auto
  qed
qed simp

lemma initial_inv: "tarjan_inv adj [] {} (tarjan_initial (length adj))"
  by (simp add: tarjan_inv_def tarjan_initial_def shape_inv_def calls_inv_def paths_inv_def closed_inv_def seen_inv_def
      low_inv_def closed_nodes_def)

lemma tarjan_spec:
  assumes "graph_ok adj"
  shows "\<exists>t. tarjan_starts adj [0..<length adj] (tarjan_initial (length adj)) = Some t \<and>
    (\<Union> (set ` set (ts_sccs t))) = {..<length adj} \<and> distinct (map set (ts_sccs t)) \<and>
    (\<forall>C \<in> set (ts_sccs t). is_scc (graph_edges adj) (set C) \<and> distinct C)"
proof -
  obtain t where t: "tarjan_starts adj [0..<length adj] (tarjan_initial (length adj)) = Some t" "tarjan_inv adj [] {} t"
    "\<forall>x < length adj. ts_index t ! x \<noteq> None"
  proof -
    have "set [0..<length adj] \<subseteq> {..<length adj}" by auto
    from starts_return [OF initial_inv assms this] show thesis using that by auto
  qed
  have "closed_nodes t = {..<length adj}"
    using shapeD(5,7) [OF tarjan_invD(1) [OF t(2)]] t(3) empty_stack [OF t(2)] by auto
  with t tarjan_invD(4) [OF t(2)] show ?thesis
    by (simp add: closed_inv_def closed_nodes_def)
qed

section \<open>Properties\<close>

text \<open>C11. The iterative search of \<open>directed_cycles\<close> is Tarjan's algorithm: on every graph whose edges stay
  within its nodes the loop ends, no pop meets an empty stack, and the groups collected are
  exactly the strongly connected components, each node in one of them and once.\<close>

theorem tarjan_finds_components:
  assumes "graph_ok adj"
  shows "\<exists>t. tarjan_starts adj [0..<length adj] (tarjan_initial (length adj)) = Some t \<and>
    (\<Union> (set ` set (ts_sccs t))) = {..<length adj} \<and> distinct (map set (ts_sccs t)) \<and>
    (\<forall>C \<in> set (ts_sccs t). distinct C \<and> C \<noteq> [] \<and>
       (\<forall>x \<in> set C. \<forall>y. y \<in> set C \<longleftrightarrow> (x, y) \<in> (graph_edges adj)\<^sup>* \<and> (y, x) \<in> (graph_edges adj)\<^sup>*))"
  using tarjan_spec [OF assms] unfolding is_scc_def by fastforce

theorem tarjan_finds_components_witness:
  "\<exists>t. tarjan_starts [[1], [0, 2], []] [0..<3] (tarjan_initial 3) = Some t \<and> (\<Union> (set ` set (ts_sccs t))) = {..<3}"
proof -
  have "graph_ok [[1], [0, 2], []]" by (auto simp: graph_ok_def less_Suc_eq numeral_eq_Suc)
  from tarjan_finds_components [OF this] show ?thesis by (auto simp: numeral_eq_Suc)
qed

end
