(* ===== verification/Supersession.thy ===== *)
theory Supersession
  imports Change_Acceptance Union_Find Tarjan
begin

text \<open>
  Which Revisions are superseded (\<open>src/src/session/projection/supersession.rs\<close>): the view built from
  proposal-borne \<open>supersedes\<close> lists, its threads, heads and cycles, the classification readers show,
  and the narrowing to the threads of a scope. \<open>Option\<close> values stand for searches that return; the
  lemmas show they always do.
\<close>

section \<open>The view\<close>

definition SUPERSESSION_TARGET_MISSING_CODE :: string where
  "SUPERSESSION_TARGET_MISSING_CODE = ''supersession_target_missing''"

definition SUPERSESSION_CYCLE_CODE :: string where
  "SUPERSESSION_CYCLE_CODE = ''supersession_cycle''"

record projection_diagnostic =
  pd_code :: string
  pd_message :: string

record supersession_view =
  sv_heads :: "revision_id list"
  sv_superseded :: "revision_id list"
  sv_supersedes :: "(revision_id \<times> revision_id list) list"
  sv_superseded_by :: "(revision_id \<times> revision_id list) list"
  sv_components :: "revision_id list list"
  sv_cycle_revisions :: "revision_id list"
  sv_diagnostics :: "projection_diagnostic list"

section \<open>Cycles\<close>

definition adjacency_of :: "'a::linorder list \<Rightarrow> ('a \<times> 'a list) list \<Rightarrow> nat list list" where
  "adjacency_of nodes declared =
     map (\<lambda>revision. List.map_filter (bm_get (index_of_nodes nodes)) (bm_get_or [] declared revision)) nodes"

definition directed_cycles :: "'a::linorder list \<Rightarrow> ('a \<times> 'a list) list \<Rightarrow> 'a list list option" where
  "directed_cycles known declared =
     (let adjacency = adjacency_of known declared; n = length known
      in do {
        s \<leftarrow> tarjan_starts adjacency [0..<n] (tarjan_initial n);
        Some (map (\<lambda>scc. bs_collect (map (\<lambda>i. known ! i) scc))
          (filter (\<lambda>scc. length scc > 1 \<or> length scc = 1 \<and> scc ! 0 \<in> set (adjacency ! (scc ! 0))) (ts_sccs s)))
      })"

section \<open>From edges\<close>

fun join_text :: "string \<Rightarrow> string list \<Rightarrow> string" where
  "join_text sep [] = []"
| "join_text sep [x] = x"
| "join_text sep (x # y # xs) = x @ sep @ join_text sep (y # xs)"

record edge_scan =
  se_superseded :: "revision_id list"
  se_supersedes :: "(revision_id \<times> revision_id list) list"
  se_superseded_by :: "(revision_id \<times> revision_id list) list"
  se_diagnostics :: "projection_diagnostic list"

definition missing_target :: "revision_id \<Rightarrow> revision_id \<Rightarrow> projection_diagnostic" where
  "missing_target revision target =
     \<lparr>pd_code = SUPERSESSION_TARGET_MISSING_CODE,
      pd_message = ''revision '' @ revision @ '' supersedes unknown revision '' @ target\<rparr>"

definition scan_target ::
  "revision_id list \<Rightarrow> revision_id \<Rightarrow> revision_id \<Rightarrow> edge_scan \<Rightarrow> edge_scan" where
  "scan_target known revision target scan =
     (if target \<in> set known then
        scan\<lparr>se_superseded := bs_insert target (se_superseded scan),
             se_superseded_by := bm_entry target [] (bs_insert revision) (se_superseded_by scan)\<rparr>
      else scan\<lparr>se_diagnostics := se_diagnostics scan @ [missing_target revision target]\<rparr>)"

definition scan_declared ::
  "revision_id list \<Rightarrow> revision_id \<times> revision_id list \<Rightarrow> edge_scan \<Rightarrow> edge_scan" where
  "scan_declared known entry scan =
     (let (revision, targets) = entry;
          scan = (if targets \<noteq> [] then scan\<lparr>se_supersedes := bm_insert revision targets (se_supersedes scan)\<rparr> else scan)
      in fold (scan_target known revision) targets scan)"

definition cycle_diagnostic :: "revision_id list \<Rightarrow> projection_diagnostic" where
  "cycle_diagnostic cycle =
     \<lparr>pd_code = SUPERSESSION_CYCLE_CODE,
      pd_message = ''revisions form a supersession cycle: '' @ join_text '', '' cycle\<rparr>"

definition declare_edges :: "(revision_id \<times> revision_id list) list \<Rightarrow> (revision_id \<times> revision_id list) list" where
  "declare_edges edges = fold (\<lambda>(revision, targets). bm_entry revision [] (\<lambda>s. bs_extend s targets)) edges []"

definition from_edges :: "(revision_id \<times> revision_id list) list \<Rightarrow> supersession_view option" where
  "from_edges edges =
     (let declared = declare_edges edges;
          known = map fst declared;
          scan = fold (scan_declared known) declared
            \<lparr>se_superseded = [], se_supersedes = [], se_superseded_by = [], se_diagnostics = []\<rparr>
      in do {
        components \<leftarrow> connected_components known declared;
        cycles \<leftarrow> directed_cycles known declared;
        Some \<lparr>sv_heads = filter (\<lambda>revision. revision \<notin> set (se_superseded scan)) known,
              sv_superseded = se_superseded scan,
              sv_supersedes = se_supersedes scan,
              sv_superseded_by = se_superseded_by scan,
              sv_components = components,
              sv_cycle_revisions = fold (\<lambda>cycle s. bs_extend s cycle) cycles [],
              sv_diagnostics = se_diagnostics scan @ map cycle_diagnostic cycles\<rparr>
      })"

fun proposal_edges :: "shore_event list \<Rightarrow> (revision_id \<times> revision_id list) list result" where
  "proposal_edges [] = Inr []"
| "proposal_edges (event # events) =
     (if ev_event_type event = WorkObjectProposed then
        case ev_payload event of
          P_WorkObjectProposed p \<Rightarrow>
            and_then (proposal_edges events) (\<lambda>edges.
              Inr (case wo_work_object p of
                     WP_Revision r \<Rightarrow> (rev_id (rp_revision r), rp_supersedes r) # edges
                   | WP_TaskAttempt _ \<Rightarrow> edges))
        | _ \<Rightarrow> Inl Json
      else proposal_edges events)"

definition from_events :: "shore_event list \<Rightarrow> supersession_view option result" where
  "from_events events = and_then (proposal_edges events) (\<lambda>edges. Inr (from_edges edges))"

section \<open>Reading the view\<close>

record revision_classification_facet =
  rc_state :: string
  rc_competing :: bool

definition classify_revision :: "supersession_view \<Rightarrow> bool \<Rightarrow> revision_id \<Rightarrow> revision_classification_facet" where
  "classify_revision view competing revision =
     \<lparr>rc_state = (if revision \<in> set (sv_superseded view) then ''superseded''
                  else if bm_get (sv_supersedes view) revision \<noteq> None then ''head''
                  else ''isolated''),
      rc_competing = competing\<rparr>"

definition revision_supersession_classification ::
  "supersession_view \<Rightarrow> (revision_id \<times> revision_classification_facet) list" where
  "revision_supersession_classification view =
     fold (\<lambda>component m.
         let competing = length (filter (\<lambda>revision. revision \<in> set (sv_heads view)) component) > 1
         in fold (\<lambda>revision. bm_insert revision (classify_revision view competing revision)) component m)
       (sv_components view) []"

definition component_of :: "supersession_view \<Rightarrow> revision_id \<Rightarrow> revision_id list option" where
  "component_of view revision = List.find (\<lambda>component. revision \<in> set component) (sv_components view)"

definition heads_for :: "supersession_view \<Rightarrow> revision_id \<Rightarrow> revision_id list" where
  "heads_for view revision =
     (case component_of view revision of
        Some component \<Rightarrow> filter (\<lambda>r. r \<in> set (sv_heads view)) component
      | None \<Rightarrow> [])"

definition stale_by_superseding_revision :: "supersession_view \<Rightarrow> revision_id \<Rightarrow> revision_id list" where
  "stale_by_superseding_revision view revision = bm_get_or [] (sv_superseded_by view) revision"

definition threads_containing :: "supersession_view \<Rightarrow> revision_id list \<Rightarrow> supersession_view" where
  "threads_containing view scope =
     (let components = filter (\<lambda>component. \<not> bs_disjoint component scope) (sv_components view);
          kept = bs_collect (concat components);
          keep_set = filter (\<lambda>revision. revision \<in> set kept);
          keep_map = filter (\<lambda>(revision, _). revision \<in> set kept)
      in \<lparr>sv_heads = keep_set (sv_heads view),
          sv_superseded = keep_set (sv_superseded view),
          sv_supersedes = keep_map (sv_supersedes view),
          sv_superseded_by = keep_map (sv_superseded_by view),
          sv_components = components,
          sv_cycle_revisions = keep_set (sv_cycle_revisions view),
          sv_diagnostics = sv_diagnostics view\<rparr>)"

section \<open>Cycles are the strongly connected components\<close>

lemma reindex_trancl:
  assumes "distinct known" and "T \<subseteq> set known \<times> set known" and "i < length known" and "j < length known"
  defines "R \<equiv> {(a, b). a < length known \<and> b < length known \<and> (known ! a, known ! b) \<in> T}"
  shows "(i, j) \<in> R\<^sup>+ \<longleftrightarrow> (known ! i, known ! j) \<in> T\<^sup>+"
proof
  assume "(i, j) \<in> R\<^sup>+"
  then show "(known ! i, known ! j) \<in> T\<^sup>+"
    by (induction rule: trancl_induct) (auto simp: R_def intro: trancl_into_trancl)
next
  have "\<exists>k < length known. known ! k = y \<and> (i, k) \<in> R\<^sup>+" if "(known ! i, y) \<in> T\<^sup>+" for y
    using that
  proof (induction rule: trancl_induct)
    case (base y)
    then have "y \<in> set known" using assms(2) by blast
    then obtain k where "k < length known" "known ! k = y" by (auto simp: in_set_conv_nth)
    with base assms(3) show ?case by (intro exI [of _ k]) (auto simp: R_def)
  next
    case (step y z)
    then obtain k where k: "k < length known" "known ! k = y" "(i, k) \<in> R\<^sup>+" by blast
    have "z \<in> set known" using step.hyps(2) assms(2) by blast
    then obtain l where l: "l < length known" "known ! l = z" by (auto simp: in_set_conv_nth)
    have "(k, l) \<in> R" using step.hyps(2) k l by (auto simp: R_def)
    with k l show ?case by (blast intro: trancl_into_trancl)
  qed
  moreover assume "(known ! i, known ! j) \<in> T\<^sup>+"
  ultimately show "(i, j) \<in> R\<^sup>+" using assms(1,4) by (metis nth_eq_iff_index_eq)
qed

lemma adjacency_edges:
  assumes "bs_ok known" and "bm_ok declared"
  shows "graph_edges (adjacency_of known declared) =
      {(a, b). a < length known \<and> b < length known \<and> (known ! a, known ! b) \<in> thread_edges known declared}"
    and "length (adjacency_of known declared) = length known" and "graph_ok (adjacency_of known declared)"
proof -
  note get = index_of_nodes_get [OF bs_ok_distinct [OF assms(1)]]
  have "j \<in> set (List.map_filter (bm_get (index_of_nodes known)) ts) \<longleftrightarrow> j < length known \<and> known ! j \<in> set ts" for j ts
    unfolding set_map_filter_iff get by blast
  then have adj: "j \<in> set (adjacency_of known declared ! i) \<longleftrightarrow> j < length known \<and> known ! j \<in> set (bm_get_or [] declared (known ! i))"
    if "i < length known" for i j
    using that by (simp add: adjacency_of_def)
  have "y \<in> set (bm_get_or [] declared x) \<longleftrightarrow> (\<exists>ts. (x, ts) \<in> set declared \<and> y \<in> set ts)" for x y
    using bm_mem_iff [OF assms(2)] by (cases "bm_get declared x") (auto simp: bm_get_or_def)
  then show "graph_edges (adjacency_of known declared) =
      {(a, b). a < length known \<and> b < length known \<and> (known ! a, known ! b) \<in> thread_edges known declared}"
    using adj by (auto simp: graph_edges_def thread_edges_def adjacency_of_def)
  show "length (adjacency_of known declared) = length known" by (simp add: adjacency_of_def)
  then show "graph_ok (adjacency_of known declared)"
    using adj by (auto simp: graph_ok_def)
qed

lemma scc_image:
  assumes "distinct known" and "T \<subseteq> set known \<times> set known" and "C \<subseteq> {..<length known}"
  defines "R \<equiv> {(a, b). a < length known \<and> b < length known \<and> (known ! a, known ! b) \<in> T}"
  assumes scc: "is_scc R C"
  shows "\<forall>x \<in> (!) known ` C. \<forall>y. y \<in> (!) known ` C \<longleftrightarrow> (x, y) \<in> T\<^sup>* \<and> (y, x) \<in> T\<^sup>*"
proof -
  have star: "(i, j) \<in> R\<^sup>* \<longleftrightarrow> (known ! i, known ! j) \<in> T\<^sup>*" if "i < length known" "j < length known" for i j
    using reindex_trancl [OF assms(1,2) that] that assms(1) unfolding R_def [symmetric]
    by (auto simp: rtrancl_eq_or_trancl nth_eq_iff_index_eq)
  have inside: "y \<in> set known" if "(x, y) \<in> T\<^sup>*" "x \<in> set known" for x y
    using that assms(2) by (induction rule: rtrancl_induct) blast+
  show ?thesis
  proof (intro ballI allI)
    fix x y assume "x \<in> (!) known ` C"
    then obtain i where i: "i \<in> C" "x = known ! i" "i < length known" using assms(3) by auto
    show "y \<in> (!) known ` C \<longleftrightarrow> (x, y) \<in> T\<^sup>* \<and> (y, x) \<in> T\<^sup>*"
    proof (cases "y \<in> set known")
      case True
      then obtain j where j: "j < length known" "y = known ! j" by (auto simp: in_set_conv_nth)
      have "y \<in> (!) known ` C \<longleftrightarrow> j \<in> C"
        using j assms(1,3) by (auto simp: nth_eq_iff_index_eq subset_eq)
      with scc i j star show ?thesis by (auto simp: is_scc_def)
    next
      case False
      then show ?thesis using inside [of x y] i assms(3) by auto
    qed
  qed
qed

lemma scc_on_cycle:
  assumes "is_scc R C" and "x \<in> C" and "R \<subseteq> A \<times> A"
  shows "(x, x) \<in> R\<^sup>+ \<longleftrightarrow> (\<exists>y \<in> C. y \<noteq> x) \<or> (x, x) \<in> R"
proof
  assume "(x, x) \<in> R\<^sup>+"
  then obtain z where z: "(x, z) \<in> R" "(z, x) \<in> R\<^sup>*" by (auto dest: tranclD)
  then have "z \<in> C" using assms(1,2) by (auto simp: is_scc_def)
  with z show "(\<exists>y \<in> C. y \<noteq> x) \<or> (x, x) \<in> R" by (cases "z = x") auto
next
  assume "(\<exists>y \<in> C. y \<noteq> x) \<or> (x, x) \<in> R"
  then show "(x, x) \<in> R\<^sup>+"
  proof
    assume "\<exists>y \<in> C. y \<noteq> x"
    then obtain y where "y \<noteq> x" "(x, y) \<in> R\<^sup>*" "(y, x) \<in> R\<^sup>*" using assms(1,2) by (auto simp: is_scc_def)
    then show ?thesis by (metis rtrancl_eq_or_trancl trancl_rtrancl_trancl)
  qed auto
qed

lemma not_singleton: "distinct C \<Longrightarrow> i \<in> set C \<Longrightarrow> C \<noteq> [i] \<Longrightarrow> (\<exists>y \<in> set C. y \<noteq> i) \<and> length C > 1"
  by (cases C rule: remdups_adj.cases) auto

lemma directed_cycles_spec:
  assumes "bs_ok known" and "bm_ok declared"
  shows "\<exists>cycles. directed_cycles known declared = Some cycles \<and>
    (\<forall>C \<in> set cycles. bs_ok C \<and> C \<noteq> [] \<and> (\<forall>x \<in> set C. \<forall>y. y \<in> set C \<longleftrightarrow>
        (x, y) \<in> (thread_edges known declared)\<^sup>* \<and> (y, x) \<in> (thread_edges known declared)\<^sup>*)) \<and>
    \<Union> (set ` set cycles) = {x. (x, x) \<in> (thread_edges known declared)\<^sup>+}"
proof -
  let ?adj = "adjacency_of known declared" and ?T = "thread_edges known declared" and ?n = "length known"
  note d = bs_ok_distinct [OF assms(1)] and a = adjacency_edges [OF assms]
  have sub: "?T \<subseteq> set known \<times> set known" by (auto simp: thread_edges_def)
  obtain t where t: "tarjan_starts ?adj [0..<?n] (tarjan_initial ?n) = Some t" "\<Union> (set ` set (ts_sccs t)) = {..<?n}"
    "\<forall>C \<in> set (ts_sccs t). is_scc (graph_edges ?adj) (set C) \<and> distinct C"
    using tarjan_spec [OF a(3)] unfolding a(2) by blast
  let ?P = "\<lambda>scc. length scc > 1 \<or> length scc = 1 \<and> scc ! 0 \<in> set (?adj ! (scc ! 0))"
  let ?f = "\<lambda>scc. bs_collect (map (\<lambda>i. known ! i) scc)"
  have P: "?P C \<longleftrightarrow> (known ! i, known ! i) \<in> ?T\<^sup>+" if C: "C \<in> set (ts_sccs t)" and i: "i \<in> set C" for C i
  proof -
    have n: "i < ?n" using C i t(2) by auto
    have R: "is_scc (graph_edges ?adj) (set C)" "distinct C" using t(3) C by blast+
    have cycle: "(known ! i, known ! i) \<in> ?T\<^sup>+ \<longleftrightarrow> (\<exists>y \<in> set C. y \<noteq> i) \<or> (i, i) \<in> graph_edges ?adj"
      using reindex_trancl [OF d sub n n] scc_on_cycle [OF R(1) i] unfolding a(1) by blast
    show ?thesis
    proof (cases "C = [i]")
      case True
      with cycle n show ?thesis by (simp add: graph_edges_def a(2))
    next
      case False
      from not_singleton [OF R(2) i False] cycle show ?thesis by blast
    qed
  qed
  have "directed_cycles known declared = Some (map ?f (filter ?P (ts_sccs t)))"
    using t(1) by (simp add: directed_cycles_def Let_def)
  moreover have "bs_ok c \<and> c \<noteq> [] \<and> (\<forall>x \<in> set c. \<forall>y. y \<in> set c \<longleftrightarrow> (x, y) \<in> ?T\<^sup>* \<and> (y, x) \<in> ?T\<^sup>*)"
    if c: "c \<in> set (map ?f (filter ?P (ts_sccs t)))" for c
  proof -
    obtain C where C: "C \<in> set (ts_sccs t)" "c = ?f C" using c by auto
    then have "is_scc (graph_edges ?adj) (set C)" "set C \<subseteq> {..<?n}" using t(2,3) by auto
    moreover have c: "set c = (!) known ` set C" using C(2) by simp
    moreover from calculation have "c \<noteq> []" by (auto simp: is_scc_def simp flip: set_empty)
    moreover have "bs_ok c" using C(2) by simp
    ultimately show ?thesis
      using scc_image [OF d sub, of "set C"] unfolding a(1) c by blast
  qed
  moreover have "\<Union> (set ` set (map ?f (filter ?P (ts_sccs t)))) = {x. (x, x) \<in> ?T\<^sup>+}"
  proof -
    have "x \<in> \<Union> (set ` set (map ?f (filter ?P (ts_sccs t)))) \<longleftrightarrow> (x, x) \<in> ?T\<^sup>+" for x
    proof -
      have "x \<in> \<Union> (set ` set (map ?f (filter ?P (ts_sccs t)))) \<longleftrightarrow>
          (\<exists>C \<in> set (ts_sccs t). \<exists>i \<in> set C. ?P C \<and> x = known ! i)" by auto
      also have "\<dots> \<longleftrightarrow> (\<exists>C \<in> set (ts_sccs t). \<exists>i \<in> set C. (known ! i, known ! i) \<in> ?T\<^sup>+ \<and> x = known ! i)"
        using P by blast
      also have "\<dots> \<longleftrightarrow> (\<exists>i \<in> {..<?n}. (known ! i, known ! i) \<in> ?T\<^sup>+ \<and> x = known ! i)"
        unfolding t(2) [symmetric] by blast
      also have "\<dots> \<longleftrightarrow> (x, x) \<in> ?T\<^sup>+"
      proof -
        have "x \<in> set known" if "(x, x) \<in> ?T\<^sup>+" using that sub by (auto dest!: tranclD)
        then show ?thesis by (auto simp: in_set_conv_nth)
      qed
      finally show ?thesis .
    qed
    then show ?thesis by blast
  qed
  ultimately show ?thesis by blast
qed

section \<open>What the view says\<close>

definition known_of :: "(revision_id \<times> revision_id list) list \<Rightarrow> revision_id set" where
  "known_of edges = fst ` set edges"

definition replaces_of :: "(revision_id \<times> revision_id list) list \<Rightarrow> (revision_id \<times> revision_id) set" where
  "replaces_of edges = {(x, y). y \<in> known_of edges \<and> (\<exists>ts. (x, ts) \<in> set edges \<and> y \<in> set ts)}"

lemma declare_edges_fold:
  fixes m :: "(revision_id \<times> revision_id list) list"
  defines "F \<equiv> fold (\<lambda>(revision, targets). bm_entry revision [] (\<lambda>s. bs_extend s targets))"
  assumes "bm_ok m" and "list_all (\<lambda>e. bs_ok (snd e)) m"
  shows "bm_ok (F edges m) \<and> list_all (\<lambda>e. bs_ok (snd e)) (F edges m) \<and>
    fst ` set (F edges m) = fst ` set m \<union> fst ` set edges \<and>
    (\<forall>r. set (bm_get_or [] (F edges m) r) = set (bm_get_or [] m r) \<union> {t. \<exists>ts. (r, ts) \<in> set edges \<and> t \<in> set ts})"
  using assms(2,3)
proof (induction edges arbitrary: m)
  case (Cons e edges)
  obtain r ts where e: "e = (r, ts)" by force
  let ?m = "bm_entry r [] (\<lambda>s. bs_extend s ts) m"
  have ok: "bm_ok ?m" "list_all (\<lambda>e. bs_ok (snd e)) ?m"
    using Cons.prems by (auto intro!: values_bm_entry)
  have keys: "fst ` set ?m = insert r (fst ` set m)" by (simp add: bm_entry_def)
  have get: "set (bm_get_or [] ?m x) = set (bm_get_or [] m x) \<union> (if x = r then set ts else {})" for x
    using Cons.prems(1) by (simp add: bm_get_or_entry)
  have F: "F (e # edges) m = F edges ?m" by (simp add: F_def e)
  show ?case
    unfolding F using Cons.IH [OF ok] keys get by (auto simp: e)
qed (simp add: F_def)

lemma declare_edges_spec:
  shows "bm_ok (declare_edges edges)" and "fst ` set (declare_edges edges) = known_of edges"
    and "(x, ts) \<in> set (declare_edges edges) \<longleftrightarrow> x \<in> known_of edges \<and> bs_ok ts \<and>
      set ts = {t. \<exists>us. (x, us) \<in> set edges \<and> t \<in> set us}"
proof -
  have "bm_ok []" "list_all (\<lambda>e. bs_ok (snd e)) []" by simp_all
  note d = declare_edges_fold [OF this, folded declare_edges_def, of edges]
  show ok: "bm_ok (declare_edges edges)" using d by blast
  show keys: "fst ` set (declare_edges edges) = known_of edges" using d by (simp add: known_of_def)
  have vals: "list_all (\<lambda>e. bs_ok (snd e)) (declare_edges edges)" using d by blast
  have get: "set (bm_get_or [] (declare_edges edges) x) = {t. \<exists>us. (x, us) \<in> set edges \<and> t \<in> set us}"
    using d by simp
  have "(x, ts) \<in> set (declare_edges edges) \<longleftrightarrow> x \<in> known_of edges \<and> ts = bm_get_or [] (declare_edges edges) x"
    unfolding keys [symmetric] bm_dom [symmetric] using bm_mem_iff [OF ok, of x ts] by (auto simp: bm_get_or_def)
  then show "(x, ts) \<in> set (declare_edges edges) \<longleftrightarrow> x \<in> known_of edges \<and> bs_ok ts \<and>
      set ts = {t. \<exists>us. (x, us) \<in> set edges \<and> t \<in> set us}"
    using get bm_get_or_ok [OF vals, of "[]" x] bs_ext [of ts "bm_get_or [] (declare_edges edges) x"] by auto
qed

lemma declare_member:
  "(\<exists>ts. (x, ts) \<in> set (declare_edges edges) \<and> y \<in> set ts) \<longleftrightarrow> (\<exists>us. (x, us) \<in> set edges \<and> y \<in> set us)"
proof -
  have "\<exists>ts. (x, ts) \<in> set (declare_edges edges)" if "(x, us) \<in> set edges" for us
    using that declare_edges_spec(2) [of edges] by (force simp: known_of_def)
  then show ?thesis unfolding declare_edges_spec(3) by blast
qed

lemma thread_edges_declare:
  "thread_edges (map fst (declare_edges edges)) (declare_edges edges) = replaces_of edges"
proof -
  have k: "set (map fst (declare_edges edges)) = known_of edges" using declare_edges_spec(2) by simp
  show ?thesis
    unfolding thread_edges_def k declare_member replaces_of_def by (force simp: known_of_def)
qed

section \<open>The scan\<close>

definition scan_state_ok :: "edge_scan \<Rightarrow> bool" where
  "scan_state_ok s \<longleftrightarrow> bs_ok (se_superseded s) \<and> bm_ok (se_supersedes s) \<and> bm_ok (se_superseded_by s)"

lemma scan_targets:
  "scan_state_ok s \<Longrightarrow> scan_state_ok (fold (scan_target known r) ts s) \<and>
    se_supersedes (fold (scan_target known r) ts s) = se_supersedes s \<and>
    set (se_superseded (fold (scan_target known r) ts s)) = set (se_superseded s) \<union> (set ts \<inter> set known) \<and>
    (\<forall>y. set (bm_get_or [] (se_superseded_by (fold (scan_target known r) ts s)) y) =
       set (bm_get_or [] (se_superseded_by s) y) \<union> (if y \<in> set ts \<inter> set known then {r} else {}))"
proof (induction ts arbitrary: s)
  case (Cons u ts)
  let ?s = "scan_target known r u s"
  have s: "scan_state_ok ?s" "se_supersedes ?s = se_supersedes s"
    "set (se_superseded ?s) = set (se_superseded s) \<union> ({u} \<inter> set known)"
    "\<And>y. set (bm_get_or [] (se_superseded_by ?s) y) =
       set (bm_get_or [] (se_superseded_by s) y) \<union> (if y = u \<and> u \<in> set known then {r} else {})"
    using Cons.prems by (auto simp: scan_state_ok_def scan_target_def bm_get_or_entry)
  show ?case using Cons.IH [OF s(1)] unfolding s(2-4) by auto
qed auto

lemma scan_declared_step:
  assumes "scan_state_ok s"
  shows "scan_state_ok (scan_declared known (r, ts) s)"
    and "bm_get (se_supersedes (scan_declared known (r, ts) s)) x =
      (if x = r \<and> ts \<noteq> [] then Some ts else bm_get (se_supersedes s) x)"
    and "set (se_superseded (scan_declared known (r, ts) s)) = set (se_superseded s) \<union> (set ts \<inter> set known)"
    and "set (bm_get_or [] (se_superseded_by (scan_declared known (r, ts) s)) y) =
       set (bm_get_or [] (se_superseded_by s) y) \<union> (if y \<in> set ts \<inter> set known then {r} else {})"
proof -
  define s' where "s' = (if ts \<noteq> [] then s\<lparr>se_supersedes := bm_insert r ts (se_supersedes s)\<rparr> else s)"
  have eq: "scan_declared known (r, ts) s = fold (scan_target known r) ts s'"
    by (simp add: scan_declared_def s'_def Let_def)
  have s': "scan_state_ok s'" "se_superseded s' = se_superseded s" "se_superseded_by s' = se_superseded_by s"
    "bm_get (se_supersedes s') x = (if x = r \<and> ts \<noteq> [] then Some ts else bm_get (se_supersedes s) x)"
    using assms by (auto simp: s'_def scan_state_ok_def bm_get_insert)
  note t = scan_targets [OF s'(1), of known r ts, folded eq]
  show "scan_state_ok (scan_declared known (r, ts) s)"
    and "bm_get (se_supersedes (scan_declared known (r, ts) s)) x =
      (if x = r \<and> ts \<noteq> [] then Some ts else bm_get (se_supersedes s) x)"
    and "set (se_superseded (scan_declared known (r, ts) s)) = set (se_superseded s) \<union> (set ts \<inter> set known)"
    and "set (bm_get_or [] (se_superseded_by (scan_declared known (r, ts) s)) y) =
       set (bm_get_or [] (se_superseded_by s) y) \<union> (if y \<in> set ts \<inter> set known then {r} else {})"
    using t s' by simp_all
qed

lemma scan_all:
  "scan_state_ok s \<Longrightarrow> distinct (map fst D) \<Longrightarrow> scan_state_ok (fold (scan_declared known) D s) \<and>
    (\<forall>x. bm_get (se_supersedes (fold (scan_declared known) D s)) x =
       (case map_of D x of Some ts \<Rightarrow> if ts \<noteq> [] then Some ts else bm_get (se_supersedes s) x
        | None \<Rightarrow> bm_get (se_supersedes s) x)) \<and>
    set (se_superseded (fold (scan_declared known) D s)) =
      set (se_superseded s) \<union> {y \<in> set known. \<exists>r ts. (r, ts) \<in> set D \<and> y \<in> set ts} \<and>
    (\<forall>y. set (bm_get_or [] (se_superseded_by (fold (scan_declared known) D s)) y) =
       set (bm_get_or [] (se_superseded_by s) y) \<union> {r. y \<in> set known \<and> (\<exists>ts. (r, ts) \<in> set D \<and> y \<in> set ts)})"
proof (induction D arbitrary: s)
  case (Cons e D)
  obtain r ts where e: "e = (r, ts)" by force
  note step = scan_declared_step [OF Cons.prems(1), of known r ts]
  have "map_of D r = None" using Cons.prems(2) e by (simp add: map_of_eq_None_iff image_iff)
  then show ?case
    using Cons.IH [OF step(1)] Cons.prems(2) unfolding step(2-4) e fold_simps
    by (auto split: option.splits)
qed auto

definition view_meets :: "supersession_view \<Rightarrow> revision_id set \<Rightarrow> (revision_id \<times> revision_id) set \<Rightarrow> bool" where
  "view_meets v K T \<longleftrightarrow>
     bs_ok (sv_heads v) \<and> set (sv_heads v) = K - snd ` T \<and> set (sv_superseded v) = snd ` T \<and>
     (\<forall>y. set (stale_by_superseding_revision v y) = {x. (x, y) \<in> T}) \<and>
     distinct (sv_components v) \<and> (\<forall>C \<in> set (sv_components v). bs_ok C \<and> C \<noteq> []) \<and>
     (\<forall>x y. (\<exists>C \<in> set (sv_components v). x \<in> set C \<and> y \<in> set C) \<longleftrightarrow>
        x \<in> K \<and> y \<in> K \<and> (x, y) \<in> (T \<union> T\<inverse>)\<^sup>*) \<and>
     (\<forall>C \<in> set (sv_components v). \<forall>D \<in> set (sv_components v). set C \<inter> set D \<noteq> {} \<longrightarrow> C = D)"

lemma set_fold_extend: "set (fold (\<lambda>c s. bs_extend s c) cs s) = set s \<union> \<Union> (set ` set cs)"
  by (induction cs arbitrary: s) auto

lemma from_edges_spec:
  "\<exists>v. from_edges edges = Some v \<and> view_meets v (known_of edges) (replaces_of edges) \<and>
     set (sv_cycle_revisions v) = {x. (x, x) \<in> (replaces_of edges)\<^sup>+} \<and>
     (\<forall>x. bm_get (sv_supersedes v) x \<noteq> None \<longleftrightarrow> (\<exists>t ts. (x, ts) \<in> set edges \<and> t \<in> set ts))"
proof -
  let ?D = "declare_edges edges" and ?K = "map fst (declare_edges edges)" and ?T = "replaces_of edges"
  let ?scan = "fold (scan_declared ?K) ?D \<lparr>se_superseded = [], se_supersedes = [], se_superseded_by = [], se_diagnostics = []\<rparr>"
  have ok: "bm_ok ?D" by (rule declare_edges_spec(1))
  have K: "set ?K = known_of edges" "bs_ok ?K" using declare_edges_spec(1,2) by auto
  obtain comps where comps: "connected_components ?K ?D = Some comps" "distinct comps"
    "\<forall>C \<in> set comps. bs_ok C \<and> C \<noteq> []"
    "\<forall>x y. (\<exists>C \<in> set comps. x \<in> set C \<and> y \<in> set C) \<longleftrightarrow> x \<in> known_of edges \<and> y \<in> known_of edges \<and> (x, y) \<in> (?T \<union> ?T\<inverse>)\<^sup>*"
    "\<forall>C \<in> set comps. \<forall>D \<in> set comps. set C \<inter> set D \<noteq> {} \<longrightarrow> C = D"
    using connected_components_spec [OF K(2), of ?D] unfolding thread_edges_declare K(1) by blast
  obtain cycles where cycles: "directed_cycles ?K ?D = Some cycles" "\<Union> (set ` set cycles) = {x. (x, x) \<in> ?T\<^sup>+}"
    using directed_cycles_spec [OF K(2) ok] unfolding thread_edges_declare by blast
  have "scan_state_ok \<lparr>se_superseded = [], se_supersedes = [], se_superseded_by = [], se_diagnostics = []\<rparr>"
    by (simp add: scan_state_ok_def)
  note scan = scan_all [OF this bm_ok_distinct [OF ok], of ?K]
  have "set (se_superseded ?scan) = {y \<in> set ?K. \<exists>r. \<exists>ts. (r, ts) \<in> set ?D \<and> y \<in> set ts}"
    using scan by simp
  then have sup: "set (se_superseded ?scan) = snd ` ?T"
    unfolding K(1) declare_member replaces_of_def by force
  have "set (bm_get_or [] (se_superseded_by ?scan) y) = {r. y \<in> set ?K \<and> (\<exists>ts. (r, ts) \<in> set ?D \<and> y \<in> set ts)}" for y
    using scan by simp
  then have by': "set (bm_get_or [] (se_superseded_by ?scan) y) = {x. (x, y) \<in> ?T}" for y
    unfolding K(1) declare_member replaces_of_def by blast
  have "bm_get (se_supersedes ?scan) x \<noteq> None \<longleftrightarrow> (\<exists>ts. bm_get ?D x = Some ts \<and> ts \<noteq> [])" for x
    using scan by (simp split: option.split)
  moreover have "(\<exists>ts. bm_get ?D x = Some ts \<and> ts \<noteq> []) \<longleftrightarrow> (\<exists>t. \<exists>ts. (x, ts) \<in> set edges \<and> t \<in> set ts)" for x
  proof -
    have ne: "ts \<noteq> [] \<longleftrightarrow> (\<exists>t. t \<in> set ts)" for ts :: "revision_id list" by (cases ts) auto
    show ?thesis
      unfolding bm_mem_iff [OF ok, symmetric] ne using declare_member [of x edges] by blast
  qed
  ultimately have fwd: "bm_get (se_supersedes ?scan) x \<noteq> None \<longleftrightarrow> (\<exists>t. \<exists>ts. (x, ts) \<in> set edges \<and> t \<in> set ts)" for x
    by blast
  define v where "v = \<lparr>sv_heads = filter (\<lambda>revision. revision \<notin> set (se_superseded ?scan)) ?K,
    sv_superseded = se_superseded ?scan, sv_supersedes = se_supersedes ?scan, sv_superseded_by = se_superseded_by ?scan,
    sv_components = comps, sv_cycle_revisions = fold (\<lambda>cycle s. bs_extend s cycle) cycles [],
    sv_diagnostics = se_diagnostics ?scan @ map cycle_diagnostic cycles\<rparr>"
  have "from_edges edges = Some v"
    by (simp add: from_edges_def Let_def comps(1) cycles(1) v_def)
  moreover have "view_meets v (known_of edges) ?T"
    using comps(2-5) sup by' K unfolding view_meets_def
    by (simp add: v_def stale_by_superseding_revision_def set_diff_eq)
  ultimately show ?thesis
    using fwd cycles(2) by (simp add: v_def set_fold_extend)
qed

section \<open>Readers of the view\<close>

definition competing_in :: "supersession_view \<Rightarrow> revision_id list \<Rightarrow> bool" where
  "competing_in view component \<longleftrightarrow> length (filter (\<lambda>r. r \<in> set (sv_heads view)) component) > 1"

definition threads_disjoint :: "supersession_view \<Rightarrow> bool" where
  "threads_disjoint view \<longleftrightarrow>
     (\<forall>C \<in> set (sv_components view). \<forall>D \<in> set (sv_components view). set C \<inter> set D \<noteq> {} \<longrightarrow> C = D)"

lemma classification_lookup:
  assumes "threads_disjoint view"
  shows "bm_get (revision_supersession_classification view) r = Some f \<longleftrightarrow>
    (\<exists>C \<in> set (sv_components view). r \<in> set C \<and> f = classify_revision view (competing_in view C) r)"
proof -
  let ?entries = "\<lambda>C. map (\<lambda>r. (r, classify_revision view (competing_in view C) r)) C"
  define pairs where "pairs = concat (map ?entries (sv_components view))"
  have one: "fold (\<lambda>r. bm_insert r (g r)) C m = fold (\<lambda>(k, v). bm_insert k v) (map (\<lambda>r. (r, g r)) C) m"
    for g :: "revision_id \<Rightarrow> revision_classification_facet" and C m
    by (simp add: fold_map comp_def)
  have "fold (\<lambda>component m. fold (\<lambda>r. bm_insert r (classify_revision view (competing_in view component) r)) component m) cs m =
      fold (\<lambda>(k, v). bm_insert k v) (concat (map ?entries cs)) m" for cs m
    by (induction cs arbitrary: m) (simp_all add: one)
  then have c: "revision_supersession_classification view = fold (\<lambda>(k, v). bm_insert k v) pairs []"
    by (simp add: revision_supersession_classification_def pairs_def competing_in_def Let_def)
  have mem: "(r, f) \<in> set pairs \<longleftrightarrow>
      (\<exists>C \<in> set (sv_components view). r \<in> set C \<and> f = classify_revision view (competing_in view C) r)" for r f
    by (auto simp: pairs_def)
  have "map_of (rev pairs) r = Some f \<longleftrightarrow> (r, f) \<in> set pairs"
  proof (subst map_of_functional)
    fix k v w
    assume "(k, v) \<in> set (rev pairs)" "(k, w) \<in> set (rev pairs)"
    then obtain C D where "C \<in> set (sv_components view)" "k \<in> set C" "v = classify_revision view (competing_in view C) k"
      and "D \<in> set (sv_components view)" "k \<in> set D" "w = classify_revision view (competing_in view D) k"
      unfolding set_rev mem by blast
    moreover from this have "C = D" using assms unfolding threads_disjoint_def by blast
    ultimately show "v = w" by simp
  qed simp
  then show ?thesis by (simp add: c bm_fold_insert mem)
qed

lemma component_of_iff:
  assumes "threads_disjoint view"
  shows "component_of view r = Some C \<longleftrightarrow> C \<in> set (sv_components view) \<and> r \<in> set C"
proof -
  have "component_of view r = Some C \<Longrightarrow> C \<in> set (sv_components view) \<and> r \<in> set C"
    by (auto simp: component_of_def find_Some_iff)
  moreover have "\<exists>D. component_of view r = Some D" if "C \<in> set (sv_components view)" "r \<in> set C"
    using that by (cases "component_of view r") (auto simp: component_of_def find_None_iff)
  ultimately show ?thesis
    using assms unfolding threads_disjoint_def component_of_def find_Some_iff by (metis disjoint_iff nth_mem)
qed

lemma threads_containing_spec:
  fixes view :: supersession_view and scope :: "revision_id list"
  assumes "threads_disjoint view"
  defines "w \<equiv> threads_containing view scope"
  defines "kept r \<equiv> \<exists>C \<in> set (sv_components view). r \<in> set C \<and> set C \<inter> set scope \<noteq> {}"
  shows "threads_disjoint w"
    and "C \<in> set (sv_components w) \<longleftrightarrow> C \<in> set (sv_components view) \<and> set C \<inter> set scope \<noteq> {}"
    and "r \<in> set (sv_heads w) \<longleftrightarrow> r \<in> set (sv_heads view) \<and> kept r"
    and "r \<in> set (sv_superseded w) \<longleftrightarrow> r \<in> set (sv_superseded view) \<and> kept r"
    and "bm_get (sv_supersedes w) r = (if kept r then bm_get (sv_supersedes view) r else None)"
    and "stale_by_superseding_revision w r = (if kept r then stale_by_superseding_revision view r else [])"
proof -
  have k: "r \<in> set (bs_collect (concat (filter (\<lambda>C. \<not> bs_disjoint C scope) (sv_components view)))) \<longleftrightarrow> kept r" for r
    by (auto simp: kept_def bs_disjoint_iff)
  note fields = w_def threads_containing_def Let_def k supersession_view.simps
  show C: "C \<in> set (sv_components w) \<longleftrightarrow> C \<in> set (sv_components view) \<and> set C \<inter> set scope \<noteq> {}" for C
    unfolding fields by (auto simp: bs_disjoint_iff)
  then show "threads_disjoint w" using assms(1) unfolding threads_disjoint_def by blast
  show "r \<in> set (sv_heads w) \<longleftrightarrow> r \<in> set (sv_heads view) \<and> kept r"
    "r \<in> set (sv_superseded w) \<longleftrightarrow> r \<in> set (sv_superseded view) \<and> kept r"
    "bm_get (sv_supersedes w) r = (if kept r then bm_get (sv_supersedes view) r else None)"
    "stale_by_superseding_revision w r = (if kept r then stale_by_superseding_revision view r else [])"
    unfolding fields stale_by_superseding_revision_def bm_get_or_def bm_get_filter_keys by simp_all
qed

lemma threads_containing_readers:
  fixes view :: supersession_view and scope :: "revision_id list"
  assumes "threads_disjoint view"
  defines "w \<equiv> threads_containing view scope"
  defines "kept r \<equiv> \<exists>C \<in> set (sv_components view). r \<in> set C \<and> set C \<inter> set scope \<noteq> {}"
  shows "component_of w r = (if kept r then component_of view r else None)"
    and "heads_for w r = (if kept r then heads_for view r else [])"
    and "bm_get (revision_supersession_classification w) r =
      (if kept r then bm_get (revision_supersession_classification view) r else None)"
proof -
  note spec = threads_containing_spec [OF assms(1), where scope = scope, folded w_def kept_def]
  have keptC: "kept x" if "C \<in> set (sv_components w)" "x \<in> set C" for C x
    using that unfolding spec(2) kept_def by blast
  have inw: "C \<in> set (sv_components w)" if "kept r" "C \<in> set (sv_components view)" "r \<in> set C" for C
    using that assms(1) unfolding spec(2) kept_def threads_disjoint_def by blast
  have in_iff: "C \<in> set (sv_components w) \<and> r \<in> set C \<longleftrightarrow> kept r \<and> C \<in> set (sv_components view) \<and> r \<in> set C" for C
    using inw [of C] keptC [of C r] spec(2) [of C] by argo
  then have comp: "component_of w r = Some C \<longleftrightarrow> kept r \<and> component_of view r = Some C" for C
    unfolding component_of_iff [OF spec(1)] component_of_iff [OF assms(1)] .
  show c: "component_of w r = (if kept r then component_of view r else None)"
    by (rule option_eqI) (simp add: comp)
  have heads: "filter (\<lambda>x. x \<in> set (sv_heads w)) C = filter (\<lambda>x. x \<in> set (sv_heads view)) C" if "C \<in> set (sv_components w)" for C
    using keptC [OF that] by (intro filter_cong) (auto simp: spec(3))
  show "heads_for w r = (if kept r then heads_for view r else [])"
    using c heads component_of_iff [OF spec(1)] by (auto simp: heads_for_def split: option.splits)
  have facet: "classify_revision w (competing_in w C) r = classify_revision view (competing_in view C) r"
    if "C \<in> set (sv_components w)" "r \<in> set C" for C
    using keptC [OF that] heads [OF that(1)] by (simp add: classify_revision_def competing_in_def spec(4,5))
  have look: "bm_get (revision_supersession_classification w) r = Some f \<longleftrightarrow>
      kept r \<and> bm_get (revision_supersession_classification view) r = Some f" for f
  proof -
    have "(\<exists>C. (C \<in> set (sv_components w) \<and> r \<in> set C) \<and> f = classify_revision w (competing_in w C) r) \<longleftrightarrow>
        (\<exists>C. (kept r \<and> C \<in> set (sv_components view) \<and> r \<in> set C) \<and> f = classify_revision view (competing_in view C) r)"
      unfolding in_iff [symmetric] using facet by metis
    then show ?thesis
      unfolding classification_lookup [OF spec(1)] classification_lookup [OF assms(1)] by auto
  qed
  show "bm_get (revision_supersession_classification w) r =
      (if kept r then bm_get (revision_supersession_classification view) r else None)"
    by (rule option_eqI) (simp add: look)
qed

lemma view_meets_component:
  assumes "view_meets v K T"
  shows "(\<exists>C \<in> set (sv_components v). x \<in> set C \<and> y \<in> set C) \<longleftrightarrow> x \<in> K \<and> y \<in> K \<and> (x, y) \<in> (T \<union> T\<inverse>)\<^sup>*"
  using assms unfolding view_meets_def by (elim conjE) (erule allE [where x = x], erule allE [where x = y])

lemma view_meets_components: "view_meets v K T \<Longrightarrow> \<Union> (set ` set (sv_components v)) = K"
  by (rule set_eqI) (use view_meets_component [of v K T] in auto)

lemma view_meets_heads:
  assumes "view_meets v K T"
  shows "set (sv_heads v) = K - snd ` T" and "set (sv_superseded v) = snd ` T"
    and "set (stale_by_superseding_revision v y) = {x. (x, y) \<in> T}"
proof -
  note m = assms [unfolded view_meets_def]
  show "set (sv_heads v) = K - snd ` T" using m by (elim conjE)
  show "set (sv_superseded v) = snd ` T" using m by (elim conjE)
  show "set (stale_by_superseding_revision v y) = {x. (x, y) \<in> T}" using m by (elim conjE) (erule allE)
qed

lemma view_meets_disjoint: "view_meets v K T \<Longrightarrow> threads_disjoint v"
  unfolding view_meets_def threads_disjoint_def by (elim conjE)

lemma view_meets_thread:
  assumes "view_meets v K T" and "C \<in> set (sv_components v)"
  shows "x \<in> set C \<Longrightarrow> y \<in> set C \<longleftrightarrow> y \<in> K \<and> (x, y) \<in> (T \<union> T\<inverse>)\<^sup>*" and "distinct C" and "C \<noteq> []"
proof -
  have "\<forall>C \<in> set (sv_components v). bs_ok C \<and> C \<noteq> []" using assms(1) unfolding view_meets_def by (elim conjE)
  then show "distinct C" "C \<noteq> []" using assms(2) bs_ok_distinct by blast+
  assume x: "x \<in> set C"
  have "x \<in> K" using view_meets_components [OF assms(1)] x assms(2) by blast
  moreover have "y \<in> set C \<longleftrightarrow> (\<exists>C \<in> set (sv_components v). x \<in> set C \<and> y \<in> set C)"
    using view_meets_disjoint [OF assms(1)] x assms(2) unfolding threads_disjoint_def by blast
  ultimately show "y \<in> set C \<longleftrightarrow> y \<in> K \<and> (x, y) \<in> (T \<union> T\<inverse>)\<^sup>*"
    unfolding view_meets_component [OF assms(1)] by simp
qed

lemma from_edges_disjoint: "from_edges edges = Some v \<Longrightarrow> threads_disjoint v"
  using from_edges_spec [of edges] view_meets_disjoint by fastforce

section \<open>Properties\<close>

text \<open>C10. The supersession view states exactly what the proposals declare, whatever the edges, cycles
  and unknown targets included: it is always built; its heads are the known Revisions nothing
  known supersedes; the direct superseders of a Revision are those that declare it; two
  Revisions share a thread exactly when they are connected through known edges; and the
  Revisions reported on a cycle are exactly those a path of edges leads back to.\<close>

theorem supersession_view_exact:
  "\<exists>v. from_edges edges = Some v \<and>
     set (sv_heads v) = known_of edges - snd ` replaces_of edges \<and>
     set (sv_superseded v) = snd ` replaces_of edges \<and>
     (\<forall>y. set (stale_by_superseding_revision v y) = {x. (x, y) \<in> replaces_of edges}) \<and>
     (\<forall>x y. (\<exists>C. C \<in> set (sv_components v) \<and> x \<in> set C \<and> y \<in> set C) \<longleftrightarrow>
        x \<in> known_of edges \<and> y \<in> known_of edges \<and> (x, y) \<in> (replaces_of edges \<union> (replaces_of edges)\<inverse>)\<^sup>*) \<and>
     set (sv_cycle_revisions v) = {x. (x, x) \<in> (replaces_of edges)\<^sup>+}"
  using from_edges_spec [of edges] unfolding view_meets_def Bex_def by (elim exE conjE) (intro exI conjI)

text \<open>C17. A Revision is classified exactly as its thread stands: the classification has an entry for
  each known Revision and no other; its state is \<open>superseded\<close> when a known Revision supersedes
  it, else \<open>head\<close> when its proposal declares a target, else \<open>isolated\<close>; and it competes exactly
  when its thread has two different heads.\<close>

theorem classification_exact:
  assumes "from_edges edges = Some v"
  shows "bm_get (revision_supersession_classification v) r =
    (if r \<in> known_of edges then
       Some \<lparr>rc_state = (if r \<in> snd ` replaces_of edges then ''superseded''
                         else if \<exists>t ts. (r, ts) \<in> set edges \<and> t \<in> set ts then ''head'' else ''isolated''),
             rc_competing = (\<exists>a b. a \<noteq> b \<and> {a, b} \<subseteq> known_of edges - snd ` replaces_of edges \<and>
               {(r, a), (r, b)} \<subseteq> (replaces_of edges \<union> (replaces_of edges)\<inverse>)\<^sup>*)\<rparr>
     else None)"
proof -
  let ?K = "known_of edges" and ?T = "replaces_of edges"
  let ?f = "\<lparr>rc_state = (if r \<in> snd ` ?T then ''superseded''
                         else if \<exists>t ts. (r, ts) \<in> set edges \<and> t \<in> set ts then ''head'' else ''isolated''),
             rc_competing = (\<exists>a b. a \<noteq> b \<and> {a, b} \<subseteq> ?K - snd ` ?T \<and> {(r, a), (r, b)} \<subseteq> (?T \<union> ?T\<inverse>)\<^sup>*)\<rparr>"
  obtain m: "view_meets v ?K ?T" and sup: "\<forall>x. bm_get (sv_supersedes v) x \<noteq> None \<longleftrightarrow> (\<exists>t ts. (x, ts) \<in> set edges \<and> t \<in> set ts)"
    using from_edges_spec [of edges] assms by (elim exE conjE) simp
  note look = classification_lookup [OF from_edges_disjoint [OF assms]]
  have facet: "classify_revision v (competing_in v C) r = ?f" if C: "C \<in> set (sv_components v)" "r \<in> set C" for C
  proof -
    have "competing_in v C \<longleftrightarrow> (\<exists>a b. a \<noteq> b \<and> {a, b} \<subseteq> ?K - snd ` ?T \<and> {(r, a), (r, b)} \<subseteq> (?T \<union> ?T\<inverse>)\<^sup>*)"
      unfolding competing_in_def filter_more_than_one [OF view_meets_thread(2) [OF m C(1)]]
      by (simp add: view_meets_thread(1) [OF m C] view_meets_heads [OF m]) blast
    then show ?thesis
      using sup view_meets_heads [OF m] by (simp add: classify_revision_def)
  qed
  show ?thesis
  proof (cases "r \<in> ?K")
    case True
    then obtain C where C: "C \<in> set (sv_components v)" "r \<in> set C" using view_meets_components [OF m] by blast
    have "bm_get (revision_supersession_classification v) r = Some (classify_revision v (competing_in v C) r)"
      unfolding look using C by (intro bexI [of _ C] conjI refl)
    with True show ?thesis unfolding facet [OF C] by (simp only: if_True)
  next
    case False
    then have "bm_get (revision_supersession_classification v) r \<noteq> Some f" for f
      using look view_meets_components [OF m] by auto
    with False show ?thesis by (cases "bm_get (revision_supersession_classification v) r") auto
  qed
qed

theorem classification_exact_witness:
  "\<exists>v. from_edges [(''b'', [''a'']), (''a'', [])] = Some v \<and>
     bm_get (revision_supersession_classification v) ''a'' = Some \<lparr>rc_state = ''superseded'', rc_competing = False\<rparr>"
proof -
  let ?e = "[(''b'', [''a'']), (''a'', [])] :: (revision_id \<times> revision_id list) list"
  obtain v where v: "from_edges ?e = Some v" using from_edges_spec by blast
  have T: "replaces_of ?e = {(''b'', ''a'')}" "known_of ?e = {''a'', ''b''}" by (auto simp: replaces_of_def known_of_def)
  show ?thesis using v classification_exact [OF v, of "''a''"] by (auto simp: T)
qed

text \<open>C18. Narrowing the view to the threads that meet a scope answers, for every Revision of such a
  thread, exactly as the whole view does, and knows no other Revision.\<close>

theorem threads_containing_answers_alike:
  assumes "from_edges edges = Some v"
  shows "let w = threads_containing v scope;
      kept = (\<exists>C \<in> set (sv_components v). r \<in> set C \<and> set C \<inter> set scope \<noteq> {})
    in component_of w r = (if kept then component_of v r else None) \<and>
       heads_for w r = (if kept then heads_for v r else []) \<and>
       stale_by_superseding_revision w r = (if kept then stale_by_superseding_revision v r else []) \<and>
       bm_get (revision_supersession_classification w) r =
         (if kept then bm_get (revision_supersession_classification v) r else None)"
  using threads_containing_readers [OF from_edges_disjoint [OF assms]]
    threads_containing_spec(6) [OF from_edges_disjoint [OF assms]]
  unfolding Let_def by (intro conjI)

theorem threads_containing_answers_alike_witness:
  "\<exists>v. from_edges [(''b'', [''a'']), (''a'', []), (''c'', [])] = Some v \<and>
     heads_for (threads_containing v [''a'']) ''a'' = heads_for v ''a'' \<and>
     component_of (threads_containing v [''a'']) ''c'' = None"
proof -
  let ?e = "[(''b'', [''a'']), (''a'', []), (''c'', [])] :: (revision_id \<times> revision_id list) list"
  obtain v where v: "from_edges ?e = Some v" "view_meets v (known_of ?e) (replaces_of ?e)"
    using from_edges_spec by blast
  have T: "replaces_of ?e = {(''b'', ''a'')}" "known_of ?e = {''a'', ''b'', ''c''}"
    by (auto simp: replaces_of_def known_of_def)
  have a: "\<exists>C \<in> set (sv_components v). ''a'' \<in> set C \<and> set C \<inter> set [''a''] \<noteq> {}"
    using view_meets_component [OF v(2), of "''a''" "''a''"] by (auto simp: T)
  have "(''c'', ''a'') \<notin> ({(''b'', ''a'')} \<union> {(''b'', ''a'')}\<inverse>)\<^sup>*" by (auto elim: converse_rtranclE)
  then have c: "\<not> (\<exists>C \<in> set (sv_components v). ''c'' \<in> set C \<and> set C \<inter> set [''a''] \<noteq> {})"
    using view_meets_component [OF v(2), of "''c''" "''a''"] by (auto simp: T)
  show ?thesis
    using v(1) threads_containing_answers_alike [OF v(1), where r = "''a''" and scope = "[''a'']"] a
      threads_containing_answers_alike [OF v(1), where r = "''c''" and scope = "[''a'']"] c unfolding Let_def by auto
qed

end
