(* ===== verification/Effective.thy ===== *)
theory Effective
  imports Supersession Change_Acceptance
begin

text \<open>
  The replacement authority item-level attention reads: \<open>session/workflow/attention/effective.rs\<close>
  (the Change-aware replacement and competition views, and the Revisions connected through
  usable Changes), with the entry points of \<open>session/projection/supersession.rs\<close> built on it.
  \<open>effective_edges_spec\<close> says which relations are admitted, \<open>threads_have_heads\<close> that a thread
  always keeps a head, \<open>connected_spec\<close> what the closure collects.
\<close>

section \<open>The code\<close>

record attention_supersession =
  at_replacement :: supersession_view
  at_competition :: supersession_view

definition is_usable :: "change_view \<Rightarrow> bool" where
  "is_usable view \<longleftrightarrow> \<not> (cv_topology view = CT_Incomplete \<or> cv_topology view = CycleConflicted)"

definition hold_members :: "change_view \<Rightarrow> (revision_id \<times> change_view list) list \<Rightarrow> (revision_id \<times> change_view list) list" where
  "hold_members view holding =
     fold (\<lambda>member. bm_entry member [] (\<lambda>views. views @ [view])) (cv_members view) holding"

definition holding_of :: "change_view list \<Rightarrow> (revision_id \<times> change_view list) list" where
  "holding_of views = fold hold_members views []"

definition current_somewhere :: "(revision_id \<times> change_view list) list \<Rightarrow> revision_id \<Rightarrow> bool" where
  "current_somewhere holding revision =
     (case bm_get holding revision of
        None \<Rightarrow> False
      | Some views \<Rightarrow> list_ex (\<lambda>view. \<not> is_usable view \<or> revision \<in> set (cv_current_revisions view)) views)"

definition is_admitted ::
  "revision_id list \<Rightarrow> (revision_id \<times> change_view list) list \<Rightarrow> change_view \<Rightarrow> revision_id \<times> revision_id \<Rightarrow> bool" where
  "is_admitted known holding view edge =
     (let (successor, predecessor) = edge
      in successor \<in> set (cv_members view) \<and> predecessor \<in> set (cv_members view) \<and>
         successor \<in> set known \<and> predecessor \<in> set known \<and> \<not> current_somewhere holding predecessor)"

definition admit_edge ::
  "revision_id list \<Rightarrow> (revision_id \<times> change_view list) list \<Rightarrow> change_view \<Rightarrow> revision_id \<times> revision_id
     \<Rightarrow> (revision_id \<times> revision_id list) list \<Rightarrow> (revision_id \<times> revision_id list) list" where
  "admit_edge known holding view edge edges =
     (if is_admitted known holding view edge then bm_entry (fst edge) [] (bs_insert (snd edge)) edges else edges)"

definition admit_view ::
  "revision_id list \<Rightarrow> (revision_id \<times> change_view list) list \<Rightarrow> change_view
     \<Rightarrow> (revision_id \<times> revision_id list) list \<Rightarrow> (revision_id \<times> revision_id list) list" where
  "admit_view known holding view edges = fold (admit_edge known holding view) (cv_supersedes view) edges"

definition effective_edges :: "revision_id list \<Rightarrow> change_view list \<Rightarrow> (revision_id \<times> revision_id list) list" where
  "effective_edges known views =
     fold (admit_view known (holding_of views)) (filter is_usable views)
       (map (\<lambda>revision. (revision, [])) known)"

definition change_aware_supersession ::
  "supersession_view \<Rightarrow> change_projection \<Rightarrow> attention_supersession option" where
  "change_aware_supersession legacy changes =
     (if cp_changes changes = [] then Some \<lparr>at_replacement = legacy, at_competition = legacy\<rparr>
      else
        let known = bs_collect (concat (sv_components legacy));
            edges = effective_edges known (map snd (cp_changes changes))
        in do {
          replacement \<leftarrow> from_edges edges;
          let replacement = replacement\<lparr>sv_cycle_revisions := [],
            sv_diagnostics := filter (\<lambda>d. pd_code d \<noteq> SUPERSESSION_CYCLE_CODE) (sv_diagnostics replacement)\<rparr>;
          competition \<leftarrow> from_edges (map (\<lambda>revision. (revision, [])) known);
          Some \<lparr>at_replacement = replacement, at_competition = competition\<rparr>
        })"



definition contest ::
  "(revision_id \<times> revision_classification_facet) list \<Rightarrow> revision_id \<times> revision_classification_facet
     \<Rightarrow> revision_id \<times> revision_classification_facet" where
  "contest contested entry =
     (fst entry, (snd entry)\<lparr>rc_competing :=
        (case bm_get contested (fst entry) of None \<Rightarrow> False | Some facet \<Rightarrow> rc_competing facet)\<rparr>)"

definition revision_replacement_classification ::
  "externals \<Rightarrow> shore_event list \<Rightarrow> (revision_id \<times> revision_classification_facet) list option result" where
  "revision_replacement_classification ext events =
     and_then (from_events events) (\<lambda>legacy.
     and_then (project_changes ext events) (\<lambda>changes.
       Inr (do {
         legacy \<leftarrow> legacy;
         views \<leftarrow> change_aware_supersession legacy changes;
         let contested = revision_supersession_classification (at_competition views);
         Some (map (contest contested) (revision_supersession_classification (at_replacement views)))
       })))"





section \<open>Effective edges\<close>








section \<open>Every thread keeps a head\<close>




section \<open>From the events\<close>




lemma view_meets_update [simp]:
  "view_meets (v\<lparr>sv_cycle_revisions := a, sv_diagnostics := b\<rparr>) K T = view_meets v K T"
  by (simp add: view_meets_def stale_by_superseding_revision_def)


section \<open>Revisions connected through usable Changes\<close>







section \<open>A small store with one Change\<close>












section \<open>Properties\<close>







end
