(* ===== verification/Event_Store.thy ===== *)
theory Event_Store
  imports Events
begin

text \<open>
  The event store: \<open>src/src/session/store/event_store.rs\<close> over the file journal
  (\<open>session/store/backend/local.rs\<close>) and the exclusive file creation of \<open>storage/mod.rs\<close>. The
  directory of event files is the map from file name to content. The serde decoders are
  parameters (\<open>store_codec\<close>); a store that carries a capability activation is read through the
  router of \<open>capabilities.rs\<close>, which is the parameter \<open>activated\<close>. Failing system calls are not
  modelled. The lemmas show that the store is a write-once map from idempotency keys to
  events, and that concurrent writers behave as if they took turns.
\<close>

section \<open>Validation\<close>

record event_probe =
  pb_event_type :: string
  pb_writer_role :: bool
  pb_writer_tool :: bool
  pb_target_subject :: bool

record store_codec =
  sc_to_vec :: "shore_event \<Rightarrow> string"
  sc_probe :: "string \<Rightarrow> event_probe result"
  sc_from_slice :: "string \<Rightarrow> shore_event result"
  sc_payload :: "event_payload \<Rightarrow> json"

definition event_filename_stem :: "externals \<Rightarrow> string \<Rightarrow> string" where
  "event_filename_stem ext idempotency_key = sha256_bytes_hex ext idempotency_key"

definition filename_idempotency_mismatch :: "string \<Rightarrow> shore_error" where
  "filename_idempotency_mismatch idempotency_key =
     Message (''event filename does not match idempotencyKey for '' @ idempotency_key)"

definition validate_event :: "externals \<Rightarrow> store_codec \<Rightarrow> shore_event \<Rightarrow> string option \<Rightarrow> unit result" where
  "validate_event ext codec event stem =
     and_then (validate_schema_version event) (\<lambda>_.
     if ev_event_type event = ReviewAssessmentRecorded \<and> ev_assertion_mode event \<noteq> Operative then
       Inl (InvalidEvent ''review_assessment_recorded events must use assertionMode Operative'')
     else if ev_event_id event \<noteq> EVENT @ '':sha256:'' @ sha256_bytes_hex ext (ev_idempotency_key event) then
       Inl (Message (''eventId mismatch for idempotency key '' @ ev_idempotency_key event))
     else if ev_payload_hash event \<noteq> sha256_json_prefixed ext (sc_payload codec (ev_payload event)) then
       Inl (Message (''payloadHash mismatch for event '' @ ev_event_id event))
     else if stem \<noteq> None \<and> stem \<noteq> Some (event_filename_stem ext (ev_idempotency_key event)) then
       Inl (filename_idempotency_mismatch (ev_idempotency_key event))
     else Inr ())"

definition schema_break_for :: "string \<Rightarrow> schema_break_record option" where
  "schema_break_for encoding =
     map_option (\<lambda>(broken_at, anchor). \<lparr>retired = encoding, broken_at = broken_at, anchor = anchor\<rparr>)
       (if encoding = ''review_disposition_recorded'' then
          Some (''0.1'', ''docs/assessment-model.md#legacy-disposition-events'')
        else if encoding = ''intervention_requested'' \<or> encoding = ''intervention_resolved'' then
          Some (''0.1'', ''docs/input-request-model.md#legacy-intervention-events'')
        else if encoding = ''writer.role'' then Some (''0.1'', ''docs/storage-model.md#legacy-writer-role-events'')
        else if encoding = ''writer.tool'' then Some (''0.1'', ''docs/storage-model.md#legacy-writer-tool-events'')
        else if encoding = ''eventType.snake_case'' \<or> encoding = ''target.subject'' then
          Some (''0.1'', ''docs/store-migration.md#1-a-fail-loud-strict-reader-not-a-dual-read'')
        else None)"

text \<open>An \<open>expect\<close> on a record that \<open>schema_break_for\<close> always has is \<open>the\<close>.\<close>

definition decode_validated_event :: "externals \<Rightarrow> store_codec \<Rightarrow> string \<Rightarrow> string option \<Rightarrow> shore_event result" where
  "decode_validated_event ext codec bytes stem =
     and_then (sc_probe codec bytes) (\<lambda>probe.
     case schema_break_for (pb_event_type probe) of
       Some r \<Rightarrow> Inl (UnsupportedEventType r)
     | None \<Rightarrow>
         if event_type_from_code (pb_event_type probe) = None then
           Inl (UnsupportedEventType (the (schema_break_for ''eventType.snake_case'')))
         else if pb_target_subject probe then
           Inl (UnsupportedEventEnvelope (the (schema_break_for ''target.subject'')))
         else if pb_writer_role probe then
           Inl (UnsupportedEventEnvelope (the (schema_break_for ''writer.role'')))
         else if pb_writer_tool probe then
           Inl (UnsupportedEventEnvelope (the (schema_break_for ''writer.tool'')))
         else
           and_then (sc_from_slice codec bytes) (\<lambda>event.
           and_then (validate_event ext codec event stem) (\<lambda>_. Inr event)))"

section \<open>The file journal\<close>

type_synonym event_files = "(string \<times> string) list"

datatype create_outcome = CO_Created | CO_AlreadyExists

definition try_exists :: "event_files \<Rightarrow> string \<Rightarrow> bool" where
  "try_exists files path \<longleftrightarrow> bm_get files path \<noteq> None"

text \<open>\<open>fs::hard_link\<close>: atomic, and refused when the path is taken.\<close>

definition hard_link :: "event_files \<Rightarrow> string \<Rightarrow> string \<Rightarrow> event_files \<times> create_outcome" where
  "hard_link files path bytes =
     (if bm_get files path \<noteq> None then (files, CO_AlreadyExists) else (bm_insert path bytes files, CO_Created))"

definition create_file_exclusive :: "event_files \<Rightarrow> string \<Rightarrow> string \<Rightarrow> event_files \<times> create_outcome" where
  "create_file_exclusive files path bytes =
     (if try_exists files path then (files, CO_AlreadyExists) else hard_link files path bytes)"

definition event_path :: "externals \<Rightarrow> string \<Rightarrow> string" where
  "event_path ext idempotency_key = event_filename_stem ext idempotency_key @ ''.json''"

definition create_event_once :: "externals \<Rightarrow> event_files \<Rightarrow> string \<Rightarrow> string \<Rightarrow> event_files \<times> create_outcome" where
  "create_event_once ext files idempotency_key bytes =
     create_file_exclusive files (event_path ext idempotency_key) bytes"

definition read_event_bytes :: "externals \<Rightarrow> event_files \<Rightarrow> string \<Rightarrow> string option" where
  "read_event_bytes ext files idempotency_key = bm_get files (event_path ext idempotency_key)"

definition event_exists :: "externals \<Rightarrow> event_files \<Rightarrow> string \<Rightarrow> bool" where
  "event_exists ext files idempotency_key = try_exists files (event_path ext idempotency_key)"

record journal_entry =
  je_key_digest :: string
  je_bytes :: string

definition is_event_file :: "string \<Rightarrow> bool" where
  "is_event_file name \<longleftrightarrow> length name = 69 \<and> drop 64 name = ''.json''"

definition list_event_entries :: "event_files \<Rightarrow> journal_entry list" where
  "list_event_entries files =
     map (\<lambda>(name, bytes). \<lparr>je_key_digest = take (length name - 5) name, je_bytes = bytes\<rparr>)
       (filter (\<lambda>(name, _). is_event_file name) files)"

section \<open>Admission\<close>

datatype store_capability_status =
    MigrationRequired
  | MigrationInProgress string string
  | Ready string string string

definition ROOT_ACTIVATION_LOGICAL_KEY_V1 :: string where
  "ROOT_ACTIVATION_LOGICAL_KEY_V1 = ''store_capability_activation:review_change_revision_v1:root''"

definition capability_error :: "string \<Rightarrow> 'a result" where
  "capability_error message = Inl (Message (''unsupported Pointbreak store capability state: '' @ message))"

definition bounded_writer_capability_status ::
  "externals \<Rightarrow> (event_files \<Rightarrow> store_capability_status result) \<Rightarrow> event_files \<Rightarrow> store_capability_status result" where
  "bounded_writer_capability_status ext activated files =
     (if \<not> event_exists ext files ROOT_ACTIVATION_LOGICAL_KEY_V1 then Inr MigrationRequired else activated files)"

definition preflight_current_product ::
  "externals \<Rightarrow> (event_files \<Rightarrow> store_capability_status result) \<Rightarrow> event_files \<Rightarrow> unit result" where
  "preflight_current_product ext activated files =
     and_then (bounded_writer_capability_status ext activated files) (\<lambda>status.
       case status of
         Ready _ _ _ \<Rightarrow> Inr ()
       | MigrationInProgress _ _ \<Rightarrow>
           capability_error ''migration_in_progress; normal product routes refuse partial Change authority''
       | MigrationRequired \<Rightarrow> Inr ())"

definition event_entries_for_current_product ::
  "externals \<Rightarrow> (event_files \<Rightarrow> (store_capability_status \<times> journal_entry list) result) \<Rightarrow> event_files
     \<Rightarrow> journal_entry list result" where
  "event_entries_for_current_product ext inspect files =
     (if \<not> event_exists ext files ROOT_ACTIVATION_LOGICAL_KEY_V1 then Inr (list_event_entries files)
      else and_then (inspect files) (\<lambda>(status, event_entries).
        case status of
          Ready _ _ _ \<Rightarrow> Inr event_entries
        | MigrationInProgress _ _ \<Rightarrow>
            capability_error ''migration_in_progress; refusing partial semantic output from an activated store''
        | MigrationRequired \<Rightarrow>
            capability_error ''activation root disappeared during current-product event routing''))"

section \<open>Writing\<close>

datatype event_write_outcome = EW_Created | EW_Existing | EW_ExistingDivergentSignature

definition event_signature_binding_matches :: "shore_event \<Rightarrow> shore_event \<Rightarrow> bool" where
  "event_signature_binding_matches existing candidate \<longleftrightarrow>
     ev_signer existing = ev_signer candidate \<and> ev_signature existing = ev_signature candidate"

definition read_stored_event :: "externals \<Rightarrow> store_codec \<Rightarrow> event_files \<Rightarrow> string \<Rightarrow> shore_event result" where
  "read_stored_event ext codec files idempotency_key =
     (case read_event_bytes ext files idempotency_key of
        None \<Rightarrow> Inl (Message (''stored event for idempotency key '' @ idempotency_key @ '' disappeared during write''))
      | Some bytes \<Rightarrow>
          and_then (decode_validated_event ext codec bytes None) (\<lambda>event.
          if ev_idempotency_key event \<noteq> idempotency_key then
            Inl (filename_idempotency_mismatch idempotency_key)
          else Inr event))"

text \<open>The arm of \<open>publish_validated_event\<close> for a key that is taken.\<close>

definition compare_existing ::
  "externals \<Rightarrow> store_codec \<Rightarrow> shore_event \<Rightarrow> shore_event \<Rightarrow> event_write_outcome result" where
  "compare_existing ext codec existing event =
     (if ev_payload_hash existing = ev_payload_hash event then
        if event_signature_binding_matches existing event then Inr EW_Existing
        else
          and_then (event_record_hash ext (sc_payload codec) existing) (\<lambda>existing_hash.
          and_then (event_record_hash ext (sc_payload codec) event) (\<lambda>event_hash.
            Inr (if existing_hash = event_hash then EW_ExistingDivergentSignature else EW_Existing)))
      else Inl (Message (''event conflict for idempotency key '' @ ev_idempotency_key event)))"

definition existing_outcome ::
  "externals \<Rightarrow> store_codec \<Rightarrow> event_files \<Rightarrow> shore_event \<Rightarrow> event_write_outcome result" where
  "existing_outcome ext codec files event =
     and_then (read_stored_event ext codec files (ev_idempotency_key event)) (\<lambda>existing.
       compare_existing ext codec existing event)"

definition publish_validated_event ::
  "externals \<Rightarrow> store_codec \<Rightarrow> event_files \<Rightarrow> shore_event \<Rightarrow> string
     \<Rightarrow> event_files \<times> event_write_outcome result" where
  "publish_validated_event ext codec files event bytes =
     (case create_event_once ext files (ev_idempotency_key event) bytes of
        (files', CO_Created) \<Rightarrow> (files', Inr EW_Created)
      | (files', CO_AlreadyExists) \<Rightarrow> (files', existing_outcome ext codec files' event))"

text \<open>\<open>EventWriteBatch::record_event_once\<close>, without a coordinator of derived indexes.\<close>

definition batch_record_event_once ::
  "externals \<Rightarrow> store_codec \<Rightarrow> event_files \<Rightarrow> shore_event \<Rightarrow> event_files \<times> event_write_outcome result" where
  "batch_record_event_once ext codec files event =
     (case validate_event ext codec event None of
        Inl e \<Rightarrow> (files, Inl e)
      | Inr _ \<Rightarrow> publish_validated_event ext codec files event (sc_to_vec codec event))"

definition record_event_once ::
  "externals \<Rightarrow> store_codec \<Rightarrow> (event_files \<Rightarrow> store_capability_status result) \<Rightarrow> event_files \<Rightarrow> shore_event
     \<Rightarrow> event_files \<times> event_write_outcome result" where
  "record_event_once ext codec activated files event =
     (case preflight_current_product ext activated files of
        Inl e \<Rightarrow> (files, Inl e)
      | Inr _ \<Rightarrow> batch_record_event_once ext codec files event)"

section \<open>Reading\<close>

definition decode_validated_entry :: "externals \<Rightarrow> store_codec \<Rightarrow> journal_entry \<Rightarrow> shore_event result" where
  "decode_validated_entry ext codec entry =
     and_then (decode_validated_event ext codec (je_bytes entry) None) (\<lambda>event.
     if event_filename_stem ext (ev_idempotency_key event) \<noteq> je_key_digest entry then
       Inl (filename_idempotency_mismatch (ev_idempotency_key event))
     else Inr event)"

definition list_events ::
  "externals \<Rightarrow> store_codec \<Rightarrow> (event_files \<Rightarrow> (store_capability_status \<times> journal_entry list) result) \<Rightarrow> event_files
     \<Rightarrow> shore_event list result" where
  "list_events ext codec inspect files =
     and_then (event_entries_for_current_product ext inspect files) (try_map (decode_validated_entry ext codec))"

record skipped_event =
  sk_code :: string
  sk_record :: schema_break_record

fun collect_lenient ::
  "externals \<Rightarrow> store_codec \<Rightarrow> journal_entry list \<Rightarrow> shore_event list \<Rightarrow> skipped_event list
     \<Rightarrow> (shore_event list \<times> skipped_event list) result" where
  "collect_lenient ext codec [] events skipped = Inr (events, skipped)"
| "collect_lenient ext codec (entry # entries) events skipped =
     (case decode_validated_entry ext codec entry of
        Inr event \<Rightarrow> collect_lenient ext codec entries (events @ [event]) skipped
      | Inl (UnsupportedEventType r) \<Rightarrow>
          collect_lenient ext codec entries events (skipped @ [\<lparr>sk_code = ''unsupported_event_type'', sk_record = r\<rparr>])
      | Inl (UnsupportedEventEnvelope r) \<Rightarrow>
          collect_lenient ext codec entries events (skipped @ [\<lparr>sk_code = ''unsupported_event_envelope'', sk_record = r\<rparr>])
      | Inl other \<Rightarrow> Inl other)"

definition list_events_lenient ::
  "externals \<Rightarrow> store_codec \<Rightarrow> (event_files \<Rightarrow> (store_capability_status \<times> journal_entry list) result) \<Rightarrow> event_files
     \<Rightarrow> (shore_event list \<times> skipped_event list) result" where
  "list_events_lenient ext codec inspect files =
     and_then (event_entries_for_current_product ext inspect files) (\<lambda>entries. collect_lenient ext codec entries [] [])"

section \<open>Concurrent writers\<close>

text \<open>
  \<open>create_file_exclusive\<close> is two system calls, and the read of a taken key a third. A writer
  publishing its event is before the first call, between the two with its temporary file
  written, before the read, or done; the calls of different writers interleave freely.
\<close>

datatype writer_pc =
    W_Begin
  | W_Temp
  | W_Taken
  | W_Done "event_write_outcome result"

inductive publish_step ::
  "externals \<Rightarrow> store_codec \<Rightarrow> shore_event list \<Rightarrow> event_files \<times> writer_pc list \<Rightarrow> event_files \<times> writer_pc list \<Rightarrow> bool"
  for ext codec es where
  look_free: "i < length ws \<Longrightarrow> ws ! i = W_Begin \<Longrightarrow> \<not> try_exists files (event_path ext (ev_idempotency_key (es ! i))) \<Longrightarrow>
    publish_step ext codec es (files, ws) (files, ws[i := W_Temp])"
| look_taken: "i < length ws \<Longrightarrow> ws ! i = W_Begin \<Longrightarrow> try_exists files (event_path ext (ev_idempotency_key (es ! i))) \<Longrightarrow>
    publish_step ext codec es (files, ws) (files, ws[i := W_Taken])"
| link_created: "i < length ws \<Longrightarrow> ws ! i = W_Temp \<Longrightarrow>
    hard_link files (event_path ext (ev_idempotency_key (es ! i))) (sc_to_vec codec (es ! i)) = (files', CO_Created) \<Longrightarrow>
    publish_step ext codec es (files, ws) (files', ws[i := W_Done (Inr EW_Created)])"
| link_taken: "i < length ws \<Longrightarrow> ws ! i = W_Temp \<Longrightarrow>
    hard_link files (event_path ext (ev_idempotency_key (es ! i))) (sc_to_vec codec (es ! i)) = (files', CO_AlreadyExists) \<Longrightarrow>
    publish_step ext codec es (files, ws) (files', ws[i := W_Taken])"
| read_existing: "i < length ws \<Longrightarrow> ws ! i = W_Taken \<Longrightarrow>
    publish_step ext codec es (files, ws) (files, ws[i := W_Done (existing_outcome ext codec files (es ! i))])"

text \<open>The same events published one after the other.\<close>

fun publish_all ::
  "externals \<Rightarrow> store_codec \<Rightarrow> event_files \<Rightarrow> shore_event list \<Rightarrow> event_files \<times> event_write_outcome result list" where
  "publish_all ext codec files [] = (files, [])"
| "publish_all ext codec files (e # es) =
     (case publish_validated_event ext codec files e (sc_to_vec codec e) of
        (files', r) \<Rightarrow> (case publish_all ext codec files' es of (files'', rs) \<Rightarrow> (files'', r # rs)))"

section \<open>The journal contract\<close>

text \<open>What the trait \<open>Journal\<close> promises its clients: append with first write wins, and no removal.\<close>

locale write_once_journal =
  fixes ok :: "'s \<Rightarrow> bool" and create :: "'s \<Rightarrow> string \<Rightarrow> string \<Rightarrow> 's \<times> create_outcome"
    and read :: "'s \<Rightarrow> string \<Rightarrow> string option"
  assumes create_ok: "ok s \<Longrightarrow> ok (fst (create s k b))"
    and created_iff: "ok s \<Longrightarrow> snd (create s k b) = CO_Created \<longleftrightarrow> read s k = None"
    and read_created: "ok s \<Longrightarrow> read s k = None \<Longrightarrow> read (fst (create s k b)) k = Some b"
    and read_kept: "ok s \<Longrightarrow> read s k' = Some b' \<Longrightarrow> read (fst (create s k b)) k' = Some b'"
begin

definition create_all :: "'s \<Rightarrow> (string \<times> string) list \<Rightarrow> 's" where
  "create_all s writes = fold (\<lambda>(k, b) s. fst (create s k b)) writes s"

lemma create_all_keeps:
  "ok s \<Longrightarrow> ok (create_all s writes) \<and> (read s k = Some b \<longrightarrow> read (create_all s writes) k = Some b)"
  by (induction writes arbitrary: s) (auto simp: create_all_def create_ok read_kept)

lemma create_all_reads:
  assumes "ok s" and "(k, b) \<in> set writes"
  shows "read (create_all s writes) k \<noteq> None"
proof -
  obtain before after where w: "writes = before @ (k, b) # after" using split_list [OF assms(2)] by blast
  have s: "ok (create_all s before)" using create_all_keeps [OF assms(1)] by blast
  have "\<exists>b'. read (fst (create (create_all s before) k b)) k = Some b'"
    using read_created [OF s] read_kept [OF s] by (cases "read (create_all s before) k") blast+
  then show ?thesis
    using create_all_keeps [OF create_ok [OF s]] by (fastforce simp: w create_all_def)
qed

end

interpretation file_journal: write_once_journal "\<lambda>m. sorted_wrt (<) (map fst m)" "create_event_once ext" "read_event_bytes ext"
  by unfold_locales
    (auto simp: create_event_once_def create_file_exclusive_def try_exists_def hard_link_def read_event_bytes_def bm_get_insert)

section \<open>Interleavings\<close>


lemma publish_all_snoc:
  "publish_all ext codec f (es @ [e]) =
     (case publish_all ext codec f es of (f', rs) \<Rightarrow>
        case publish_validated_event ext codec f' e (sc_to_vec codec e) of (f'', r) \<Rightarrow> (f'', rs @ [r]))"
  by (induction es arbitrary: f) (auto split: prod.splits)

lemma publish_length: "publish_all ext codec f es = (f', rs) \<Longrightarrow> length rs = length es"
  by (induction es arbitrary: f f' rs) (auto split: prod.splits)

lemma publish_taken:
  "try_exists files (event_path ext (ev_idempotency_key e)) \<Longrightarrow>
     publish_validated_event ext codec files e bytes = (files, existing_outcome ext codec files e)"
  by (simp add: publish_validated_event_def create_event_once_def create_file_exclusive_def)

lemma publish_free:
  "\<not> try_exists files (event_path ext (ev_idempotency_key e)) \<Longrightarrow>
     publish_validated_event ext codec files e bytes = (bm_insert (event_path ext (ev_idempotency_key e)) bytes files, Inr EW_Created)"
  by (simp add: publish_validated_event_def create_event_once_def create_file_exclusive_def hard_link_def try_exists_def)

lemma publish_keeps:
  assumes "bm_ok files" and "publish_validated_event ext codec files e bytes = (files', r)"
  shows "bm_ok files'" and "bm_get files p = Some b \<Longrightarrow> bm_get files' p = Some b"
  using assms by (cases "try_exists files (event_path ext (ev_idempotency_key e))";
      auto simp: publish_taken publish_free bm_get_insert try_exists_def split: if_splits)+

definition publish_inv :: "externals \<Rightarrow> store_codec \<Rightarrow> shore_event list \<Rightarrow> event_files \<Rightarrow> event_files \<times> writer_pc list \<Rightarrow> bool" where
  "publish_inv ext codec es f0 s \<longleftrightarrow> (case s of (files, ws) \<Rightarrow> bm_ok files \<and>
     (\<forall>i < length ws. ws ! i = W_Taken \<longrightarrow> try_exists files (event_path ext (ev_idempotency_key (es ! i)))) \<and>
     (\<exists>order rs. distinct order \<and> set order = {i. i < length ws \<and> (\<exists>r. ws ! i = W_Done r)} \<and>
        publish_all ext codec f0 (map (nth es) order) = (files, rs) \<and> map (nth ws) order = map W_Done rs))"

lemma publish_inv_wait:
  assumes inv: "publish_inv ext codec es f0 (files, ws)" and i: "i < length ws" "\<forall>r. ws ! i \<noteq> W_Done r"
    and pc: "\<forall>r. pc \<noteq> W_Done r" "pc = W_Taken \<Longrightarrow> try_exists files (event_path ext (ev_idempotency_key (es ! i)))"
  shows "publish_inv ext codec es f0 (files, ws[i := pc])"
proof -
  obtain order rs where o: "bm_ok files" "distinct order" "set order = {i. i < length ws \<and> (\<exists>r. ws ! i = W_Done r)}"
    "publish_all ext codec f0 (map (nth es) order) = (files, rs)" "map (nth ws) order = map W_Done rs"
    and taken: "\<forall>i < length ws. ws ! i = W_Taken \<longrightarrow> try_exists files (event_path ext (ev_idempotency_key (es ! i)))"
    using inv by (auto simp: publish_inv_def)
  have "i \<notin> set order" using o(3) i(2) by auto
  then have "map (nth (ws[i := pc])) order = map W_Done rs"
    unfolding o(5) [symmetric] by (intro map_cong refl) (metis nth_list_update_neq)
  moreover have "set order = {j. j < length (ws[i := pc]) \<and> (\<exists>r. ws[i := pc] ! j = W_Done r)}"
    using o(3) i pc(1) by (auto simp: nth_list_update)
  moreover have "\<forall>j < length (ws[i := pc]). ws[i := pc] ! j = W_Taken \<longrightarrow> try_exists files (event_path ext (ev_idempotency_key (es ! j)))"
    using taken i(1) pc(2) by (auto simp: nth_list_update)
  ultimately show ?thesis using o(1,2,4) unfolding publish_inv_def prod.case by blast
qed

lemma publish_inv_finish:
  assumes inv: "publish_inv ext codec es f0 (files, ws)" and i: "i < length ws" "\<forall>r. ws ! i \<noteq> W_Done r"
    and pub: "publish_validated_event ext codec files (es ! i) (sc_to_vec codec (es ! i)) = (files', r)"
  shows "publish_inv ext codec es f0 (files', ws[i := W_Done r])"
proof -
  obtain order rs where o: "bm_ok files" "distinct order" "set order = {i. i < length ws \<and> (\<exists>r. ws ! i = W_Done r)}"
    "publish_all ext codec f0 (map (nth es) order) = (files, rs)" "map (nth ws) order = map W_Done rs"
    and taken: "\<forall>i < length ws. ws ! i = W_Taken \<longrightarrow> try_exists files (event_path ext (ev_idempotency_key (es ! i)))"
    using inv by (auto simp: publish_inv_def)
  note keep = publish_keeps [OF o(1) pub]
  have notin: "i \<notin> set order" using o(3) i(2) by auto
  then have "map (nth (ws[i := W_Done r])) order = map W_Done rs"
    unfolding o(5) [symmetric] by (intro map_cong refl) (metis nth_list_update_neq)
  then have "map (nth (ws[i := W_Done r])) (order @ [i]) = map W_Done (rs @ [r])" using i(1) by simp
  moreover have "set (order @ [i]) = {j. j < length (ws[i := W_Done r]) \<and> (\<exists>r'. ws[i := W_Done r] ! j = W_Done r')}"
    using o(3) i(1) by (auto simp: nth_list_update)
  moreover have "\<forall>j < length (ws[i := W_Done r]). ws[i := W_Done r] ! j = W_Taken \<longrightarrow>
      try_exists files' (event_path ext (ev_idempotency_key (es ! j)))"
    using taken i(1) keep(2) by (auto simp: nth_list_update try_exists_def)
  moreover have "publish_all ext codec f0 (map (nth es) (order @ [i])) = (files', rs @ [r])"
    using o(4) pub by (simp add: publish_all_snoc)
  moreover have "distinct (order @ [i])" using o(2) notin by simp
  ultimately show ?thesis using keep(1) unfolding publish_inv_def prod.case by blast
qed

lemma publish_inv_step:
  assumes "publish_step ext codec es s s'" and "publish_inv ext codec es f0 s"
  shows "publish_inv ext codec es f0 s'"
  using assms
proof (induction rule: publish_step.induct)
  case (link_created i ws files files')
  then have "publish_validated_event ext codec files (es ! i) (sc_to_vec codec (es ! i)) = (files', Inr EW_Created)"
    by (auto simp: hard_link_def publish_free try_exists_def split: if_splits)
  then show ?case using link_created publish_inv_finish by fastforce
next
  case (link_taken i ws files files')
  then have "files' = files" "try_exists files (event_path ext (ev_idempotency_key (es ! i)))"
    by (auto simp: hard_link_def try_exists_def split: if_splits)
  then show ?case using link_taken publish_inv_wait by fastforce
next
  case (read_existing i ws files)
  then have "try_exists files (event_path ext (ev_idempotency_key (es ! i)))" by (simp add: publish_inv_def)
  from publish_inv_finish [OF read_existing(3,1) _ publish_taken [OF this]] show ?case using read_existing(2) by simp
qed (use publish_inv_wait in fastforce)+

lemma publish_reachable:
  assumes "(publish_step ext codec es)\<^sup>*\<^sup>* (f0, replicate (length es) W_Begin) s" and "bm_ok f0"
  shows "publish_inv ext codec es f0 s \<and> length (snd s) = length es"
  using assms(1)
proof (induction rule: rtranclp_induct)
  case base
  show ?case using assms(2) by (auto simp: publish_inv_def intro: exI [of _ "[]"])
next
  case (step s t)
  then have "length (snd t) = length (snd s)" by (auto elim: publish_step.cases)
  then show ?case using step publish_inv_step by metis
qed

fun pc_rest :: "writer_pc \<Rightarrow> nat" where
  "pc_rest W_Begin = 3"
| "pc_rest W_Temp = 2"
| "pc_rest W_Taken = 1"
| "pc_rest (W_Done r) = 0"

lemma pc_rest_update:
  assumes "i < length ws" and "pc_rest pc < pc_rest (ws ! i)"
  shows "sum_list (map pc_rest (ws[i := pc])) < sum_list (map pc_rest ws)"
proof -
  have "sum_list (map pc_rest ws) = sum_list (map pc_rest (take i ws)) + pc_rest (ws ! i) + sum_list (map pc_rest (drop (Suc i) ws))"
    by (subst id_take_nth_drop [OF assms(1)]) simp
  moreover have "sum_list (map pc_rest (ws[i := pc])) = sum_list (map pc_rest (take i ws)) + pc_rest pc + sum_list (map pc_rest (drop (Suc i) ws))"
    using assms(1) by (simp add: upd_conv_take_nth_drop)
  ultimately show ?thesis using assms(2) by simp
qed

lemma publish_step_decreases:
  "publish_step ext codec es s t \<Longrightarrow> sum_list (map pc_rest (snd t)) < sum_list (map pc_rest (snd s))"
  by (induction rule: publish_step.induct) (auto intro!: pc_rest_update)


lemma publish_progress:
  assumes "i < length ws" and "\<forall>r. ws ! i \<noteq> W_Done r"
  shows "\<exists>t. publish_step ext codec es (files, ws) t"
proof (cases "ws ! i")
  case W_Begin
  then show ?thesis
    using look_free [OF assms(1)] look_taken [OF assms(1)] by (cases "try_exists files (event_path ext (ev_idempotency_key (es ! i)))") blast+
next
  case W_Temp
  obtain f o' where "hard_link files (event_path ext (ev_idempotency_key (es ! i))) (sc_to_vec codec (es ! i)) = (f, o')"
    by (cases "hard_link files (event_path ext (ev_idempotency_key (es ! i))) (sc_to_vec codec (es ! i))")
  then show ?thesis using link_created [OF assms(1) W_Temp] link_taken [OF assms(1) W_Temp] by (cases o') blast+
next
  case W_Taken
  then show ?thesis using read_existing [OF assms(1)] by blast
qed (use assms in blast)



lemma publish_runs_end:
  "\<exists>files' ws'. (publish_step ext codec es)\<^sup>*\<^sup>* (files, ws) (files', ws') \<and> (\<nexists>t. publish_step ext codec es (files', ws') t)"
proof (induction "sum_list (map pc_rest ws)" arbitrary: files ws rule: less_induct)
  case less
  show ?case
  proof (cases "\<exists>t. publish_step ext codec es (files, ws) t")
    case True
    then obtain f w where t: "publish_step ext codec es (files, ws) (f, w)" by force
    then have "sum_list (map pc_rest w) < sum_list (map pc_rest ws)" using publish_step_decreases by fastforce
    from less.hyps [OF this, of f] t show ?thesis by (blast intro: converse_rtranclp_into_rtranclp)
  qed blast
qed

section \<open>A write-once map\<close>

abbreviation stem_of :: "externals \<Rightarrow> shore_event \<Rightarrow> string" where
  "stem_of ext e \<equiv> event_filename_stem ext (ev_idempotency_key e)"

text \<open>What serde promises of an event it serialised.\<close>

definition codec_ok :: "store_codec \<Rightarrow> shore_event \<Rightarrow> bool" where
  "codec_ok codec e \<longleftrightarrow> sc_from_slice codec (sc_to_vec codec e) = Inr e \<and>
     sc_probe codec (sc_to_vec codec e) = Inr \<lparr>pb_event_type = type_code (ev_event_type e),
       pb_writer_role = False, pb_writer_tool = False, pb_target_subject = False\<rparr>"

definition storable :: "externals \<Rightarrow> store_codec \<Rightarrow> shore_event \<Rightarrow> bool" where
  "storable ext codec e \<longleftrightarrow> validate_event ext codec e None = Inr () \<and> codec_ok codec e \<and>
     stem_of ext e \<noteq> event_filename_stem ext ROOT_ACTIVATION_LOGICAL_KEY_V1"

text \<open>The directory that holds the events of a map from stems.\<close>

definition directory_of :: "store_codec \<Rightarrow> (string \<times> shore_event) list \<Rightarrow> event_files" where
  "directory_of codec m = map (\<lambda>(stem, e). (stem @ ''.json'', sc_to_vec codec e)) m"

definition first_wins :: "externals \<Rightarrow> store_codec \<Rightarrow> shore_event option \<Rightarrow> shore_event \<Rightarrow> event_write_outcome result" where
  "first_wins ext codec first e =
     (case first of
        None \<Rightarrow> Inr EW_Created
      | Some e0 \<Rightarrow> if ev_idempotency_key e0 \<noteq> ev_idempotency_key e then Inl (filename_idempotency_mismatch (ev_idempotency_key e))
                   else compare_existing ext codec e0 e)"

definition map_ok :: "externals \<Rightarrow> store_codec \<Rightarrow> (string \<times> shore_event) list \<Rightarrow> bool" where
  "map_ok ext codec m \<longleftrightarrow> bm_ok m \<and> (\<forall>(stem, e) \<in> set m. stem = stem_of ext e \<and> storable ext codec e)"

lemma type_code_not_retired: "schema_break_for (type_code ty) = None"
  by (cases ty) (simp_all add: type_code_def REGISTRY_def schema_break_for_def)

lemma decode_storable: "storable ext codec e \<Longrightarrow> decode_validated_event ext codec (sc_to_vec codec e) None = Inr e"
  by (simp add: decode_validated_event_def storable_def codec_ok_def type_code_not_retired)

lemma stem_length: "\<forall>b. length (sha256 ext b) = 32 \<Longrightarrow> length (event_filename_stem ext k) = 64"
  by (simp add: event_filename_stem_def sha256_bytes_hex_def)

lemma directory_insert:
  assumes "\<forall>(stem, e) \<in> set m. length stem = length k"
  shows "bm_insert (k @ ''.json'') (sc_to_vec codec e) (directory_of codec m) = directory_of codec (bm_insert k e m)"
  using assms by (induction m) (auto simp: directory_of_def append_less_iff)

lemma directory_get: "bm_get (directory_of codec m) (k @ ''.json'') = map_option (sc_to_vec codec) (bm_get m k)"
  by (induction m) (auto simp: directory_of_def)

lemma map_ok_get: "map_ok ext codec m \<Longrightarrow> bm_get m k = Some e \<Longrightarrow> k = stem_of ext e \<and> storable ext codec e"
  by (auto simp: map_ok_def dest: map_of_SomeD)

lemma not_activated:
  assumes "map_ok ext codec m"
  shows "\<not> event_exists ext (directory_of codec m) ROOT_ACTIVATION_LOGICAL_KEY_V1"
proof -
  have "bm_get m (event_filename_stem ext ROOT_ACTIVATION_LOGICAL_KEY_V1) = None"
    using map_ok_get [OF assms, of "event_filename_stem ext ROOT_ACTIVATION_LOGICAL_KEY_V1"]
    by (cases "bm_get m (event_filename_stem ext ROOT_ACTIVATION_LOGICAL_KEY_V1)") (auto simp: storable_def)
  then show ?thesis by (simp add: event_exists_def try_exists_def event_path_def directory_get)
qed

lemma record_once_step:
  assumes digest: "\<forall>b. length (sha256 ext b) = 32" and m: "map_ok ext codec m" and e: "storable ext codec e"
  shows "record_event_once ext codec activated (directory_of codec m) e =
    (directory_of codec (if bm_get m (stem_of ext e) = None then bm_insert (stem_of ext e) e m else m),
     first_wins ext codec (bm_get m (stem_of ext e)) e)"
proof -
  have pre: "preflight_current_product ext activated (directory_of codec m) = Inr ()"
    using not_activated [OF m] by (simp add: preflight_current_product_def bounded_writer_capability_status_def)
  have v: "validate_event ext codec e None = Inr ()" using e by (simp add: storable_def)
  have rec: "record_event_once ext codec activated (directory_of codec m) e =
      publish_validated_event ext codec (directory_of codec m) e (sc_to_vec codec e)"
    by (simp add: record_event_once_def pre batch_record_event_once_def v)
  show ?thesis
  proof (cases "bm_get m (stem_of ext e)")
    case None
    then have "\<not> try_exists (directory_of codec m) (event_path ext (ev_idempotency_key e))"
      by (simp add: try_exists_def event_path_def directory_get)
    moreover have "\<forall>(stem, e') \<in> set m. length stem = length (stem_of ext e)"
      using m stem_length [OF digest] by (auto simp: map_ok_def)
    ultimately show ?thesis
      using None unfolding rec by (simp add: publish_free event_path_def directory_insert first_wins_def)
  next
    case (Some e0)
    then have "try_exists (directory_of codec m) (event_path ext (ev_idempotency_key e))"
      by (simp add: try_exists_def event_path_def directory_get)
    moreover have "existing_outcome ext codec (directory_of codec m) e = first_wins ext codec (Some e0) e"
      using decode_storable map_ok_get [OF m Some] Some
      by (simp add: existing_outcome_def read_stored_event_def read_event_bytes_def event_path_def directory_get first_wins_def)
    ultimately show ?thesis
      using Some unfolding rec by (simp add: publish_taken)
  qed
qed

fun record_all ::
  "externals \<Rightarrow> store_codec \<Rightarrow> (event_files \<Rightarrow> store_capability_status result) \<Rightarrow> event_files \<Rightarrow> shore_event list
     \<Rightarrow> event_files \<times> event_write_outcome result list" where
  "record_all ext codec activated files [] = (files, [])"
| "record_all ext codec activated files (e # es) =
     (case record_event_once ext codec activated files e of
        (files', r) \<Rightarrow> (case record_all ext codec activated files' es of (files'', rs) \<Rightarrow> (files'', r # rs)))"

lemma record_all_snoc:
  "record_all ext codec activated f (es @ [e]) =
     (case record_all ext codec activated f es of (f', rs) \<Rightarrow>
        case record_event_once ext codec activated f' e of (f'', r) \<Rightarrow> (f'', rs @ [r]))"
  by (induction es arbitrary: f) (auto split: prod.splits)

lemma record_all_map:
  assumes digest: "\<forall>b. length (sha256 ext b) = 32" and "\<forall>e \<in> set es. storable ext codec e"
  shows "\<exists>m rs. record_all ext codec activated [] es = (directory_of codec m, rs) \<and> map_ok ext codec m \<and>
    (\<forall>k. bm_get m k = List.find (\<lambda>e. stem_of ext e = k) es) \<and> length rs = length es \<and>
    (\<forall>i < length es. rs ! i = first_wins ext codec (List.find (\<lambda>e. stem_of ext e = stem_of ext (es ! i)) (take i es)) (es ! i))"
  using assms(2)
proof (induction es rule: rev_induct)
  case Nil
  show ?case by (intro exI [of _ "[]"]) (simp add: directory_of_def map_ok_def)
next
  case (snoc e es)
  then obtain m rs where m: "record_all ext codec activated [] es = (directory_of codec m, rs)" "map_ok ext codec m"
    "\<forall>k. bm_get m k = List.find (\<lambda>e. stem_of ext e = k) es" "length rs = length es"
    "\<forall>i < length es. rs ! i = first_wins ext codec (List.find (\<lambda>e. stem_of ext e = stem_of ext (es ! i)) (take i es)) (es ! i)"
    by auto
  have e: "storable ext codec e" using snoc.prems by simp
  let ?m = "if bm_get m (stem_of ext e) = None then bm_insert (stem_of ext e) e m else m"
  let ?r = "first_wins ext codec (bm_get m (stem_of ext e)) e"
  have "record_all ext codec activated [] (es @ [e]) = (directory_of codec ?m, rs @ [?r])"
    by (simp add: record_all_snoc m(1) record_once_step [OF digest m(2) e])
  moreover have "map_ok ext codec ?m" using m(2) e set_bm_insert [of "stem_of ext e" e m] by (auto simp: map_ok_def)
  moreover have "bm_get ?m k = List.find (\<lambda>e. stem_of ext e = k) (es @ [e])" for k
    using m(2,3) by (auto simp: find_append bm_get_insert map_ok_def split: option.split)
  moreover have "(rs @ [?r]) ! i = first_wins ext codec
      (List.find (\<lambda>x. stem_of ext x = stem_of ext ((es @ [e]) ! i)) (take i (es @ [e]))) ((es @ [e]) ! i)" if "i < length (es @ [e])" for i
    using that m(3-5) by (cases "i < length es") (auto simp: nth_append)
  moreover have "length (rs @ [?r]) = length (es @ [e])" using m(4) by simp
  ultimately show ?case by blast
qed

lemma list_directory:
  assumes digest: "\<forall>b. length (sha256 ext b) = 32" and m: "map_ok ext codec m"
  shows "list_events ext codec inspect (directory_of codec m) = Inr (map snd m)"
proof -
  have "try_map (decode_validated_entry ext codec) (list_event_entries (directory_of codec m)) = Inr (map snd m)"
    using m
  proof (induction m)
    case (Cons p m)
    obtain k e where p: "p = (k, e)" by (cases p)
    then have k: "k = stem_of ext e" "storable ext codec e" "map_ok ext codec m" using Cons.prems by (auto simp: map_ok_def)
    have "length k = 64" using k(1) stem_length [OF digest] by simp
    then have "list_event_entries (directory_of codec (p # m)) =
        \<lparr>je_key_digest = k, je_bytes = sc_to_vec codec e\<rparr> # list_event_entries (directory_of codec m)"
      by (simp add: list_event_entries_def directory_of_def p is_event_file_def)
    with Cons.IH [OF k(3)] decode_storable [OF k(2)] k(1) show ?case
      by (simp add: p decode_validated_entry_def)
  qed (simp add: list_event_entries_def directory_of_def)
  then show ?thesis
    using not_activated [OF m] by (simp add: list_events_def event_entries_for_current_product_def)
qed

section \<open>A small store\<close>

definition demo_event :: "string \<Rightarrow> shore_event" where
  "demo_event key = removal_event\<lparr>ev_version := EVENT_VERSION, ev_idempotency_key := key,
     ev_event_id := EVENT @ '':sha256:'' @ sha256_bytes_hex plain_externals key,
     ev_payload_hash := sha256_json_prefixed plain_externals JNull\<rparr>"

definition demo_codec :: store_codec where
  "demo_codec = \<lparr>sc_to_vec = ev_idempotency_key, sc_probe = (\<lambda>_. Inr \<lparr>pb_event_type = type_code ArtifactRemoved,
     pb_writer_role = False, pb_writer_tool = False, pb_target_subject = False\<rparr>),
     sc_from_slice = (\<lambda>bytes. Inr (demo_event bytes)), sc_payload = (\<lambda>_. JNull)\<rparr>"

lemma demo_digest: "\<forall>b. length (sha256 plain_externals b) = 32"
  by (simp add: plain_externals_def min_def)

lemma demo_storable:
  assumes "k = a # b" and "a \<noteq> CHR ''s''"
  shows "storable plain_externals demo_codec (demo_event k)"
proof -
  have "sha256 plain_externals k \<noteq> sha256 plain_externals ROOT_ACTIVATION_LOGICAL_KEY_V1"
    using assms by (simp add: plain_externals_def ROOT_ACTIVATION_LOGICAL_KEY_V1_def)
  then have "stem_of plain_externals (demo_event k) \<noteq> event_filename_stem plain_externals ROOT_ACTIVATION_LOGICAL_KEY_V1"
    using hex_lower_inj by (auto simp: event_filename_stem_def sha256_bytes_hex_def demo_event_def)
  then show ?thesis
    by (simp add: storable_def validate_event_def validate_schema_version_def codec_ok_def demo_codec_def demo_event_def
        removal_event_def)
qed

section \<open>Properties\<close>

text \<open>C3. The store is a write-once map from idempotency keys to events: after any sequence of writes of
  valid events to an empty store, listing succeeds and returns exactly the first event
  written under each key, once, in the order of the key digests; each write is answered
  \<open>Created\<close> when its key was free, and otherwise by comparing with the first event under the
  key, never by changing it. Two keys with one digest are told apart, and the second refused.
  Serde reads back what it wrote, a digest has 32 bytes, and no key has the digest of the
  activation record.\<close>

theorem event_store_first_write_wins:
  assumes "\<forall>b. length (sha256 ext b) = 32" and "\<forall>e \<in> set es. storable ext codec e"
  shows "\<exists>files rs m. record_all ext codec activated [] es = (files, rs) \<and>
    list_events ext codec inspect files = Inr (map snd m) \<and> bm_ok m \<and>
    (\<forall>k. bm_get m k = List.find (\<lambda>e. event_filename_stem ext (ev_idempotency_key e) = k) es) \<and>
    (\<forall>i < length es. rs ! i = first_wins ext codec
       (List.find (\<lambda>e. event_filename_stem ext (ev_idempotency_key e) = event_filename_stem ext (ev_idempotency_key (es ! i)))
          (take i es)) (es ! i))"
proof -
  obtain m rs where m: "record_all ext codec activated [] es = (directory_of codec m, rs)" "map_ok ext codec m"
    "\<forall>k. bm_get m k = List.find (\<lambda>e. stem_of ext e = k) es"
    "\<forall>i < length es. rs ! i = first_wins ext codec (List.find (\<lambda>e. stem_of ext e = stem_of ext (es ! i)) (take i es)) (es ! i)"
    using record_all_map [OF assms, of activated] by blast
  moreover have "bm_ok m" using m(2) by (simp add: map_ok_def)
  ultimately show ?thesis using list_directory [OF assms(1) m(2), of inspect] by blast
qed

theorem event_store_first_write_wins_witness:
  "\<exists>files rs (m :: (string \<times> shore_event) list). record_all plain_externals demo_codec (\<lambda>_. Inr MigrationRequired) []
     [demo_event ''k1'', demo_event ''k2'', demo_event ''k1''] = (files, rs) \<and>
     list_events plain_externals demo_codec (\<lambda>_. Inl Json) files = Inr (map snd m) \<and> rs ! 0 = Inr EW_Created"
proof -
  define es where "es = [demo_event ''k1'', demo_event ''k2'', demo_event ''k1'']"
  have "\<forall>e \<in> set es. storable plain_externals demo_codec e"
    by (auto simp: es_def intro: demo_storable)
  from event_store_first_write_wins [OF demo_digest this, of "\<lambda>_. Inr MigrationRequired" "\<lambda>_. Inl Json"]
  obtain files rs and m :: "(string \<times> shore_event) list" where r: "record_all plain_externals demo_codec (\<lambda>_. Inr MigrationRequired) [] es = (files, rs)"
    "list_events plain_externals demo_codec (\<lambda>_. Inl Json) files = Inr (map snd m)"
    "\<forall>i < length es. rs ! i = first_wins plain_externals demo_codec
       (List.find (\<lambda>e. event_filename_stem plain_externals (ev_idempotency_key e) =
          event_filename_stem plain_externals (ev_idempotency_key (es ! i))) (take i es)) (es ! i)"
    by (elim exE conjE) (rule that)
  have "rs ! 0 = first_wins plain_externals demo_codec None (es ! 0)" using r(3) [rule_format, of 0] by (simp add: es_def)
  then have "rs ! 0 = Inr EW_Created" by (simp add: first_wins_def)
  with r(1,2) show ?thesis unfolding es_def by blast
qed

text \<open>C4. Writers that race behave as if they took turns: in every interleaving of the system calls of any
  number of writers, over any directory of event files, a run that cannot continue has every
  writer answered, and there is an order of the writers in which publishing their events one
  after the other gives the same directory and the same answers.\<close>

theorem concurrent_writers_take_turns:
  assumes "bm_ok files0" and "(publish_step ext codec es)\<^sup>*\<^sup>* (files0, replicate (length es) W_Begin) (files, ws)"
    and "\<nexists>t. publish_step ext codec es (files, ws) t"
  shows "\<exists>order rs. distinct order \<and> set order = {..<length es} \<and>
    publish_all ext codec files0 (map (nth es) order) = (files, rs) \<and> map (nth ws) order = map W_Done rs"
proof -
  note inv = publish_reachable [OF assms(2,1)]
  have "\<exists>r. ws ! i = W_Done r" if "i < length ws" for i
    using publish_progress [OF that] assms(3) by blast
  then have "{i. i < length ws \<and> (\<exists>r. ws ! i = W_Done r)} = {..<length es}" using inv by auto
  with inv show ?thesis unfolding publish_inv_def prod.case by metis
qed

theorem concurrent_writers_take_turns_witness:
  "\<exists>files ws order rs. (publish_step plain_externals demo_codec [demo_event ''k1'', demo_event ''k1''])\<^sup>*\<^sup>*
      ([], replicate 2 W_Begin) (files, ws) \<and> distinct order \<and> set order = {..<2} \<and>
      publish_all plain_externals demo_codec [] (map (nth [demo_event ''k1'', demo_event ''k1'']) order) = (files, rs)"
proof -
  let ?es = "[demo_event ''k1'', demo_event ''k1'']"
  obtain files ws where run: "(publish_step plain_externals demo_codec ?es)\<^sup>*\<^sup>* ([], replicate 2 W_Begin) (files, ws)"
    "\<nexists>t. publish_step plain_externals demo_codec ?es (files, ws) t"
    using publish_runs_end [of plain_externals demo_codec ?es "[]" "replicate 2 W_Begin"] by blast
  then have "(publish_step plain_externals demo_codec ?es)\<^sup>*\<^sup>* ([], replicate (length ?es) W_Begin) (files, ws)"
    by (simp add: numeral_2_eq_2)
  from concurrent_writers_take_turns [OF _ this run(2)] run(1) show ?thesis by (auto simp: numeral_2_eq_2)
qed



end
