(* ===== verification/Std_Text.thy ===== *)
theory Std_Text
  imports Canonical_Json
begin

text \<open>
  What the text-handling code uses of the Rust standard library, on strings as lists of UTF-8 bytes:
  UTF-8 validation (\<open>str::from_utf8\<close>, \<open>String::from_utf8_lossy\<close>), lines, splitting, trimming and the
  parsing of unsigned integers, with the texts of their errors.
\<close>

section \<open>UTF-8\<close>

definition byte :: "char \<Rightarrow> int" where
  "byte c = of_char c"

definition continuation :: "char \<Rightarrow> bool" where
  "continuation c \<longleftrightarrow> 128 \<le> byte c \<and> byte c \<le> 191"

text \<open>The length of the character at the head of a byte string, or the length of the invalid sequence
  there: \<open>None\<close> when the string ends within a character.\<close>

definition utf8_step :: "string \<Rightarrow> nat option + nat" where
  "utf8_step s =
     (case s of
        [] \<Rightarrow> Inl None
      | c # cs \<Rightarrow>
          let b = byte c in
          if b < 128 then Inr 1
          else if 194 \<le> b \<and> b \<le> 223 then
            (case cs of
               [] \<Rightarrow> Inl None
             | d # _ \<Rightarrow> if continuation d then Inr 2 else Inl (Some 1))
          else if 224 \<le> b \<and> b \<le> 239 then
            (case cs of
               [] \<Rightarrow> Inl None
             | d # ds \<Rightarrow>
                 if \<not> continuation d \<or> b = 224 \<and> byte d < 160 \<or> b = 237 \<and> 159 < byte d then Inl (Some 1)
                 else (case ds of
                         [] \<Rightarrow> Inl None
                       | e # _ \<Rightarrow> if continuation e then Inr 3 else Inl (Some 2)))
          else if 240 \<le> b \<and> b \<le> 244 then
            (case cs of
               [] \<Rightarrow> Inl None
             | d # ds \<Rightarrow>
                 if \<not> continuation d \<or> b = 240 \<and> byte d < 144 \<or> b = 244 \<and> 143 < byte d then Inl (Some 1)
                 else (case ds of
                         [] \<Rightarrow> Inl None
                       | e # es \<Rightarrow>
                           if \<not> continuation e then Inl (Some 2)
                           else (case es of
                                   [] \<Rightarrow> Inl None
                                 | f # _ \<Rightarrow> if continuation f then Inr 4 else Inl (Some 3))))
          else Inl (Some 1))"

lemma utf8_step_pos: "utf8_step s = Inr n \<Longrightarrow> 0 < n" "utf8_step s = Inl (Some n) \<Longrightarrow> 0 < n"
  by (auto simp: utf8_step_def Let_def split: list.splits if_splits)

text \<open>The error of \<open>from_utf8\<close>: how many bytes are valid, and the length of the sequence after them.\<close>

function from_utf8_at :: "nat \<Rightarrow> string \<Rightarrow> (nat \<times> nat option) option" where
  "from_utf8_at i s =
     (if s = [] then None
      else case utf8_step s of
             Inl e \<Rightarrow> Some (i, e)
           | Inr n \<Rightarrow> from_utf8_at (i + n) (drop n s))"
  by pat_completeness auto
termination
  by (relation "measure (\<lambda>(i, s). length s)") (auto dest: utf8_step_pos)

declare from_utf8_at.simps [simp del]

definition utf8_error_text :: "nat \<times> nat option \<Rightarrow> string" where
  "utf8_error_text e =
     (case e of
        (i, Some n) \<Rightarrow> ''invalid utf-8 sequence of '' @ dec_digits n @ '' bytes from index '' @ dec_digits i
      | (i, None) \<Rightarrow> ''incomplete utf-8 byte sequence from index '' @ dec_digits i)"

definition from_utf8 :: "string \<Rightarrow> string + string" where
  "from_utf8 s = (case from_utf8_at 0 s of None \<Rightarrow> Inr s | Some e \<Rightarrow> Inl (utf8_error_text e))"

definition REPLACEMENT_CHARACTER :: string where
  "REPLACEMENT_CHARACTER = [CHR 0xEF, CHR 0xBF, CHR 0xBD]"

function from_utf8_lossy :: "string \<Rightarrow> string" where
  "from_utf8_lossy s =
     (if s = [] then []
      else case utf8_step s of
             Inr n \<Rightarrow> take n s @ from_utf8_lossy (drop n s)
           | Inl (Some n) \<Rightarrow> REPLACEMENT_CHARACTER @ from_utf8_lossy (drop n s)
           | Inl None \<Rightarrow> REPLACEMENT_CHARACTER)"
  by pat_completeness auto
termination
  by (relation "measure length") (auto dest: utf8_step_pos)

declare from_utf8_lossy.simps [simp del]

text \<open>\<open>s.is_char_boundary(1)\<close>, for a string that is not empty: slicing \<open>s[1..]\<close> panics without it.\<close>

definition is_char_boundary_1 :: "string \<Rightarrow> bool" where
  "is_char_boundary_1 s \<longleftrightarrow> length s = 1 \<or> \<not> continuation (s ! 1)"

section \<open>Splitting and trimming\<close>

definition starts_with :: "string \<Rightarrow> string \<Rightarrow> bool" where
  "starts_with prefix s \<longleftrightarrow> strip_prefix prefix s \<noteq> None"

definition strip_cr :: "string \<Rightarrow> string" where
  "strip_cr line = (if line \<noteq> [] \<and> last line = CHR 0x0D then butlast line else line)"

text \<open>\<open>str::lines\<close>: a line ends with a newline, or with a carriage return and a newline.\<close>

fun lines_from :: "string \<Rightarrow> string \<Rightarrow> string list" where
  "lines_from line [] = (if line = [] then [] else [line])"
| "lines_from line (c # cs) =
     (if c = CHR 0x0A then strip_cr line # lines_from [] cs else lines_from (line @ [c]) cs)"

definition str_lines :: "string \<Rightarrow> string list" where
  "str_lines s = lines_from [] s"

text \<open>\<open>split(|byte| *byte == 0)\<close>.\<close>

fun split_nul :: "string \<Rightarrow> string \<Rightarrow> string list" where
  "split_nul field [] = [field]"
| "split_nul field (c # cs) =
     (if c = CHR 0x00 then field # split_nul [] cs else split_nul (field @ [c]) cs)"

text \<open>The length of the whitespace character (\<open>char::is_whitespace\<close>) at the head, 0 if there is none.\<close>

definition whitespace_len :: "string \<Rightarrow> nat" where
  "whitespace_len s =
     (case map byte s of
        [] \<Rightarrow> 0
      | b # bs \<Rightarrow>
          if 9 \<le> b \<and> b \<le> 13 \<or> b = 32 then 1
          else if b = 194 \<and> take 1 bs \<in> {[133], [160]} then 2
          else if b = 225 \<and> take 2 bs = [154, 128] then 3
          else if b = 226 \<and> (take 2 bs \<in> {[128, 168], [128, 169], [128, 175], [129, 159]} \<or>
                 (case bs of x # y # _ \<Rightarrow> x = 128 \<and> 128 \<le> y \<and> y \<le> 138 | _ \<Rightarrow> False)) then 3
          else if b = 227 \<and> take 2 bs = [128, 128] then 3
          else 0)"

function split_whitespace_from :: "string \<Rightarrow> string \<Rightarrow> string list" where
  "split_whitespace_from part [] = (if part = [] then [] else [part])"
| "split_whitespace_from part (c # cs) =
     (let n = whitespace_len (c # cs) in
      if n = 0 then split_whitespace_from (part @ [c]) cs
      else (if part = [] then [] else [part]) @ split_whitespace_from [] (drop (n - 1) cs))"
  by pat_completeness auto
termination
  by (relation "measure (\<lambda>(p, s). length s)") auto

definition split_whitespace :: "string \<Rightarrow> string list" where
  "split_whitespace s = split_whitespace_from [] s"

text \<open>\<open>str::split_once\<close>: at the first occurrence.\<close>

fun split_once :: "string \<Rightarrow> string \<Rightarrow> (string \<times> string) option" where
  "split_once delimiter s =
     (case strip_prefix delimiter s of
        Some rest \<Rightarrow> Some ([], rest)
      | None \<Rightarrow>
          (case s of
             [] \<Rightarrow> None
           | c # cs \<Rightarrow> map_option (\<lambda>(before, rest). (c # before, rest)) (split_once delimiter cs)))"

declare split_once.simps [simp del]

definition trim_end_matches :: "char \<Rightarrow> string \<Rightarrow> string" where
  "trim_end_matches c s = rev (dropWhile ((=) c) (rev s))"

definition trim_start_matches :: "char \<Rightarrow> string \<Rightarrow> string" where
  "trim_start_matches c s = dropWhile ((=) c) s"

section \<open>Unsigned integers\<close>

text \<open>\<open>from_str\<close> of an unsigned type with the given maximum.\<close>

fun parse_digits :: "int \<Rightarrow> int \<Rightarrow> string \<Rightarrow> string + int" where
  "parse_digits max_value result [] = Inr result"
| "parse_digits max_value result (c # cs) =
     (if \<not> is_ascii_digit c then Inl ''invalid digit found in string''
      else if 10 * result + (byte c - 48) > max_value then Inl ''number too large to fit in target type''
      else parse_digits max_value (10 * result + (byte c - 48)) cs)"

definition parse_uint :: "int \<Rightarrow> string \<Rightarrow> string + int" where
  "parse_uint max_value s =
     (if s = [] then Inl ''cannot parse integer from empty string''
      else if s = ''+'' \<or> s = ''-'' then Inl ''invalid digit found in string''
      else parse_digits max_value 0 (if hd s = CHR ''+'' then tl s else s))"

section \<open>Facts\<close>

abbreviation valid_utf8 :: "string \<Rightarrow> bool" where
  "valid_utf8 s \<equiv> from_utf8_at 0 s = None"

lemma utf8_step_append: "utf8_step s = Inr n \<Longrightarrow> utf8_step (s @ t) = Inr n \<and> n \<le> length s"
  unfolding utf8_step_def Let_def by (auto split: list.split_asm if_split_asm)

lemma from_utf8_at_index: "from_utf8_at i s = None \<longleftrightarrow> from_utf8_at j s = None"
proof (induction i s arbitrary: j rule: from_utf8_at.induct)
  case (1 i s)
  show ?case
  proof (cases "s \<noteq> [] \<and> (\<exists>n. utf8_step s = Inr n)")
    case True
    then obtain n where n: "s \<noteq> []" "utf8_step s = Inr n" by blast
    then show ?thesis
      using 1 [OF n, of "j + n"] by (simp only: from_utf8_at.simps [of _ s] if_False sum.case simp_thms)
  next
    case False
    then show ?thesis by (auto simp: from_utf8_at.simps [of _ s] split: sum.splits)
  qed
qed

lemma valid_utf8_rec:
  "valid_utf8 s \<longleftrightarrow> s = [] \<or> (\<exists>n. utf8_step s = Inr n \<and> valid_utf8 (drop n s))"
proof (cases "s = []")
  case False
  show ?thesis
  proof (cases "utf8_step s")
    case (Inr n)
    moreover have "from_utf8_at n (drop n s) = None \<longleftrightarrow> valid_utf8 (drop n s)" by (rule from_utf8_at_index)
    ultimately show ?thesis using False by (simp add: from_utf8_at.simps [of 0 s])
  qed (use False in \<open>simp add: from_utf8_at.simps [of 0 s]\<close>)
qed (simp add: from_utf8_at.simps)

lemma valid_utf8_Nil [simp]: "valid_utf8 []"
  by (simp add: from_utf8_at.simps [of 0 "[]"])

lemma valid_utf8_append: "valid_utf8 a \<Longrightarrow> valid_utf8 b \<Longrightarrow> valid_utf8 (a @ b)"
proof (induction a rule: length_induct)
  case (1 a)
  show ?case
  proof (cases "a = []")
    case False
    then obtain n where n: "utf8_step a = Inr n" "valid_utf8 (drop n a)"
      using 1 valid_utf8_rec [of a] by auto
    have "0 < n" "n \<le> length a" using n utf8_step_pos utf8_step_append by blast+
    then have "valid_utf8 (drop n a @ b)" using 1 n False by auto
    then show ?thesis
      using n utf8_step_append [OF n(1), of b] \<open>n \<le> length a\<close> by (subst valid_utf8_rec) auto
  qed (use 1 in simp)
qed

lemma valid_utf8_concat: "(\<And>s. s \<in> set ss \<Longrightarrow> valid_utf8 s) \<Longrightarrow> valid_utf8 (concat ss)"
  by (induction ss) (auto intro: valid_utf8_append)

definition ascii :: "string \<Rightarrow> bool" where
  "ascii s \<longleftrightarrow> list_all (\<lambda>c. byte c < 128) s"

lemma ascii_simps [simp]:
  "ascii []"
  "ascii (c # s) \<longleftrightarrow> byte c < 128 \<and> ascii s"
  "ascii (s @ t) \<longleftrightarrow> ascii s \<and> ascii t"
  by (simp_all add: ascii_def)

lemma ascii_valid_utf8: "ascii s \<Longrightarrow> valid_utf8 s"
proof (induction s)
  case (Cons c s)
  then show ?case by (subst valid_utf8_rec) (simp add: utf8_step_def)
qed simp

lemma from_utf8_valid: "valid_utf8 s \<Longrightarrow> from_utf8 s = Inr s"
  by (simp add: from_utf8_def)

lemma from_utf8_lossy_valid: "valid_utf8 s \<Longrightarrow> from_utf8_lossy s = s"
proof (induction s rule: from_utf8_lossy.induct)
  case (1 s)
  then show ?case
    using valid_utf8_rec [of s] by (cases "s = []") (auto simp: from_utf8_lossy.simps [of s] from_utf8_lossy.simps [of "[]"])
qed

lemma valid_utf8_head: "valid_utf8 (c # s) \<Longrightarrow> \<not> continuation c"
  using valid_utf8_rec [of "c # s"]
  by (auto simp: utf8_step_def continuation_def Let_def split: list.splits if_splits)

text \<open>Lines.\<close>

definition is_line :: "string \<Rightarrow> bool" where
  "is_line line \<longleftrightarrow> CHR 0x0A \<notin> set line \<and> strip_cr line = line"

definition unlines :: "string list \<Rightarrow> string" where
  "unlines ls = concat (map (\<lambda>l. l @ [CHR 0x0A]) ls)"

lemma lines_from_line:
  "CHR 0x0A \<notin> set l \<Longrightarrow> lines_from p (l @ CHR 0x0A # s) = strip_cr (p @ l) # lines_from [] s"
  by (induction l arbitrary: p) auto

lemma str_lines_unlines: "list_all is_line ls \<Longrightarrow> str_lines (unlines ls) = ls"
  by (induction ls) (auto simp: str_lines_def unlines_def is_line_def lines_from_line)

lemma strip_cr_eq: "strip_cr l = l \<longleftrightarrow> l = [] \<or> last l \<noteq> CHR 0x0D"
proof (cases l rule: rev_cases)
  case (snoc k c)
  then show ?thesis by (simp add: strip_cr_def)
qed (simp add: strip_cr_def)

lemma split_nul_field:
  "CHR 0x00 \<notin> set l \<Longrightarrow> split_nul p (l @ CHR 0x00 # s) = (p @ l) # split_nul [] s"
  by (induction l arbitrary: p) auto

text \<open>Words of visible ASCII characters, separated by spaces.\<close>

definition visible :: "string \<Rightarrow> bool" where
  "visible s \<longleftrightarrow> list_all (\<lambda>c. 33 \<le> byte c \<and> byte c \<le> 126) s"

lemma visible_simps [simp]:
  "visible []"
  "visible (c # s) \<longleftrightarrow> 33 \<le> byte c \<and> byte c \<le> 126 \<and> visible s"
  "visible (s @ t) \<longleftrightarrow> visible s \<and> visible t"
  by (auto simp: visible_def)

lemma visible_ascii: "visible s \<Longrightarrow> ascii s"
  by (auto simp: visible_def ascii_def list_all_iff)

lemma visible_not_in: "visible s \<Longrightarrow> byte c < 33 \<Longrightarrow> c \<notin> set s"
  by (auto simp: visible_def list_all_iff)

lemma split_whitespace_visible:
  "visible w \<Longrightarrow> split_whitespace_from p (w @ s) = split_whitespace_from (p @ w) s"
proof (induction w arbitrary: p)
  case (Cons c w)
  then have "whitespace_len (c # w @ s) = 0" by (simp add: whitespace_len_def)
  with Cons show ?case by simp
qed simp

lemma split_whitespace_space:
  "split_whitespace_from p (CHR '' '' # s) = (if p = [] then [] else [p]) @ split_whitespace_from [] s"
  by (simp add: whitespace_len_def byte_def)

lemma byte_int: "byte c = int (of_char c)"
  unfolding byte_def by (rule of_nat_of_char [symmetric])

lemma byte_dec_digits: "c \<in> set (dec_digits n) \<Longrightarrow> 48 \<le> byte c \<and> byte c \<le> 57"
  using dec_digits_range [of c n] by (simp add: byte_int)

lemma visible_dec_digits [simp]: "visible (dec_digits n)"
  using byte_dec_digits by (fastforce simp: visible_def list_all_iff)

lemma dec_digits_not_Nil [simp]: "dec_digits n \<noteq> []"
  by (subst dec_digits.simps) simp

text \<open>Numbers.\<close>

lemma is_ascii_digit_byte: "is_ascii_digit c \<longleftrightarrow> 48 \<le> byte c \<and> byte c \<le> 57"
  by (simp add: is_ascii_digit_def less_eq_char_def byte_int)

lemma parse_digits_append:
  "parse_digits m r (s @ t) = (case parse_digits m r s of Inl e \<Rightarrow> Inl e | Inr v \<Rightarrow> parse_digits m v t)"
  by (induction s arbitrary: r) auto

lemma parse_digits_dec: "int n \<le> m \<Longrightarrow> parse_digits m 0 (dec_digits n) = Inr (int n)"
proof (induction n rule: dec_digits.induct)
  case (1 n)
  have b: "byte (dec_digit k) = 48 + int k" if "k < 10" for k
    using of_char_dec_digit [OF that] by (simp add: byte_int)
  show ?case
  proof (cases "n < 10")
    case True
    with 1 show ?thesis by (subst dec_digits.simps) (simp add: b is_ascii_digit_byte)
  next
    case False
    have "int (n div 10) \<le> m" using 1(2) by (meson div_le_dividend of_nat_le_iff order_trans)
    with 1(1) False have "parse_digits m 0 (dec_digits (n div 10)) = Inr (int (n div 10))" by simp
    moreover have "10 * int (n div 10) + int (n mod 10) = int n" by presburger
    ultimately show ?thesis
      using False 1(2) b [of "n mod 10"] by (subst dec_digits.simps) (simp add: parse_digits_append is_ascii_digit_byte)
  qed
qed

lemma parse_uint_dec: "int n \<le> m \<Longrightarrow> parse_uint m (dec_digits n) = Inr (int n)"
proof -
  assume n: "int n \<le> m"
  have "byte (hd (dec_digits n)) \<ge> 48" using byte_dec_digits [of "hd (dec_digits n)" n] by simp
  then have "hd (dec_digits n) \<noteq> CHR ''+''" "hd (dec_digits n) \<noteq> CHR ''-''" by (auto simp: byte_def)
  then show ?thesis using parse_digits_dec [OF n] by (auto simp: parse_uint_def)
qed

lemma split_once_hit: "(\<forall>c \<in> set a. c \<noteq> d) \<Longrightarrow> split_once (d # ds) (a @ d # ds @ b) = Some (a, b)"
proof (induction a)
  case Nil
  have "strip_prefix (d # ds) (d # ds @ b) = Some b" using strip_prefix_append [of "d # ds" b] by simp
  then show ?case by (subst split_once.simps) simp
next
  case (Cons c a)
  then have "strip_prefix (d # ds) (c # a @ d # ds @ b) = None" by (simp add: strip_prefix_def)
  with Cons show ?case by (subst split_once.simps) simp
qed

lemma split_once_miss: "(\<forall>c \<in> set a. c \<noteq> d) \<Longrightarrow> split_once (d # ds) a = None"
proof (induction a)
  case (Cons c a)
  then have "strip_prefix (d # ds) (c # a) = None" by (simp add: strip_prefix_def)
  with Cons show ?case by (subst split_once.simps) simp
qed (simp add: split_once.simps [of _ "[]"] strip_prefix_def)

end
