(* ===== verification/Git_Diff.thy ===== *)
theory Git_Diff
  imports Std_Text "HOL-Library.Word"
begin

text \<open>
  Reading a diff from git: the patch parser (\<open>src/src/git/patch.rs\<close>), the parser of the raw listing
  (\<open>src/src/git/raw.rs\<close>) and their combination into the files of a snapshot
  (\<open>src/src/git/ingest.rs\<close>, \<open>src/src/model/file.rs\<close>, \<open>hunk.rs\<close>, \<open>row.rs\<close>). The output of the two git
  commands is an argument. A panic is the value \<open>None\<close>; line numbers are 32-bit words and wrap, as
  in a release build.
\<close>

section \<open>Data\<close>

datatype file_status = FS_Modified | FS_Added | FS_Deleted | FS_Renamed | FS_Copied

datatype diff_row_kind = Row_Context | Row_Added | Row_Removed

record diff_row =
  dr_kind :: diff_row_kind
  dr_old_line :: "32 word option"
  dr_new_line :: "32 word option"
  dr_text :: string

record review_hunk =
  rh_id :: string
  rh_header :: string
  rh_old_start :: "32 word"
  rh_old_lines :: "32 word"
  rh_new_start :: "32 word"
  rh_new_lines :: "32 word"
  rh_rows :: "diff_row list"

datatype file_metadata_kind = FM_BinarySummary | FM_ModeChange | FM_RenameSummary | FM_SubmoduleSummary

record file_metadata_row =
  fm_kind :: file_metadata_kind
  fm_text :: string

record diff_file =
  df_id :: string
  df_status :: file_status
  df_old_path :: "string option"
  df_new_path :: "string option"
  df_old_mode :: "string option"
  df_new_mode :: "string option"
  df_old_oid :: "string option"
  df_new_oid :: "string option"
  df_similarity :: "16 word option"
  df_is_binary :: bool
  df_is_submodule :: bool
  df_is_mode_only :: bool
  df_synthetic :: bool
  df_metadata_rows :: "file_metadata_row list"
  df_hunks :: "review_hunk list"

record patch_file =
  pf_old_path :: "string option"
  pf_new_path :: "string option"
  pf_old_mode :: "string option"
  pf_new_mode :: "string option"
  pf_similarity :: "16 word option"
  pf_is_binary :: bool
  pf_hunks :: "review_hunk list"

record raw_file =
  rf_status :: file_status
  rf_type_change :: bool
  rf_old_mode :: "string option"
  rf_new_mode :: "string option"
  rf_old_oid :: "string option"
  rf_new_oid :: "string option"
  rf_similarity :: "16 word option"
  rf_old_path :: "string option"
  rf_new_path :: "string option"

text \<open>\<open>Option::or\<close>, and \<open>format!\<close> of a word.\<close>

definition option_or :: "'a option \<Rightarrow> 'a option \<Rightarrow> 'a option" where
  "option_or a b = (case a of Some x \<Rightarrow> Some x | None \<Rightarrow> b)"

definition word_text :: "'a::len word \<Rightarrow> string" where
  "word_text w = dec_digits (unat w)"

section \<open>The patch parser\<close>

text \<open>\<open>PatchFile::key\<close>; \<open>None\<close> is the failing \<open>expect\<close>.\<close>

definition patch_key :: "patch_file \<Rightarrow> string option" where
  "patch_key file = option_or (pf_new_path file) (pf_old_path file)"

definition parse_patch_path :: "string \<Rightarrow> string option" where
  "parse_patch_path path =
     (if path = ''/dev/null'' then None
      else option_or (option_or (strip_prefix ''a/'' path) (strip_prefix ''b/'' path)) (Some path))"

definition diff_git_path :: "string \<Rightarrow> char \<Rightarrow> string option" where
  "diff_git_path line prefix =
     (if prefix = CHR ''a'' then
        (case strip_prefix ''diff --git a/'' line of
           None \<Rightarrow> None
         | Some tail \<Rightarrow> map_option fst (split_once '' b/'' tail))
      else if prefix = CHR ''b'' then map_option snd (split_once '' b/'' line)
      else None)"

definition parse_range :: "string \<Rightarrow> char \<Rightarrow> (32 word \<times> 32 word) result" where
  "parse_range part prefix =
     (case strip_prefix [prefix] part of
        None \<Rightarrow> Inl (Message (''range '' @ part @ '' missing prefix '' @ [prefix]))
      | Some tail \<Rightarrow>
          (let (start, lines) = (case split_once '','' tail of Some (s, l) \<Rightarrow> (s, l) | None \<Rightarrow> (tail, ''1''))
           in case parse_uint 4294967295 start of
                Inl error \<Rightarrow> Inl (Message (''invalid range start '' @ start @ '': '' @ error))
              | Inr s \<Rightarrow>
                  (case parse_uint 4294967295 lines of
                     Inl error \<Rightarrow> Inl (Message (''invalid range length '' @ lines @ '': '' @ error))
                   | Inr l \<Rightarrow> Inr (of_int s, of_int l))))"

definition parse_hunk_header :: "string \<Rightarrow> (32 word \<times> 32 word \<times> 32 word \<times> 32 word) result" where
  "parse_hunk_header header =
     (let parts = split_whitespace header in
      if length parts < 2 then Inl (Message (''missing old range in hunk header '' @ header))
      else if length parts < 3 then Inl (Message (''missing new range in hunk header '' @ header))
      else
        and_then (parse_range (parts ! 1) CHR ''-'') (\<lambda>(old_start, old_lines).
        and_then (parse_range (parts ! 2) CHR ''+'') (\<lambda>(new_start, new_lines).
          Inr (old_start, old_lines, new_start, new_lines))))"

text \<open>The variables of \<open>parse_patch\<close>.\<close>

record patch_state =
  ps_files :: "patch_file list"
  ps_current_file :: "patch_file option"
  ps_current_hunk :: "review_hunk option"
  ps_old_line :: "32 word"
  ps_new_line :: "32 word"

definition finish_hunk :: "patch_state \<Rightarrow> patch_state" where
  "finish_hunk st =
     (case (ps_current_file st, ps_current_hunk st) of
        (Some file, Some hunk) \<Rightarrow>
          st\<lparr>ps_current_file := Some (file\<lparr>pf_hunks := pf_hunks file @ [hunk]\<rparr>), ps_current_hunk := None\<rparr>
      | _ \<Rightarrow> st\<lparr>ps_current_hunk := None\<rparr>)"

definition take_file :: "patch_state \<Rightarrow> patch_state" where
  "take_file st =
     (case ps_current_file st of
        None \<Rightarrow> st
      | Some file \<Rightarrow> st\<lparr>ps_files := ps_files st @ [file], ps_current_file := None\<rparr>)"

text \<open>The branch for \<open>diff --git\<close>.\<close>

definition start_file :: "patch_state \<Rightarrow> string \<Rightarrow> patch_state" where
  "start_file st line =
     (take_file (finish_hunk st))\<lparr>ps_current_file :=
        Some \<lparr>pf_old_path = diff_git_path line CHR ''a'', pf_new_path = diff_git_path line CHR ''b'',
              pf_old_mode = None, pf_new_mode = None, pf_similarity = None, pf_is_binary = False, pf_hunks = []\<rparr>\<rparr>"

text \<open>The branches that update the current file; \<open>None\<close> when the line is none of these.\<close>

definition read_similarity :: "patch_file \<Rightarrow> string \<Rightarrow> patch_file result" where
  "read_similarity file index =
     (case parse_uint 65535 (trim_end_matches CHR ''%'' index) of
        Inl error \<Rightarrow> Inl (Message (''invalid similarity index '' @ index @ '': '' @ error))
      | Inr similarity \<Rightarrow> Inr (file\<lparr>pf_similarity := Some (of_int similarity)\<rparr>))"

definition file_line :: "patch_file \<Rightarrow> string \<Rightarrow> patch_file result option" where
  "file_line file line =
     option_or (map_option (\<lambda>path. Inr (file\<lparr>pf_old_path := parse_patch_path path\<rparr>)) (strip_prefix ''--- '' line))
     (option_or (map_option (\<lambda>path. Inr (file\<lparr>pf_new_path := parse_patch_path path\<rparr>)) (strip_prefix ''+++ '' line))
     (option_or (map_option (\<lambda>mode. Inr (file\<lparr>pf_old_mode := Some mode\<rparr>)) (strip_prefix ''old mode '' line))
     (option_or (map_option (\<lambda>mode. Inr (file\<lparr>pf_new_mode := Some mode\<rparr>)) (strip_prefix ''new mode '' line))
     (option_or (map_option (\<lambda>mode. Inr (file\<lparr>pf_new_mode := Some mode\<rparr>)) (strip_prefix ''new file mode '' line))
     (option_or (map_option (\<lambda>mode. Inr (file\<lparr>pf_old_mode := Some mode\<rparr>)) (strip_prefix ''deleted file mode '' line))
     (option_or (map_option (read_similarity file) (strip_prefix ''similarity index '' line))
     (option_or (map_option (\<lambda>path. Inr (file\<lparr>pf_old_path := Some path\<rparr>)) (strip_prefix ''rename from '' line))
     (option_or (map_option (\<lambda>path. Inr (file\<lparr>pf_new_path := Some path\<rparr>)) (strip_prefix ''rename to '' line))
     (if starts_with ''Binary files '' line \<or> line = ''GIT binary patch'' then Some (Inr (file\<lparr>pf_is_binary := True\<rparr>))
      else None)))))))))"

text \<open>The branch for a hunk header.\<close>

definition start_hunk :: "patch_state \<Rightarrow> patch_file \<Rightarrow> string \<Rightarrow> patch_state result option" where
  "start_hunk st file line =
     (case patch_key file of
        None \<Rightarrow> None
      | Some file_key \<Rightarrow>
          Some (and_then (parse_hunk_header line) (\<lambda>(old_start, old_lines, new_start, new_lines).
            Inr ((finish_hunk st)\<lparr>ps_old_line := old_start, ps_new_line := new_start,
                  ps_current_hunk := Some \<lparr>rh_id = file_key @ '':'' @ word_text old_start @ '':'' @ word_text new_start,
                    rh_header = line, rh_old_start = old_start, rh_old_lines = old_lines,
                    rh_new_start = new_start, rh_new_lines = new_lines, rh_rows = []\<rparr>\<rparr>))))"

definition push_row :: "review_hunk \<Rightarrow> diff_row \<Rightarrow> review_hunk" where
  "push_row hunk row = hunk\<lparr>rh_rows := rh_rows hunk @ [row]\<rparr>"

text \<open>The rows of a hunk.\<close>

definition row_line :: "patch_state \<Rightarrow> string \<Rightarrow> patch_state result option" where
  "row_line st line =
     (case (ps_current_hunk st, line) of
        (None, _) \<Rightarrow> Some (Inr st)
      | (Some hunk, []) \<Rightarrow> Some (Inr st)
      | (Some hunk, marker # text) \<Rightarrow>
          (let old_line = ps_old_line st; new_line = ps_new_line st in
           if marker = CHR 0x5C then Some (Inr st)
           else if \<not> is_char_boundary_1 line then None
           else if marker = CHR '' '' then
             Some (Inr (st\<lparr>ps_current_hunk := Some (push_row hunk
                 \<lparr>dr_kind = Row_Context, dr_old_line = Some old_line, dr_new_line = Some new_line, dr_text = text\<rparr>),
               ps_old_line := old_line + 1, ps_new_line := new_line + 1\<rparr>))
           else if marker = CHR ''+'' then
             Some (Inr (st\<lparr>ps_current_hunk := Some (push_row hunk
                 \<lparr>dr_kind = Row_Added, dr_old_line = None, dr_new_line = Some new_line, dr_text = text\<rparr>),
               ps_new_line := new_line + 1\<rparr>))
           else if marker = CHR ''-'' then
             Some (Inr (st\<lparr>ps_current_hunk := Some (push_row hunk
                 \<lparr>dr_kind = Row_Removed, dr_old_line = Some old_line, dr_new_line = None, dr_text = text\<rparr>),
               ps_old_line := old_line + 1\<rparr>))
           else Some (Inr st)))"

definition patch_line :: "patch_state \<Rightarrow> string \<Rightarrow> patch_state result option" where
  "patch_line st line =
     (if starts_with ''diff --git '' line then Some (Inr (start_file st line))
      else case ps_current_file st of
             None \<Rightarrow> Some (Inr st)
           | Some file \<Rightarrow>
               (case file_line file line of
                  Some (Inl error) \<Rightarrow> Some (Inl error)
                | Some (Inr file') \<Rightarrow> Some (Inr (st\<lparr>ps_current_file := Some file'\<rparr>))
                | None \<Rightarrow> if starts_with ''@@ '' line then start_hunk st file line else row_line st line))"

fun patch_lines :: "patch_state \<Rightarrow> string list \<Rightarrow> patch_state result option" where
  "patch_lines st [] = Some (Inr st)"
| "patch_lines st (line # rest) =
     (case patch_line st line of
        None \<Rightarrow> None
      | Some (Inl error) \<Rightarrow> Some (Inl error)
      | Some (Inr st') \<Rightarrow> patch_lines st' rest)"

definition patch_start :: patch_state where
  "patch_start =
     \<lparr>ps_files = [], ps_current_file = None, ps_current_hunk = None, ps_old_line = 0, ps_new_line = 0\<rparr>"

definition parse_patch :: "string \<Rightarrow> patch_file list result option" where
  "parse_patch patch =
     (case patch_lines patch_start (str_lines patch) of
        None \<Rightarrow> None
      | Some (Inl error) \<Rightarrow> Some (Inl error)
      | Some (Inr st) \<Rightarrow> Some (Inr (ps_files (take_file (finish_hunk st)))))"

section \<open>The raw listing\<close>

text \<open>\<open>RawFile::key\<close>; \<open>None\<close> is the failing \<open>expect\<close>.\<close>

definition raw_key :: "raw_file \<Rightarrow> string option" where
  "raw_key file = option_or (rf_new_path file) (rf_old_path file)"

definition raw_is_submodule :: "raw_file \<Rightarrow> bool" where
  "raw_is_submodule file \<longleftrightarrow> rf_old_mode file = Some ''160000'' \<or> rf_new_mode file = Some ''160000''"

definition has_mode_change :: "raw_file \<Rightarrow> bool" where
  "has_mode_change file \<longleftrightarrow>
     rf_status file = FS_Modified \<and> rf_old_mode file \<noteq> rf_new_mode file \<and> \<not> raw_is_submodule file"

record raw_header =
  hd_old_mode :: string
  hd_new_mode :: string
  hd_old_oid :: string
  hd_new_oid :: string
  hd_status :: file_status
  hd_type_change :: bool
  hd_similarity :: "16 word option"

definition raw_status :: "string \<Rightarrow> file_status option" where
  "raw_status status =
     (case status of
        [] \<Rightarrow> None
      | c # _ \<Rightarrow>
          if c = CHR ''M'' then Some FS_Modified
          else if c = CHR ''A'' then Some FS_Added
          else if c = CHR ''D'' then Some FS_Deleted
          else if c = CHR ''R'' then Some FS_Renamed
          else if c = CHR ''C'' then Some FS_Copied
          else if c = CHR ''T'' then Some FS_Modified
          else None)"

definition raw_similarity :: "string \<Rightarrow> 16 word option result" where
  "raw_similarity score =
     (if score = [] then Inr None
      else case parse_uint 65535 score of
             Inl error \<Rightarrow> Inl (Message (''invalid similarity '' @ score @ '': '' @ error))
           | Inr similarity \<Rightarrow> Inr (Some (of_int similarity)))"

definition parse_header :: "string \<Rightarrow> raw_header result" where
  "parse_header header =
     (case split_whitespace header of
        [old_mode, new_mode, old_oid, new_oid, status] \<Rightarrow>
          (case raw_status status of
             None \<Rightarrow> Inl (Message (''unsupported raw status '' @ status))
           | Some file_status \<Rightarrow>
               and_then (raw_similarity (drop 1 status)) (\<lambda>similarity.
                 Inr \<lparr>hd_old_mode = trim_start_matches CHR '':'' old_mode, hd_new_mode = new_mode,
                      hd_old_oid = old_oid, hd_new_oid = new_oid, hd_status = file_status,
                      hd_type_change = (take 1 status = ''T''), hd_similarity = similarity\<rparr>))
      | parts \<Rightarrow> Inl (Message (''expected 5 raw header fields, got '' @ dec_digits (length parts) @ '' in '' @ header)))"

definition mode :: "string \<Rightarrow> string option" where
  "mode m = (if m \<noteq> ''000000'' then Some m else None)"

definition oid :: "string \<Rightarrow> string option" where
  "oid id_text = (if \<not> list_all ((=) CHR ''0'') id_text then Some id_text else None)"

definition raw_file_of :: "raw_header \<Rightarrow> string \<Rightarrow> string option \<Rightarrow> raw_file" where
  "raw_file_of header path second_path =
     \<lparr>rf_status = hd_status header, rf_type_change = hd_type_change header,
      rf_old_mode = mode (hd_old_mode header), rf_new_mode = mode (hd_new_mode header),
      rf_old_oid = oid (hd_old_oid header), rf_new_oid = oid (hd_new_oid header),
      rf_similarity = hd_similarity header,
      rf_old_path = (if hd_status header = FS_Added then None else Some path),
      rf_new_path =
        (case hd_status header of
           FS_Modified \<Rightarrow> Some path
         | FS_Added \<Rightarrow> Some path
         | FS_Deleted \<Rightarrow> None
         | _ \<Rightarrow> second_path)\<rparr>"

text \<open>The loop of \<open>parse_raw\<close> over the fields.\<close>

fun raw_files :: "string list \<Rightarrow> raw_file list result" where
  "raw_files [] = Inr []"
| "raw_files (header # rest) =
     and_then (parse_header header) (\<lambda>parsed_header.
     case rest of
       [] \<Rightarrow> Inl (Message (''missing path for raw header '' @ header))
     | path # rest' \<Rightarrow>
         if hd_status parsed_header = FS_Renamed \<or> hd_status parsed_header = FS_Copied then
           (case rest' of
              [] \<Rightarrow> Inl (Message (''missing second path for raw header '' @ header))
            | second_path # rest'' \<Rightarrow>
                and_then (raw_files rest'') (\<lambda>files.
                  Inr (raw_file_of parsed_header path (Some second_path) # files)))
         else
           and_then (raw_files rest') (\<lambda>files. Inr (raw_file_of parsed_header path None # files)))"

definition utf8_field :: "string \<Rightarrow> string result" where
  "utf8_field field =
     (case from_utf8 field of
        Inl error \<Rightarrow> Inl (Message (''git raw output is not utf-8: '' @ error))
      | Inr s \<Rightarrow> Inr s)"

definition parse_raw :: "string \<Rightarrow> raw_file list result" where
  "parse_raw raw = and_then (try_map utf8_field (filter (\<lambda>f. f \<noteq> []) (split_nul [] raw))) raw_files"

section \<open>The files of a snapshot\<close>

definition is_mode_only :: "raw_file \<Rightarrow> patch_file \<Rightarrow> bool" where
  "is_mode_only raw patch \<longleftrightarrow>
     has_mode_change raw \<and> \<not> rf_type_change raw \<and> \<not> pf_is_binary patch \<and> pf_hunks patch = []"

definition metadata_rows :: "raw_file \<Rightarrow> patch_file \<Rightarrow> file_metadata_row list" where
  "metadata_rows raw patch =
     (if rf_status raw = FS_Renamed \<or> rf_status raw = FS_Copied then
        [\<lparr>fm_kind = FM_RenameSummary,
          fm_text = (case (rf_old_path raw, rf_new_path raw, rf_similarity raw) of
                       (Some old, Some new, Some similarity) \<Rightarrow>
                         ''renamed '' @ old @ '' -> '' @ new @ '' ('' @ word_text similarity @ ''%)''
                     | (Some old, Some new, None) \<Rightarrow> ''renamed '' @ old @ '' -> '' @ new
                     | _ \<Rightarrow> ''renamed file'')\<rparr>]
      else []) @
     (if pf_is_binary patch then [\<lparr>fm_kind = FM_BinarySummary, fm_text = ''binary files differ''\<rparr>] else []) @
     (if has_mode_change raw then
        [\<lparr>fm_kind = FM_ModeChange,
          fm_text = (case (rf_old_mode raw, rf_new_mode raw) of
                       (Some old, Some new) \<Rightarrow> ''mode changed '' @ old @ '' -> '' @ new
                     | _ \<Rightarrow> ''mode changed'')\<rparr>]
      else []) @
     (if raw_is_submodule raw then
        [\<lparr>fm_kind = FM_SubmoduleSummary,
          fm_text = (case (rf_old_oid raw, rf_new_oid raw) of
                       (Some old, Some new) \<Rightarrow> ''submodule changed '' @ old @ '' -> '' @ new
                     | _ \<Rightarrow> ''submodule changed'')\<rparr>]
      else [])"

definition diff_file_of :: "raw_file \<Rightarrow> string \<Rightarrow> patch_file \<Rightarrow> bool \<Rightarrow> diff_file" where
  "diff_file_of raw key patch is_synthetic =
     \<lparr>df_id = key, df_status = rf_status raw, df_old_path = rf_old_path raw, df_new_path = rf_new_path raw,
      df_old_mode = option_or (rf_old_mode raw) (pf_old_mode patch),
      df_new_mode = option_or (rf_new_mode raw) (pf_new_mode patch),
      df_old_oid = rf_old_oid raw, df_new_oid = rf_new_oid raw,
      df_similarity = option_or (rf_similarity raw) (pf_similarity patch),
      df_is_binary = pf_is_binary patch, df_is_submodule = raw_is_submodule raw,
      df_is_mode_only = is_mode_only raw patch, df_synthetic = is_synthetic,
      df_metadata_rows = metadata_rows raw patch,
      df_hunks = (if pf_is_binary patch \<or> raw_is_submodule raw \<or> is_mode_only raw patch then [] else pf_hunks patch)\<rparr>"

definition merge_patch_file :: "patch_file \<Rightarrow> patch_file \<Rightarrow> patch_file" where
  "merge_patch_file existing next_file =
     \<lparr>pf_old_path = option_or (pf_old_path existing) (pf_old_path next_file),
      pf_new_path = option_or (pf_new_path existing) (pf_new_path next_file),
      pf_old_mode = option_or (pf_old_mode existing) (pf_old_mode next_file),
      pf_new_mode = option_or (pf_new_mode existing) (pf_new_mode next_file),
      pf_similarity = option_or (pf_similarity existing) (pf_similarity next_file),
      pf_is_binary = (pf_is_binary existing \<or> pf_is_binary next_file),
      pf_hunks = pf_hunks existing @ pf_hunks next_file\<rparr>"

fun patch_files_by_key :: "(string \<times> patch_file) list \<Rightarrow> patch_file list \<Rightarrow> (string \<times> patch_file) list option" where
  "patch_files_by_key by_key [] = Some by_key"
| "patch_files_by_key by_key (file # files) =
     (case patch_key file of
        None \<Rightarrow> None
      | Some key \<Rightarrow>
          patch_files_by_key
            (bm_insert key (case bm_get by_key key of
                              None \<Rightarrow> file
                            | Some existing \<Rightarrow> merge_patch_file existing file) by_key) files)"

fun find_diff_files :: "(string \<times> patch_file) list \<Rightarrow> raw_file list \<Rightarrow> diff_file list result option" where
  "find_diff_files patch_files [] = Some (Inr [])"
| "find_diff_files patch_files (raw # raws) =
     (case raw_key raw of
        None \<Rightarrow> None
      | Some key \<Rightarrow>
          (case bm_get patch_files key of
             None \<Rightarrow> Some (Inl (Message (''missing patch entry for '' @ key)))
           | Some patch \<Rightarrow>
               (case find_diff_files patch_files raws of
                  Some (Inr files) \<Rightarrow> Some (Inr (diff_file_of raw key patch False # files))
                | other \<Rightarrow> other)))"

definition diff_files_for_args_with_policy :: "string \<Rightarrow> string \<Rightarrow> diff_file list result option" where
  "diff_files_for_args_with_policy raw_output patch_output =
     (case parse_raw raw_output of
        Inl error \<Rightarrow> Some (Inl error)
      | Inr files \<Rightarrow>
          (case parse_patch (from_utf8_lossy patch_output) of
             None \<Rightarrow> None
           | Some (Inl error) \<Rightarrow> Some (Inl error)
           | Some (Inr patches) \<Rightarrow>
               (case patch_files_by_key [] patches of
                  None \<Rightarrow> None
                | Some by_key \<Rightarrow> find_diff_files by_key files)))"

definition synthesize_untracked_file :: "string \<Rightarrow> string \<Rightarrow> diff_file result option" where
  "synthesize_untracked_file path patch_output =
     (case parse_patch (from_utf8_lossy patch_output) of
        None \<Rightarrow> None
      | Some (Inl error) \<Rightarrow> Some (Inl error)
      | Some (Inr []) \<Rightarrow> Some (Inl (Message (''missing no-index patch for '' @ path)))
      | Some (Inr (patch # _)) \<Rightarrow>
          Some (Inr (diff_file_of
            \<lparr>rf_status = FS_Added, rf_type_change = False, rf_old_mode = None, rf_new_mode = pf_new_mode patch,
             rf_old_oid = None, rf_new_oid = None, rf_similarity = None, rf_old_path = None,
             rf_new_path = Some path\<rparr> path patch True)))"

definition filter_helper_paths :: "string list \<Rightarrow> diff_file list \<Rightarrow> diff_file list" where
  "filter_helper_paths excluded_paths files =
     (if excluded_paths = [] then files
      else filter (\<lambda>file.
             \<not> (\<exists>path \<in> set excluded_paths. df_old_path file = Some path) \<and>
             \<not> (\<exists>path \<in> set excluded_paths. df_new_path file = Some path)) files)"

end
