(* ===== verification/Git_Capture.thy ===== *)
theory Git_Capture
  imports Git_Diff
begin

text \<open>
  What the diff reader of \<open>Git_Diff\<close> makes of git's output. The specification describes the documented
  formats of \<open>git diff --raw -z\<close> and \<open>git diff --patch\<close> as printers (\<open>git_raw\<close>, \<open>git_patch\<close>) of a list
  of changes, with the conditions under which git prints them this way, and the file each change
  should become (\<open>change_file\<close>). The lemmas follow the parser's state line by line.
\<close>

section \<open>What git prints\<close>

text \<open>One row of a hunk, with the note git adds when the file ends there without a newline.\<close>

record git_row =
  gr_kind :: diff_row_kind
  gr_text :: string
  gr_no_newline :: bool

record git_hunk =
  gh_old_start :: nat
  gh_old_lines :: nat
  gh_new_start :: nat
  gh_new_lines :: nat
  gh_section :: string
  gh_rows :: "git_row list"

datatype git_body = Git_Binary | Git_Text "git_hunk list"

text \<open>One entry of a patch, from a \<open>diff --git\<close> line to the next.\<close>

record git_entry =
  ge_status :: file_status
  ge_old_mode :: string
  ge_new_mode :: string
  ge_old_oid :: string
  ge_new_oid :: string
  ge_old_path :: string
  ge_new_path :: string
  ge_similarity :: nat
  ge_index :: "string option"
  ge_body :: git_body

text \<open>A change of a file is one entry; a change of its type is a deletion and an addition.\<close>

datatype git_change = Git_Change git_entry | Git_Type_Change git_entry git_entry

definition git_range :: "nat \<Rightarrow> nat \<Rightarrow> string" where
  "git_range start lines = dec_digits start @ (if lines = 1 then [] else '','' @ dec_digits lines)"

definition git_marker :: "diff_row_kind \<Rightarrow> char" where
  "git_marker kind = (case kind of Row_Context \<Rightarrow> CHR '' '' | Row_Added \<Rightarrow> CHR ''+'' | Row_Removed \<Rightarrow> CHR ''-'')"

definition git_row_lines :: "git_row \<Rightarrow> string list" where
  "git_row_lines row =
     (git_marker (gr_kind row) # gr_text row) #
     (if gr_no_newline row then [CHR 0x5C # '' No newline at end of file''] else [])"

definition git_hunk_header :: "git_hunk \<Rightarrow> string" where
  "git_hunk_header h =
     ''@@ -'' @ git_range (gh_old_start h) (gh_old_lines h) @
     '' +'' @ git_range (gh_new_start h) (gh_new_lines h) @ '' @@'' @ gh_section h"

definition git_hunk_lines :: "git_hunk \<Rightarrow> string list" where
  "git_hunk_lines h = git_hunk_header h # concat (map git_row_lines (gh_rows h))"

definition git_mode_lines :: "git_entry \<Rightarrow> string list" where
  "git_mode_lines e =
     (if ge_status e = FS_Added then [''new file mode '' @ ge_new_mode e]
      else if ge_status e = FS_Deleted then [''deleted file mode '' @ ge_old_mode e]
      else if ge_old_mode e \<noteq> ge_new_mode e then [''old mode '' @ ge_old_mode e, ''new mode '' @ ge_new_mode e]
      else [])"

definition git_rename_lines :: "git_entry \<Rightarrow> string list" where
  "git_rename_lines e =
     (if ge_status e = FS_Renamed then
        [''similarity index '' @ dec_digits (ge_similarity e) @ ''%'',
         ''rename from '' @ ge_old_path e, ''rename to '' @ ge_new_path e]
      else if ge_status e = FS_Copied then
        [''similarity index '' @ dec_digits (ge_similarity e) @ ''%'',
         ''copy from '' @ ge_old_path e, ''copy to '' @ ge_new_path e]
      else [])"

definition git_old_name :: "git_entry \<Rightarrow> string" where
  "git_old_name e = (if ge_status e = FS_Added then ''/dev/null'' else ''a/'' @ ge_old_path e)"

definition git_new_name :: "git_entry \<Rightarrow> string" where
  "git_new_name e = (if ge_status e = FS_Deleted then ''/dev/null'' else ''b/'' @ ge_new_path e)"

definition git_body_lines :: "git_entry \<Rightarrow> string list" where
  "git_body_lines e =
     (case ge_body e of
        Git_Binary \<Rightarrow> [''Binary files '' @ git_old_name e @ '' and '' @ git_new_name e @ '' differ'']
      | Git_Text [] \<Rightarrow> []
      | Git_Text hunks \<Rightarrow>
          [''--- '' @ git_old_name e, ''+++ '' @ git_new_name e] @ concat (map git_hunk_lines hunks))"

definition git_entry_lines :: "git_entry \<Rightarrow> string list" where
  "git_entry_lines e =
     [''diff --git a/'' @ ge_old_path e @ '' b/'' @ ge_new_path e] @ git_mode_lines e @ git_rename_lines e @
     (case ge_index e of None \<Rightarrow> [] | Some ids \<Rightarrow> [''index '' @ ids]) @ git_body_lines e"

definition git_entries :: "git_change \<Rightarrow> git_entry list" where
  "git_entries c = (case c of Git_Change e \<Rightarrow> [e] | Git_Type_Change d a \<Rightarrow> [d, a])"

definition git_patch :: "git_change list \<Rightarrow> string" where
  "git_patch cs = unlines (concat (map git_entry_lines (concat (map git_entries cs))))"

section \<open>What the parser should read\<close>

fun number_rows :: "32 word \<Rightarrow> 32 word \<Rightarrow> git_row list \<Rightarrow> diff_row list" where
  "number_rows old new [] = []"
| "number_rows old new (r # rs) =
     (case gr_kind r of
        Row_Context \<Rightarrow>
          \<lparr>dr_kind = Row_Context, dr_old_line = Some old, dr_new_line = Some new, dr_text = gr_text r\<rparr> #
          number_rows (old + 1) (new + 1) rs
      | Row_Added \<Rightarrow>
          \<lparr>dr_kind = Row_Added, dr_old_line = None, dr_new_line = Some new, dr_text = gr_text r\<rparr> #
          number_rows old (new + 1) rs
      | Row_Removed \<Rightarrow>
          \<lparr>dr_kind = Row_Removed, dr_old_line = Some old, dr_new_line = None, dr_text = gr_text r\<rparr> #
          number_rows (old + 1) new rs)"

definition entry_key :: "git_entry \<Rightarrow> string" where
  "entry_key e = (if ge_status e = FS_Deleted then ge_old_path e else ge_new_path e)"

definition git_review_hunk :: "string \<Rightarrow> git_hunk \<Rightarrow> review_hunk" where
  "git_review_hunk key h =
     \<lparr>rh_id = key @ '':'' @ dec_digits (gh_old_start h) @ '':'' @ dec_digits (gh_new_start h),
      rh_header = git_hunk_header h,
      rh_old_start = of_nat (gh_old_start h), rh_old_lines = of_nat (gh_old_lines h),
      rh_new_start = of_nat (gh_new_start h), rh_new_lines = of_nat (gh_new_lines h),
      rh_rows = number_rows (of_nat (gh_old_start h)) (of_nat (gh_new_start h)) (gh_rows h)\<rparr>"

definition entry_hunks :: "git_entry \<Rightarrow> review_hunk list" where
  "entry_hunks e =
     (case ge_body e of Git_Binary \<Rightarrow> [] | Git_Text hunks \<Rightarrow> map (git_review_hunk (entry_key e)) hunks)"

definition entry_file :: "git_entry \<Rightarrow> patch_file" where
  "entry_file e =
     (let shown = entry_hunks e \<noteq> []; renamed = ge_status e = FS_Renamed \<or> ge_status e = FS_Copied;
          modes = ge_old_mode e \<noteq> ge_new_mode e
      in \<lparr>pf_old_path = (if ge_status e = FS_Added \<and> shown then None else Some (ge_old_path e)),
          pf_new_path = (if ge_status e = FS_Deleted \<and> shown then None else Some (ge_new_path e)),
          pf_old_mode = (if ge_status e \<noteq> FS_Added \<and> modes then Some (ge_old_mode e) else None),
          pf_new_mode = (if ge_status e \<noteq> FS_Deleted \<and> modes then Some (ge_new_mode e) else None),
          pf_similarity = (if renamed then Some (of_nat (ge_similarity e)) else None),
          pf_is_binary = (ge_body e = Git_Binary),
          pf_hunks = entry_hunks e\<rparr>)"

section \<open>Changes that git prints this way\<close>

text \<open>Paths that git does not quote, and rows that do not look like the header of a file.\<close>

definition plain_path :: "string \<Rightarrow> bool" where
  "plain_path p \<longleftrightarrow> p \<noteq> [] \<and> visible p \<and> CHR 0x22 \<notin> set p \<and> CHR 0x5C \<notin> set p"

definition git_row_ok :: "git_row \<Rightarrow> bool" where
  "git_row_ok r \<longleftrightarrow>
     valid_utf8 (gr_text r) \<and> is_line (gr_text r) \<and>
     \<not> (gr_kind r = Row_Removed \<and> starts_with ''-- '' (gr_text r)) \<and>
     \<not> (gr_kind r = Row_Added \<and> starts_with ''++ '' (gr_text r))"

definition git_hunk_ok :: "git_hunk \<Rightarrow> bool" where
  "git_hunk_ok h \<longleftrightarrow>
     int (gh_old_start h) < 2 ^ 32 \<and> int (gh_old_lines h) < 2 ^ 32 \<and> int (gh_new_start h) < 2 ^ 32 \<and> int (gh_new_lines h) < 2 ^ 32 \<and>
     (gh_section h = [] \<or> starts_with '' '' (gh_section h)) \<and> valid_utf8 (gh_section h) \<and> is_line (gh_section h) \<and>
     list_all git_row_ok (gh_rows h)"

definition git_mode_ok :: "string \<Rightarrow> bool" where
  "git_mode_ok m \<longleftrightarrow> m \<noteq> [] \<and> list_all is_ascii_digit m"

definition git_oid_ok :: "string \<Rightarrow> bool" where
  "git_oid_ok i \<longleftrightarrow> i \<noteq> [] \<and> visible i"

definition git_entry_ok :: "git_entry \<Rightarrow> bool" where
  "git_entry_ok e \<longleftrightarrow>
     plain_path (ge_old_path e) \<and> plain_path (ge_new_path e) \<and>
     (ge_status e \<in> {FS_Modified, FS_Added, FS_Deleted} \<longrightarrow> ge_old_path e = ge_new_path e) \<and>
     git_mode_ok (ge_old_mode e) \<and> git_mode_ok (ge_new_mode e) \<and>
     (ge_old_mode e = ''000000'' \<longleftrightarrow> ge_status e = FS_Added) \<and>
     (ge_new_mode e = ''000000'' \<longleftrightarrow> ge_status e = FS_Deleted) \<and>
     git_oid_ok (ge_old_oid e) \<and> git_oid_ok (ge_new_oid e) \<and> ge_similarity e \<le> 100 \<and>
     (case ge_index e of None \<Rightarrow> True | Some ids \<Rightarrow> valid_utf8 ids \<and> is_line ids) \<and>
     (case ge_body e of Git_Binary \<Rightarrow> True | Git_Text hunks \<Rightarrow> list_all git_hunk_ok hunks)"

section \<open>Reading a patch\<close>

lemma option_or_simps [simp]: "option_or None b = b" "option_or (Some x) b = Some x"
  by (simp_all add: option_or_def)

lemma patch_lines_append:
  "patch_lines st (a @ b) =
     (case patch_lines st a of None \<Rightarrow> None | Some (Inl e) \<Rightarrow> Some (Inl e) | Some (Inr st') \<Rightarrow> patch_lines st' b)"
  by (induction a arbitrary: st) (auto split: option.splits sum.splits)

lemma strip_prefix_Cons:
  "strip_prefix [] s = Some s"
  "strip_prefix (c # p) [] = None"
  "strip_prefix (c # p) (d # s) = (if c = d then strip_prefix p s else None)"
  by (simp_all add: strip_prefix_def)

lemmas prefix_simps = strip_prefix_Cons starts_with_def

text \<open>A line that no header branch takes.\<close>

lemma row_not_header:
  assumes "git_row_ok r"
  shows "file_line f (git_marker (gr_kind r) # gr_text r) = None"
    and "\<not> starts_with ''diff --git '' (git_marker (gr_kind r) # gr_text r)"
    and "\<not> starts_with ''@@ '' (git_marker (gr_kind r) # gr_text r)"
  using assms by (cases "gr_kind r";
      simp add: file_line_def git_marker_def git_row_ok_def prefix_simps del: strip_prefix_append)+

lemma row_boundary: "git_row_ok r \<Longrightarrow> is_char_boundary_1 (git_marker (gr_kind r) # gr_text r)"
  using valid_utf8_head by (cases "gr_text r") (auto simp: git_row_ok_def is_char_boundary_1_def)

text \<open>The state within a file, and the file once its last hunk is closed.\<close>

definition in_file :: "patch_file list \<Rightarrow> patch_file \<Rightarrow> review_hunk option \<Rightarrow> 32 word \<Rightarrow> 32 word \<Rightarrow> patch_state" where
  "in_file files f ho old new =
     \<lparr>ps_files = files, ps_current_file = Some f, ps_current_hunk = ho, ps_old_line = old, ps_new_line = new\<rparr>"

abbreviation in_hunk :: "patch_file list \<Rightarrow> patch_file \<Rightarrow> review_hunk \<Rightarrow> 32 word \<Rightarrow> 32 word \<Rightarrow> patch_state" where
  "in_hunk files f h \<equiv> in_file files f (Some h)"

definition closed :: "patch_file \<Rightarrow> review_hunk option \<Rightarrow> patch_file" where
  "closed f ho = (case ho of None \<Rightarrow> f | Some h \<Rightarrow> f\<lparr>pf_hunks := pf_hunks f @ [h]\<rparr>)"

definition all_files :: "patch_state \<Rightarrow> patch_file list" where
  "all_files st = ps_files (take_file (finish_hunk st))"

lemma all_files_in_file: "all_files (in_file files f ho old new) = files @ [closed f ho]"
  by (cases ho) (simp_all add: all_files_def in_file_def finish_hunk_def take_file_def closed_def)

lemma no_newline_line: "patch_line (in_hunk files f h old new) (CHR 0x5C # s) = Some (Inr (in_hunk files f h old new))"
  by (simp add: patch_line_def in_file_def file_line_def row_line_def prefix_simps)

definition next_old :: "git_row \<Rightarrow> 32 word \<Rightarrow> 32 word" where
  "next_old r old = (if gr_kind r = Row_Added then old else old + 1)"

definition next_new :: "git_row \<Rightarrow> 32 word \<Rightarrow> 32 word" where
  "next_new r new = (if gr_kind r = Row_Removed then new else new + 1)"

lemma number_rows_Cons:
  "number_rows old new (r # rs) = number_rows old new [r] @ number_rows (next_old r old) (next_new r new) rs"
  by (cases "gr_kind r") (simp_all add: next_old_def next_new_def)

lemma patch_row_line:
  assumes "git_row_ok r"
  shows "patch_line (in_hunk files f h old new) (git_marker (gr_kind r) # gr_text r) =
    Some (Inr (in_hunk files f (h\<lparr>rh_rows := rh_rows h @ number_rows old new [r]\<rparr>) (next_old r old) (next_new r new)))"
  using row_not_header [OF assms] row_boundary [OF assms]
  by (cases "gr_kind r")
    (simp_all add: patch_line_def in_file_def row_line_def git_marker_def push_row_def next_old_def next_new_def)

lemma patch_row:
  assumes "git_row_ok r"
  shows "patch_lines (in_hunk files f h old new) (git_row_lines r) =
    Some (Inr (in_hunk files f (h\<lparr>rh_rows := rh_rows h @ number_rows old new [r]\<rparr>) (next_old r old) (next_new r new)))"
  by (simp add: git_row_lines_def patch_row_line [OF assms] no_newline_line del: number_rows.simps)

lemma patch_rows:
  assumes "list_all git_row_ok rs"
  shows "\<exists>old' new'. patch_lines (in_hunk files f h old new) (concat (map git_row_lines rs)) =
      Some (Inr (in_hunk files f (h\<lparr>rh_rows := rh_rows h @ number_rows old new rs\<rparr>) old' new'))"
  using assms
proof (induction rs arbitrary: h old new)
  case (Cons r rs)
  from Cons.prems have r: "git_row_ok r" and rs: "list_all git_row_ok rs" by simp_all
  show ?case
    using Cons.IH [OF rs, of "h\<lparr>rh_rows := rh_rows h @ number_rows old new [r]\<rparr>" "next_old r old" "next_new r new"]
    by (simp add: patch_lines_append patch_row [OF r] number_rows_Cons [of old new r rs] del: number_rows.simps)
qed auto

lemma split_whitespace_word:
  "visible w \<Longrightarrow> w \<noteq> [] \<Longrightarrow> split_whitespace_from [] (w @ CHR '' '' # s) = w # split_whitespace_from [] s"
  using split_whitespace_visible [of w "[]" "CHR '' '' # s"] split_whitespace_space [of w s] by simp

lemma split_whitespace_header:
  "\<exists>rest. split_whitespace (git_hunk_header h) =
    ''@@'' # (CHR ''-'' # git_range (gh_old_start h) (gh_old_lines h)) #
    (CHR ''+'' # git_range (gh_new_start h) (gh_new_lines h)) # rest"
proof -
  let ?a = "CHR ''-'' # git_range (gh_old_start h) (gh_old_lines h)"
  let ?b = "CHR ''+'' # git_range (gh_new_start h) (gh_new_lines h)"
  have "visible (git_range s l)" for s l by (simp add: git_range_def byte_def)
  then have v: "visible ''@@''" "visible ?a" "visible ?b" by (simp_all add: byte_def)
  have "split_whitespace (git_hunk_header h) = split_whitespace_from []
      (''@@'' @ CHR '' '' # ?a @ CHR '' '' # ?b @ CHR '' '' # ''@@'' @ gh_section h)"
    by (simp add: split_whitespace_def git_hunk_header_def)
  then show ?thesis by (simp only: split_whitespace_word v list.distinct simp_thms) blast
qed

lemma parse_git_range:
  assumes "int s < 2 ^ 32" and "int l < 2 ^ 32"
  shows "parse_range (p # git_range s l) p = Inr (of_nat s, of_nat l)"
proof -
  have c: "\<forall>c \<in> set (dec_digits s). c \<noteq> CHR '',''"
    using byte_dec_digits [of _ s] by (force simp: byte_def)
  have n: "parse_uint 4294967295 (dec_digits k) = Inr (int k)" if "int k < 2 ^ 32" for k
    using that by (intro parse_uint_dec) simp
  have one: "parse_uint 4294967295 ''1'' = Inr 1" by (simp add: parse_uint_def is_ascii_digit_def byte_def)
  show ?thesis
    using split_once_hit [OF c, of "[]" "dec_digits l"] split_once_miss [OF c, of "[]"] n [OF assms(1)] n [OF assms(2)] one
    by (cases "l = 1") (simp_all add: parse_range_def git_range_def prefix_simps)
qed

lemma parse_git_hunk_header:
  assumes "git_hunk_ok h"
  shows "parse_hunk_header (git_hunk_header h) =
    Inr (of_nat (gh_old_start h), of_nat (gh_old_lines h), of_nat (gh_new_start h), of_nat (gh_new_lines h))"
proof -
  obtain rest where "split_whitespace (git_hunk_header h) =
    ''@@'' # (CHR ''-'' # git_range (gh_old_start h) (gh_old_lines h)) #
    (CHR ''+'' # git_range (gh_new_start h) (gh_new_lines h)) # rest"
    using split_whitespace_header [of h] by blast
  then show ?thesis
    using assms by (simp add: parse_hunk_header_def parse_git_range git_hunk_ok_def)
qed

lemma header_line:
  "file_line f (git_hunk_header h) = None"
  "\<not> starts_with ''diff --git '' (git_hunk_header h)"
  "starts_with ''@@ '' (git_hunk_header h)"
  by (simp_all add: git_hunk_header_def file_line_def prefix_simps)

definition fresh_hunk :: "string \<Rightarrow> git_hunk \<Rightarrow> review_hunk" where
  "fresh_hunk key h = (git_review_hunk key h)\<lparr>rh_rows := []\<rparr>"

lemma word_text_of_nat: "int n < 2 ^ 32 \<Longrightarrow> word_text (of_nat n :: 32 word) = dec_digits n"
  by (simp add: word_text_def unat_of_nat)

lemma patch_hunk_header:
  assumes "git_hunk_ok h" and "patch_key f = Some key"
  shows "patch_line (in_file files f ho old new) (git_hunk_header h) =
    Some (Inr (in_hunk files (closed f ho) (fresh_hunk key h) (of_nat (gh_old_start h)) (of_nat (gh_new_start h))))"
proof -
  have "int (gh_old_start h) < 2 ^ 32" "int (gh_new_start h) < 2 ^ 32" using assms(1) by (auto simp: git_hunk_ok_def)
  then show ?thesis
    using assms(2) parse_git_hunk_header [OF assms(1)] header_line
    by (cases ho) (simp_all add: patch_line_def header_line in_file_def start_hunk_def finish_hunk_def closed_def fresh_hunk_def
        git_review_hunk_def word_text_of_nat)
qed

lemma patch_hunks:
  assumes "list_all git_hunk_ok hs" and "patch_key f = Some key"
  shows "\<exists>f' ho' old' new'. patch_lines (in_file files f ho old new) (concat (map git_hunk_lines hs)) =
      Some (Inr (in_file files f' ho' old' new')) \<and>
    closed f' ho' = (closed f ho)\<lparr>pf_hunks := pf_hunks (closed f ho) @ map (git_review_hunk key) hs\<rparr>"
  using assms
proof (induction hs arbitrary: f ho old new)
  case (Cons h hs)
  have k: "patch_key (closed f ho) = Some key"
    using Cons.prems(2) by (cases ho) (simp_all add: patch_key_def closed_def)
  from Cons.prems have h: "git_hunk_ok h" and hs: "list_all git_hunk_ok hs" by simp_all
  have rows: "list_all git_row_ok (gh_rows h)" using h by (simp add: git_hunk_ok_def)
  obtain o' n' where step: "patch_lines (in_file files f ho old new) (git_hunk_lines h) =
      Some (Inr (in_hunk files (closed f ho) (git_review_hunk key h) o' n'))"
    using patch_rows [OF rows, of files "closed f ho" "fresh_hunk key h" "of_nat (gh_old_start h)" "of_nat (gh_new_start h)"]
    by (auto simp: git_hunk_lines_def patch_hunk_header [OF h Cons.prems(2)] fresh_hunk_def git_review_hunk_def)
  show ?case
    using Cons.IH [OF hs k, of "Some (git_review_hunk key h)" o' n'] step
    by (force simp: patch_lines_append closed_def)
qed (force simp: closed_def)

text \<open>The lines before the hunks.\<close>

lemma split_once_Cons:
  "split_once d (c # s) =
     (case strip_prefix d (c # s) of
        Some rest \<Rightarrow> Some ([], rest)
      | None \<Rightarrow> map_option (\<lambda>(before, rest). (c # before, rest)) (split_once d s))"
  by (subst split_once.simps) (simp split: option.split)

lemma plain_path_no_space: "plain_path p \<Longrightarrow> \<forall>c \<in> set p. c \<noteq> CHR '' ''"
  using visible_not_in [of p "CHR '' ''"] by (auto simp: plain_path_def byte_def)

lemma diff_git_paths:
  assumes "plain_path a"
  shows "diff_git_path (''diff --git a/'' @ a @ '' b/'' @ b) CHR ''a'' = Some a"
    and "diff_git_path (''diff --git a/'' @ a @ '' b/'' @ b) CHR ''b'' = Some b"
  using split_once_hit [OF plain_path_no_space [OF assms], of "''b/''" b]
  by (simp_all add: diff_git_path_def prefix_simps split_once_Cons)

definition fresh_file :: "string \<Rightarrow> string \<Rightarrow> patch_file" where
  "fresh_file a b =
     \<lparr>pf_old_path = Some a, pf_new_path = Some b, pf_old_mode = None, pf_new_mode = None,
      pf_similarity = None, pf_is_binary = False, pf_hunks = []\<rparr>"

lemma patch_start_line:
  assumes "plain_path a"
  shows "patch_line st (''diff --git a/'' @ a @ '' b/'' @ b) =
    Some (Inr (in_file (all_files st) (fresh_file a b) None (ps_old_line st) (ps_new_line st)))"
proof -
  have "patch_line st (''diff --git a/'' @ a @ '' b/'' @ b) =
      Some (Inr (start_file st (''diff --git a/'' @ a @ '' b/'' @ b)))"
    by (simp add: patch_line_def prefix_simps)
  then show ?thesis
    unfolding start_file_def diff_git_paths [OF assms]
    by (cases "ps_current_file st"; cases "ps_current_hunk st")
      (simp_all add: in_file_def all_files_def fresh_file_def finish_hunk_def take_file_def)
qed

lemma patch_file_line:
  assumes "file_line f l = Some (Inr f')" and "\<not> starts_with ''diff --git '' l"
  shows "patch_line (in_file files f ho old new) l = Some (Inr (in_file files f' ho old new))"
  using assms by (simp add: patch_line_def in_file_def)

lemma patch_other_line:
  assumes "file_line f l = None" and "\<not> starts_with ''diff --git '' l" and "\<not> starts_with ''@@ '' l"
  shows "patch_line (in_file files f None old new) l = Some (Inr (in_file files f None old new))"
  using assms by (simp add: patch_line_def in_file_def row_line_def)

lemma read_git_similarity:
  "n \<le> 100 \<Longrightarrow> read_similarity f (dec_digits n @ ''%'') = Inr (f\<lparr>pf_similarity := Some (of_nat n)\<rparr>)"
proof -
  assume n: "n \<le> 100"
  have "last (dec_digits n) \<noteq> CHR ''%''"
    using byte_dec_digits [of "last (dec_digits n)" n] by (auto simp: byte_def)
  then have "trim_end_matches CHR ''%'' (dec_digits n @ ''%'') = dec_digits n"
    by (cases "dec_digits n" rule: rev_cases) (auto simp: trim_end_matches_def)
  then show ?thesis using n by (simp add: read_similarity_def parse_uint_dec)
qed

lemma file_line_simps:
  "file_line f (''old mode '' @ m) = Some (Inr (f\<lparr>pf_old_mode := Some m\<rparr>))"
  "file_line f (''new mode '' @ m) = Some (Inr (f\<lparr>pf_new_mode := Some m\<rparr>))"
  "file_line f (''new file mode '' @ m) = Some (Inr (f\<lparr>pf_new_mode := Some m\<rparr>))"
  "file_line f (''deleted file mode '' @ m) = Some (Inr (f\<lparr>pf_old_mode := Some m\<rparr>))"
  "file_line f (''similarity index '' @ m) = Some (read_similarity f m)"
  "file_line f (''rename from '' @ m) = Some (Inr (f\<lparr>pf_old_path := Some m\<rparr>))"
  "file_line f (''rename to '' @ m) = Some (Inr (f\<lparr>pf_new_path := Some m\<rparr>))"
  "file_line f (''--- '' @ m) = Some (Inr (f\<lparr>pf_old_path := parse_patch_path m\<rparr>))"
  "file_line f (''+++ '' @ m) = Some (Inr (f\<lparr>pf_new_path := parse_patch_path m\<rparr>))"
  "file_line f (''Binary files '' @ m) = Some (Inr (f\<lparr>pf_is_binary := True\<rparr>))"
  "file_line f (''copy from '' @ m) = None"
  "file_line f (''copy to '' @ m) = None"
  "file_line f (''index '' @ m) = None"
  unfolding file_line_def by (simp_all add: prefix_simps)

lemma not_diff_git:
  "\<not> starts_with ''diff --git '' (''old mode '' @ m)" "\<not> starts_with ''diff --git '' (''new mode '' @ m)"
  "\<not> starts_with ''diff --git '' (''new file mode '' @ m)" "\<not> starts_with ''diff --git '' (''deleted file mode '' @ m)"
  "\<not> starts_with ''diff --git '' (''similarity index '' @ m)" "\<not> starts_with ''diff --git '' (''rename from '' @ m)"
  "\<not> starts_with ''diff --git '' (''rename to '' @ m)" "\<not> starts_with ''diff --git '' (''--- '' @ m)"
  "\<not> starts_with ''diff --git '' (''+++ '' @ m)" "\<not> starts_with ''diff --git '' (''Binary files '' @ m)"
  "\<not> starts_with ''diff --git '' (''copy from '' @ m)" "\<not> starts_with ''diff --git '' (''copy to '' @ m)"
  "\<not> starts_with ''diff --git '' (''index '' @ m)"
  by (simp_all add: prefix_simps)

lemma not_hunk_start:
  "\<not> starts_with ''@@ '' (''copy from '' @ m)" "\<not> starts_with ''@@ '' (''copy to '' @ m)"
  "\<not> starts_with ''@@ '' (''index '' @ m)"
  by (simp_all add: prefix_simps)

lemmas header_steps = patch_file_line [OF file_line_simps(1) not_diff_git(1)] patch_file_line [OF file_line_simps(2) not_diff_git(2)]
  patch_file_line [OF file_line_simps(3) not_diff_git(3)] patch_file_line [OF file_line_simps(4) not_diff_git(4)]
  patch_file_line [OF file_line_simps(6) not_diff_git(6)] patch_file_line [OF file_line_simps(7) not_diff_git(7)]
  patch_file_line [OF file_line_simps(8) not_diff_git(8)] patch_file_line [OF file_line_simps(9) not_diff_git(9)]
  patch_file_line [OF file_line_simps(10) not_diff_git(10)]
  patch_other_line [OF file_line_simps(11) not_diff_git(11) not_hunk_start(1)]
  patch_other_line [OF file_line_simps(12) not_diff_git(12) not_hunk_start(2)]
  patch_other_line [OF file_line_simps(13) not_diff_git(13) not_hunk_start(3)]

lemma similarity_step:
  assumes "n \<le> 100"
  shows "patch_line (in_file files f ho old new) (''similarity index '' @ dec_digits n @ ''%'') =
    Some (Inr (in_file files (f\<lparr>pf_similarity := Some (of_nat n)\<rparr>) ho old new))"
  by (rule patch_file_line [OF _ not_diff_git(5)])
    (simp only: file_line_simps(5) read_git_similarity [OF assms])

text \<open>The entry, read up to its body.\<close>

definition head_file :: "git_entry \<Rightarrow> patch_file" where
  "head_file e = (entry_file e)\<lparr>pf_old_path := Some (ge_old_path e), pf_new_path := Some (ge_new_path e),
     pf_is_binary := False, pf_hunks := []\<rparr>"

lemma entry_modes_differ: "git_entry_ok e \<Longrightarrow> ge_status e = FS_Added \<or> ge_status e = FS_Deleted \<Longrightarrow> ge_old_mode e \<noteq> ge_new_mode e"
  unfolding git_entry_ok_def by (metis file_status.distinct(9))

lemma patch_modes:
  assumes "git_entry_ok e"
  shows "patch_lines (in_file files (fresh_file (ge_old_path e) (ge_new_path e)) None old new) (git_mode_lines e) =
    Some (Inr (in_file files ((head_file e)\<lparr>pf_similarity := None\<rparr>) None old new))"
  using entry_modes_differ [OF assms]
  by (cases "ge_status e"; cases "ge_old_mode e = ge_new_mode e")
    (simp_all only: git_mode_lines_def patch_lines.simps header_steps option.case sum.case if_True if_False simp_thms file_status.distinct,
      simp_all add: head_file_def entry_file_def fresh_file_def Let_def)

lemma patch_renames:
  assumes "git_entry_ok e"
  shows "patch_lines (in_file files ((head_file e)\<lparr>pf_similarity := None\<rparr>) None old new) (git_rename_lines e) =
    Some (Inr (in_file files (head_file e) None old new))"
proof -
  have n: "ge_similarity e \<le> 100" using assms by (simp add: git_entry_ok_def)
  show ?thesis
    by (cases "ge_status e")
      (simp_all only: git_rename_lines_def patch_lines.simps header_steps similarity_step [OF n] option.case sum.case
          if_True if_False simp_thms file_status.distinct,
        simp_all add: head_file_def entry_file_def Let_def)
qed

lemma patch_index:
  "patch_lines (in_file files f None old new) (case ge_index e of None \<Rightarrow> [] | Some ids \<Rightarrow> [''index '' @ ids]) =
    Some (Inr (in_file files f None old new))"
  by (cases "ge_index e") (simp_all only: patch_lines.simps header_steps option.case sum.case)

lemma parse_git_names:
  "parse_patch_path (git_old_name e) = (if ge_status e = FS_Added then None else Some (ge_old_path e))"
  "parse_patch_path (git_new_name e) = (if ge_status e = FS_Deleted then None else Some (ge_new_path e))"
  by (simp_all add: parse_patch_path_def git_old_name_def git_new_name_def prefix_simps)

lemma patch_body:
  assumes "git_entry_ok e"
  shows "\<exists>f ho old' new'. patch_lines (in_file files (head_file e) None old new) (git_body_lines e) =
      Some (Inr (in_file files f ho old' new')) \<and> closed f ho = entry_file e"
proof (cases "ge_body e")
  case Git_Binary
  then show ?thesis
    by (simp only: git_body_lines_def git_body.case patch_lines.simps header_steps option.case sum.case)
      (force simp: closed_def head_file_def entry_file_def entry_hunks_def Let_def)
next
  case (Git_Text hs)
  have ok: "list_all git_hunk_ok hs" using assms Git_Text by (simp add: git_entry_ok_def)
  show ?thesis
  proof (cases "hs = []")
    case True
    with Git_Text show ?thesis
      by (force simp: git_body_lines_def closed_def head_file_def entry_file_def entry_hunks_def Let_def)
  next
    case False
    let ?f = "(head_file e)\<lparr>pf_old_path := parse_patch_path (git_old_name e), pf_new_path := parse_patch_path (git_new_name e)\<rparr>"
    have lines: "git_body_lines e =
        [''--- '' @ git_old_name e, ''+++ '' @ git_new_name e] @ concat (map git_hunk_lines hs)"
      using Git_Text False by (cases hs) (simp_all add: git_body_lines_def)
    have two: "patch_lines (in_file files (head_file e) None old new) [''--- '' @ git_old_name e, ''+++ '' @ git_new_name e] =
        Some (Inr (in_file files ?f None old new))"
      by (simp only: patch_lines.simps header_steps option.case sum.case)
    have "patch_key ?f = Some (entry_key e)"
      using assms by (auto simp: patch_key_def parse_git_names entry_key_def git_entry_ok_def)
    from patch_hunks [OF ok this, of files None old new] show ?thesis
      using False Git_Text
      by (simp only: lines patch_lines_append two option.case sum.case)
        (force simp: closed_def head_file_def entry_file_def entry_hunks_def parse_git_names Let_def)
  qed
qed

lemma patch_entry:
  assumes "git_entry_ok e"
  shows "\<exists>st'. patch_lines st (git_entry_lines e) = Some (Inr st') \<and> all_files st' = all_files st @ [entry_file e]"
proof -
  have p: "plain_path (ge_old_path e)" using assms by (simp add: git_entry_ok_def)
  obtain f ho old' new' where body: "patch_lines (in_file (all_files st) (head_file e) None (ps_old_line st) (ps_new_line st))
      (git_body_lines e) = Some (Inr (in_file (all_files st) f ho old' new'))" "closed f ho = entry_file e"
    using patch_body [OF assms] by blast
  have "patch_lines st (git_entry_lines e) = Some (Inr (in_file (all_files st) f ho old' new'))"
    unfolding git_entry_lines_def
    by (simp only: patch_lines_append patch_lines.simps patch_start_line [OF p] patch_modes [OF assms]
        patch_renames [OF assms] patch_index body(1) option.case sum.case)
  then show ?thesis using body(2) by (simp add: all_files_in_file)
qed

lemma patch_entries:
  assumes "list_all git_entry_ok es"
  shows "\<exists>st'. patch_lines st (concat (map git_entry_lines es)) = Some (Inr st') \<and>
    all_files st' = all_files st @ map entry_file es"
  using assms
proof (induction es arbitrary: st)
  case (Cons e es)
  obtain st' where "patch_lines st (git_entry_lines e) = Some (Inr st')" "all_files st' = all_files st @ [entry_file e]"
    using patch_entry [of e st] Cons.prems by auto
  then show ?case using Cons.IH [of st'] Cons.prems by (auto simp: patch_lines_append)
qed simp

text \<open>The text of a patch is valid and splits into its lines.\<close>

definition text_ok :: "string \<Rightarrow> bool" where
  "text_ok s \<longleftrightarrow> valid_utf8 s \<and> is_line s"

lemma text_ok_append [simp]: "text_ok a \<Longrightarrow> text_ok b \<Longrightarrow> text_ok (a @ b)"
  by (auto simp: text_ok_def is_line_def strip_cr_eq last_append intro: valid_utf8_append)

lemma text_ok_printable: "list_all (\<lambda>c. 32 \<le> byte c \<and> byte c \<le> 126) s \<Longrightarrow> text_ok s"
proof -
  assume s: "list_all (\<lambda>c. 32 \<le> byte c \<and> byte c \<le> 126) s"
  have "byte (CHR 0x0A) = 10" "byte (CHR 0x0D) = 13" by (simp_all add: byte_def)
  with s have n: "CHR 0x0A \<notin> set s" "CHR 0x0D \<notin> set s" by (force simp: list_all_iff)+
  then have "is_line s" unfolding is_line_def strip_cr_eq by (metis last_in_set)
  moreover have "ascii s" using s by (auto simp: ascii_def list_all_iff)
  ultimately show ?thesis by (simp add: text_ok_def ascii_valid_utf8)
qed

lemma text_ok_visible: "visible s \<Longrightarrow> text_ok s"
  by (rule text_ok_printable) (auto simp: visible_def list_all_iff)

lemma text_ok_plain: "plain_path p \<Longrightarrow> text_ok p"
  by (simp add: plain_path_def text_ok_visible)

lemma visible_mode: "git_mode_ok m \<Longrightarrow> visible m"
  by (auto simp: git_mode_ok_def visible_def list_all_iff is_ascii_digit_byte)

lemma text_ok_Cons: "32 \<le> byte c \<Longrightarrow> byte c \<le> 126 \<Longrightarrow> text_ok s \<Longrightarrow> text_ok (c # s)"
  using text_ok_append [of "[c]" s] text_ok_printable [of "[c]"] by simp

lemma git_row_lines_ok:
  assumes "git_row_ok r"
  shows "list_all text_ok (git_row_lines r)"
proof -
  have "text_ok (git_marker (gr_kind r) # gr_text r)"
    using assms by (intro text_ok_Cons; cases "gr_kind r") (simp_all add: git_marker_def git_row_ok_def text_ok_def byte_def)
  moreover have "text_ok (CHR 0x5C # '' No newline at end of file'')"
    by (rule text_ok_printable) (simp add: byte_def)
  ultimately show ?thesis by (simp add: git_row_lines_def)
qed

text \<open>The fixed parts of the format.\<close>

lemma text_ok_parts:
  "text_ok ''@@ -''" "text_ok '' +''" "text_ok '' @@''" "text_ok ''diff --git a/''" "text_ok '' b/''" "text_ok ''new file mode ''"
  "text_ok ''deleted file mode ''" "text_ok ''old mode ''" "text_ok ''new mode ''" "text_ok ''similarity index ''" "text_ok ''%''"
  "text_ok ''rename from ''" "text_ok ''rename to ''" "text_ok ''copy from ''" "text_ok ''copy to ''" "text_ok ''/dev/null''"
  "text_ok ''a/''" "text_ok ''b/''" "text_ok ''Binary files ''" "text_ok '' and ''" "text_ok '' differ''" "text_ok ''--- ''"
  "text_ok ''+++ ''" "text_ok ''index ''"
  by (rule text_ok_printable, simp add: byte_def)+

lemma git_hunk_header_ok: "git_hunk_ok h \<Longrightarrow> text_ok (git_hunk_header h)"
proof -
  assume "git_hunk_ok h"
  then have s: "text_ok (gh_section h)" by (simp add: git_hunk_ok_def text_ok_def)
  have r: "text_ok (git_range s l)" for s l
    by (rule text_ok_visible) (simp add: git_range_def byte_def)
  show ?thesis unfolding git_hunk_header_def by (intro text_ok_append text_ok_parts r s)
qed

lemma git_hunk_lines_ok: "git_hunk_ok h \<Longrightarrow> list_all text_ok (git_hunk_lines h)"
  using git_hunk_header_ok [of h] git_row_lines_ok
  by (fastforce simp: git_hunk_lines_def git_hunk_ok_def list_all_iff)

lemma git_entry_lines_ok:
  assumes "git_entry_ok e"
  shows "list_all text_ok (git_entry_lines e)"
proof -
  have p: "text_ok (ge_old_path e)" "text_ok (ge_new_path e)" and m: "text_ok (ge_old_mode e)" "text_ok (ge_new_mode e)"
    using assms by (simp_all add: git_entry_ok_def text_ok_plain text_ok_visible visible_mode)
  have n: "text_ok (dec_digits k)" for k by (simp add: text_ok_visible)
  have names: "text_ok (git_old_name e)" "text_ok (git_new_name e)"
    using text_ok_append [OF text_ok_parts(17) p(1)] text_ok_append [OF text_ok_parts(18) p(2)] text_ok_parts(16)
    by (simp_all add: git_old_name_def git_new_name_def)
  have i: "text_ok (''index '' @ ids)" if "ge_index e = Some ids" for ids
    using assms that by (intro text_ok_append [OF text_ok_parts(24)]) (simp add: git_entry_ok_def text_ok_def)
  have h: "list_all text_ok (concat (map git_hunk_lines hs))" if "ge_body e = Git_Text hs" for hs
    using assms that git_hunk_lines_ok by (fastforce simp: git_entry_ok_def list_all_iff)
  have first: "text_ok (''diff --git a/'' @ ge_old_path e @ '' b/'' @ ge_new_path e)"
    by (intro text_ok_append text_ok_parts p)
  have "list_all text_ok (git_mode_lines e)"
    unfolding git_mode_lines_def by (auto simp only: list.pred_inject split: if_split intro!: text_ok_append text_ok_parts m)
  moreover have "list_all text_ok (git_rename_lines e)"
    unfolding git_rename_lines_def by (auto simp only: list.pred_inject split: if_split intro!: text_ok_append text_ok_parts p n)
  moreover have "list_all text_ok (case ge_index e of None \<Rightarrow> [] | Some ids \<Rightarrow> [''index '' @ ids])"
    by (auto simp only: list.pred_inject split: option.split intro: i)
  moreover have "list_all text_ok (git_body_lines e)"
    unfolding git_body_lines_def using h
    by (auto simp only: list.pred_inject list_all_append split: git_body.split list.split intro!: text_ok_append text_ok_parts names)
  ultimately show ?thesis using first unfolding git_entry_lines_def by (simp only: list_all_append list.pred_inject simp_thms)
qed

lemma parse_git_patch:
  assumes "list_all git_entry_ok (concat (map git_entries cs))"
  shows "parse_patch (from_utf8_lossy (git_patch cs)) = Some (Inr (map entry_file (concat (map git_entries cs))))"
proof -
  let ?es = "concat (map git_entries cs)"
  let ?ls = "concat (map git_entry_lines ?es)"
  have ok: "list_all text_ok ?ls" using assms git_entry_lines_ok by (fastforce simp: list_all_iff)
  have "valid_utf8 (l @ [CHR 0x0A])" if "text_ok l" for l
    using that ascii_valid_utf8 [of "[CHR 0x0A]"] by (intro valid_utf8_append) (simp_all add: text_ok_def byte_def)
  then have "valid_utf8 (git_patch cs)"
    using ok unfolding git_patch_def unlines_def by (intro valid_utf8_concat) (auto simp: list_all_iff)
  moreover have "str_lines (git_patch cs) = ?ls"
    using ok unfolding git_patch_def by (intro str_lines_unlines) (auto simp: list_all_iff text_ok_def)
  moreover obtain st where "patch_lines patch_start ?ls = Some (Inr st)" "all_files st = all_files patch_start @ map entry_file ?es"
    using patch_entries [OF assms, of patch_start] by blast
  ultimately show ?thesis
    by (simp add: parse_patch_def from_utf8_lossy_valid all_files_def patch_start_def finish_hunk_def take_file_def)
qed

section \<open>Reading the raw listing\<close>
























section \<open>The files of a diff\<close>
















section \<open>Hunks of any patch\<close>

text \<open>A row has the line numbers its kind calls for, and the numbers run on from the start of the hunk.\<close>

fun rows_numbered :: "32 word \<Rightarrow> 32 word \<Rightarrow> diff_row list \<Rightarrow> bool" where
  "rows_numbered old new [] = True"
| "rows_numbered old new (r # rs) =
     (case dr_kind r of
        Row_Context \<Rightarrow> dr_old_line r = Some old \<and> dr_new_line r = Some new \<and> rows_numbered (old + 1) (new + 1) rs
      | Row_Added \<Rightarrow> dr_old_line r = None \<and> dr_new_line r = Some new \<and> rows_numbered old (new + 1) rs
      | Row_Removed \<Rightarrow> dr_old_line r = Some old \<and> dr_new_line r = None \<and> rows_numbered (old + 1) new rs)"

definition hunk_wf :: "review_hunk \<Rightarrow> bool" where
  "hunk_wf h \<longleftrightarrow>
     rows_numbered (rh_old_start h) (rh_new_start h) (rh_rows h) \<and>
     parse_hunk_header (rh_header h) = Inr (rh_old_start h, rh_old_lines h, rh_new_start h, rh_new_lines h)"

definition file_wf :: "patch_file \<Rightarrow> bool" where
  "file_wf f \<longleftrightarrow> list_all hunk_wf (pf_hunks f)"

definition rows_on :: "(diff_row \<Rightarrow> 32 word option) \<Rightarrow> diff_row list \<Rightarrow> 32 word" where
  "rows_on line rs = of_nat (length (filter (\<lambda>r. line r \<noteq> None) rs))"

definition state_wf :: "patch_state \<Rightarrow> bool" where
  "state_wf st \<longleftrightarrow>
     list_all file_wf (ps_files st) \<and>
     (case ps_current_file st of None \<Rightarrow> True | Some f \<Rightarrow> file_wf f) \<and>
     (case ps_current_hunk st of
        None \<Rightarrow> True
      | Some h \<Rightarrow>
          hunk_wf h \<and> ps_old_line st = rh_old_start h + rows_on dr_old_line (rh_rows h) \<and>
          ps_new_line st = rh_new_start h + rows_on dr_new_line (rh_rows h))"

lemma rows_on_simps:
  "rows_on line [] = 0"
  "rows_on line (r # rs) = (if line r = None then 0 else 1) + rows_on line rs"
  "rows_on line (rs @ [r]) = rows_on line rs + (if line r = None then 0 else 1)"
  by (simp_all add: rows_on_def)

definition row_numbered :: "32 word \<Rightarrow> 32 word \<Rightarrow> diff_row \<Rightarrow> bool" where
  "row_numbered old new r = rows_numbered old new [r]"

lemma rows_numbered_append:
  "rows_numbered old new (rs @ [r]) \<longleftrightarrow>
     rows_numbered old new rs \<and> row_numbered (old + rows_on dr_old_line rs) (new + rows_on dr_new_line rs) r"
proof (induction rs arbitrary: old new)
  case (Cons s rs)
  then show ?case
    by (cases "dr_kind s") (auto simp: rows_on_simps add.assoc)
qed (simp add: rows_on_simps row_numbered_def)

lemma option_or_Some: "option_or a b = Some x \<longleftrightarrow> a = Some x \<or> a = None \<and> b = Some x"
  by (cases a) simp_all

lemma read_similarity_hunks: "read_similarity f s = Inr f' \<Longrightarrow> pf_hunks f' = pf_hunks f"
  by (auto simp: read_similarity_def split: sum.splits)

lemma file_line_hunks: "file_line f line = Some (Inr f') \<Longrightarrow> pf_hunks f' = pf_hunks f"
  unfolding file_line_def option_or_Some
  by (elim disjE conjE) (auto dest: read_similarity_hunks split: if_splits)

lemma finish_hunk_wf: "state_wf st \<Longrightarrow> state_wf (finish_hunk st)"
  by (auto simp: state_wf_def finish_hunk_def file_wf_def split: option.splits)

lemma take_file_wf: "state_wf st \<Longrightarrow> state_wf (take_file st)"
  by (auto simp: state_wf_def take_file_def split: option.splits)

lemma start_file_wf: "state_wf st \<Longrightarrow> state_wf (start_file st line)"
  using take_file_wf [OF finish_hunk_wf, of st]
  by (auto simp: state_wf_def start_file_def file_wf_def split: option.splits)

lemma start_hunk_wf: "state_wf st \<Longrightarrow> start_hunk st f line = Some (Inr st') \<Longrightarrow> state_wf st'"
  using finish_hunk_wf [of st]
  by (auto simp: start_hunk_def state_wf_def hunk_wf_def rows_on_simps and_then_eq_Inr_iff split: option.splits)

lemma row_line_wf: "state_wf st \<Longrightarrow> row_line st line = Some (Inr st') \<Longrightarrow> state_wf st'"
  by (auto simp: row_line_def state_wf_def hunk_wf_def push_row_def rows_numbered_append Let_def
      row_numbered_def rows_on_simps split: option.splits list.splits if_splits)

lemma state_wf_file: "state_wf st \<Longrightarrow> ps_current_file st = Some f \<Longrightarrow> pf_hunks f' = pf_hunks f \<Longrightarrow>
    state_wf (st\<lparr>ps_current_file := Some f'\<rparr>)"
  by (cases "ps_current_hunk st") (simp_all add: state_wf_def file_wf_def)

lemma patch_line_wf:
  assumes "state_wf st" and "patch_line st line = Some (Inr st')"
  shows "state_wf st'"
proof (cases "starts_with ''diff --git '' line \<or> ps_current_file st = None")
  case True
  then show ?thesis using assms start_file_wf [of st line] by (auto simp: patch_line_def split: if_splits)
next
  case False
  then obtain f where f: "\<not> starts_with ''diff --git '' line" "ps_current_file st = Some f" by auto
  show ?thesis
  proof (cases "file_line f line")
    case None
    then show ?thesis
      using assms f start_hunk_wf [OF assms(1)] row_line_wf [OF assms(1)]
      by (simp only: patch_line_def if_False option.case) (metis (full_types))
  next
    case (Some r)
    then obtain f' where "file_line f line = Some (Inr f')" "st' = st\<lparr>ps_current_file := Some f'\<rparr>"
      using assms(2) f by (cases r) (simp_all add: patch_line_def)
    then show ?thesis using state_wf_file [OF assms(1) f(2)] file_line_hunks by blast
  qed
qed

lemma patch_lines_wf: "state_wf st \<Longrightarrow> patch_lines st ls = Some (Inr st') \<Longrightarrow> state_wf st'"
  by (induction ls arbitrary: st) (auto intro: patch_line_wf split: option.splits sum.splits)

section \<open>Properties\<close>

definition demo_entry :: git_entry where
  "demo_entry =
     \<lparr>ge_status = FS_Modified, ge_old_mode = ''100644'', ge_new_mode = ''100644'', ge_old_oid = ''a1'', ge_new_oid = ''b2'',
      ge_old_path = ''src/x.rs'', ge_new_path = ''src/x.rs'', ge_similarity = 0, ge_index = Some ''a1..b2 100644'',
      ge_body = Git_Text
        [\<lparr>gh_old_start = 1, gh_old_lines = 2, gh_new_start = 1, gh_new_lines = 2, gh_section = '' fn f'',
          gh_rows =
            [\<lparr>gr_kind = Row_Context, gr_text = ''a'', gr_no_newline = False\<rparr>,
             \<lparr>gr_kind = Row_Removed, gr_text = ''--b'', gr_no_newline = False\<rparr>,
             \<lparr>gr_kind = Row_Added, gr_text = ''c'', gr_no_newline = True\<rparr>]\<rparr>]\<rparr>"

definition demo_changes :: "git_change list" where
  "demo_changes =
     [Git_Change demo_entry,
      Git_Change (demo_entry\<lparr>ge_status := FS_Renamed, ge_old_path := ''p'', ge_new_path := ''q'', ge_similarity := 95,
        ge_body := Git_Text []\<rparr>),
      Git_Type_Change
        (demo_entry\<lparr>ge_status := FS_Deleted, ge_new_mode := ''000000'', ge_old_path := ''l'', ge_new_path := ''l''\<rparr>)
        (demo_entry\<lparr>ge_status := FS_Added, ge_old_mode := ''000000'', ge_new_mode := ''120000'', ge_old_path := ''l'', ge_new_path := ''l''\<rparr>)]"



text \<open>C23. Whatever text it is given, the parser returns well-formed hunks: the ranges of a hunk are those of its
  header, a context row has both line numbers, an added row only the new one and a removed row
  only the old one, and on each side the numbers run on from the start of the hunk without gaps.\<close>

theorem parsed_hunks_well_formed:
  assumes "parse_patch patch = Some (Inr files)"
  shows "list_all (\<lambda>file. list_all hunk_wf (pf_hunks file)) files"
proof -
  obtain st where st: "patch_lines patch_start (str_lines patch) = Some (Inr st)"
    and files: "files = ps_files (take_file (finish_hunk st))"
    using assms by (auto simp: parse_patch_def split: option.splits sum.splits)
  have "state_wf patch_start" by (simp add: state_wf_def patch_start_def)
  then have "state_wf (take_file (finish_hunk st))"
    using patch_lines_wf [OF _ st] take_file_wf finish_hunk_wf by blast
  then show ?thesis unfolding files state_wf_def file_wf_def by blast
qed

theorem parsed_hunks_well_formed_witness:
  "\<exists>files. parse_patch (git_patch demo_changes) = Some (Inr files) \<and> length files = 4 \<and>
    list_all (\<lambda>file. list_all hunk_wf (pf_hunks file)) files"
proof -
  have e: "list_all git_entry_ok (concat (map git_entries demo_changes))" by code_simp
  have "from_utf8_lossy (git_patch demo_changes) = git_patch demo_changes" by code_simp
  then have p: "parse_patch (git_patch demo_changes) = Some (Inr (map entry_file (concat (map git_entries demo_changes))))"
    using parse_git_patch [OF e] by simp
  moreover have "length (concat (map git_entries demo_changes)) = 4" by code_simp
  ultimately show ?thesis using parsed_hunks_well_formed [OF p] by simp
qed

text \<open>C39. A removed row whose text starts with two dashes and a space is lost: \<open>git\<close> prints it as a line that
  starts with \<open>---\<close>, which the parser takes for the name of the old file even within a hunk.
  Whatever follows the dashes, the row is dropped, the path is overwritten, and the old line
  number of the next row is one too low.\<close>

theorem removed_dashes_row_lost:
  "\<exists>st file. patch_lines patch_start
      [''diff --git a/q.sql b/q.sql'', ''--- a/q.sql'', ''+++ b/q.sql'', ''@@ -1,3 +1,2 @@'', '' a'', ''--- '' @ s, '' b''] =
        Some (Inr st) \<and>
     ps_files (take_file (finish_hunk st)) = [file] \<and> pf_old_path file = parse_patch_path s \<and>
     map (\<lambda>h. map (\<lambda>r. (dr_text r, dr_old_line r, dr_new_line r)) (rh_rows h)) (pf_hunks file) =
       [[(''a'', Some 1, Some 1), (''b'', Some 2, Some 2)]]"
proof -
  have w: "split_whitespace ''@@ -1,3 +1,2 @@'' = [''@@'', ''-1,3'', ''+1,2'', ''@@'']" by code_simp
  have r: "parse_hunk_header ''@@ -1,3 +1,2 @@'' = Inr (1, 3, 1, 2)" by code_simp
  have p: "diff_git_path ''diff --git a/q.sql b/q.sql'' CHR ''a'' = Some ''q.sql''"
    "diff_git_path ''diff --git a/q.sql b/q.sql'' CHR ''b'' = Some ''q.sql''" by code_simp+
  show ?thesis
    by (simp add: patch_line_def start_file_def patch_start_def finish_hunk_def take_file_def file_line_def prefix_simps p
        start_hunk_def patch_key_def parse_patch_path_def r row_line_def push_row_def is_char_boundary_1_def continuation_def byte_def
        del: strip_prefix_append)
qed

end
