(* ===== verification/Instant.thy ===== *)
theory Instant
  imports Canonical_Json "HOL-Library.Monad_Syntax" "HOL-Library.Signed_Division"
begin

text \<open>
  Instants (\<open>src/src/session/identity/instant.rs\<close>): the hand-written RFC 3339 parser and printer and
  the civil-calendar arithmetic under them. Every \<open>i64\<close> is an \<open>int\<close>; the bounds proved below show
  that no intermediate value leaves the range. The \<open>/\<close> and \<open>%\<close> of \<open>i64\<close>, which round towards zero,
  are \<open>sdiv\<close> and \<open>smod\<close>; \<open>div_euclid\<close> and \<open>rem_euclid\<close> by a positive number are \<open>div\<close> and \<open>mod\<close>.
\<close>

section \<open>Strings of the standard library\<close>

fun str_split :: "char \<Rightarrow> string \<Rightarrow> string list" where
  "str_split c [] = [[]]"
| "str_split c (x # xs) =
     (if x = c then [] # str_split c xs
      else case str_split c xs of [] \<Rightarrow> [[x]] | p # ps \<Rightarrow> (x # p) # ps)"

fun split_once :: "char \<Rightarrow> string \<Rightarrow> (string \<times> string) option" where
  "split_once c [] = None"
| "split_once c (x # xs) =
     (if x = c then Some ([], xs) else map_option (map_prod (Cons x) id) (split_once c xs))"

definition strip_suffix :: "char \<Rightarrow> string \<Rightarrow> string option" where
  "strip_suffix c s = (if s \<noteq> [] \<and> last s = c then Some (butlast s) else None)"

fun int_digits :: "int \<Rightarrow> string" where
  "int_digits n = (if n < 10 then [char_of (48 + n)] else int_digits (n div 10) @ [char_of (48 + n mod 10)])"

declare int_digits.simps [simp del]

definition int_value :: "string \<Rightarrow> int" where
  "int_value s = foldl (\<lambda>n c. 10 * n + (of_char c - 48)) 0 s"

text \<open>\<open>str::parse::<i64>\<close>: an optional sign, at least one digit, no overflow.\<close>

definition parse_i64 :: "string \<Rightarrow> int option" where
  "parse_i64 s =
     (let (negative, digits) =
            (case s of
               [] \<Rightarrow> (False, [])
             | c # ds \<Rightarrow> if c = CHR ''-'' then (True, ds) else if c = CHR ''+'' then (False, ds) else (False, s));
          v = (if negative then - int_value digits else int_value digits)
      in if digits = [] \<or> \<not> list_all is_ascii_digit digits then None
         else if - (2 ^ 63) \<le> v \<and> v < 2 ^ 63 then Some v else None)"

text \<open>\<open>{n:0w}\<close> of \<open>format!\<close>: a sign counts towards the width.\<close>

definition pad_int :: "nat \<Rightarrow> int \<Rightarrow> string" where
  "pad_int w n =
     (let ds = int_digits \<bar>n\<bar>
      in if n < 0 then CHR ''-'' # replicate (w - 1 - length ds) CHR ''0'' @ ds
         else replicate (w - length ds) CHR ''0'' @ ds)"

section \<open>The calendar\<close>

definition is_leap_year :: "int \<Rightarrow> bool" where
  "is_leap_year year \<longleftrightarrow> (year smod 4 = 0 \<and> year smod 100 \<noteq> 0) \<or> year smod 400 = 0"

definition days_in_month :: "int \<Rightarrow> int \<Rightarrow> int option" where
  "days_in_month year month =
     (if month \<in> {1, 3, 5, 7, 8, 10, 12} then Some 31
      else if month \<in> {4, 6, 9, 11} then Some 30
      else if month = 2 then (if is_leap_year year then Some 29 else Some 28)
      else None)"

definition days_from_civil :: "int \<Rightarrow> int \<Rightarrow> int \<Rightarrow> int" where
  "days_from_civil year month day =
     (let year = year - (if month \<le> 2 then 1 else 0);
          era = (if year \<ge> 0 then year else year - 399) sdiv 400;
          year_of_era = year - era * 400;
          day_of_year = (153 * (if month > 2 then month - 3 else month + 9) + 2) sdiv 5 + day - 1;
          day_of_era = year_of_era * 365 + year_of_era sdiv 4 - year_of_era sdiv 100 + day_of_year
      in era * 146097 + day_of_era - 719468)"

definition civil_from_days :: "int \<Rightarrow> int \<times> int \<times> int" where
  "civil_from_days z =
     (let z = z + 719468;
          era = (if z \<ge> 0 then z else z - 146096) sdiv 146097;
          doe = z - era * 146097;
          yoe = (doe - doe sdiv 1460 + doe sdiv 36524 - doe sdiv 146096) sdiv 365;
          y = yoe + era * 400;
          doy = doe - (365 * yoe + yoe sdiv 4 - yoe sdiv 100);
          mp = (5 * doy + 2) sdiv 153;
          d = doy - (153 * mp + 2) sdiv 5 + 1;
          m = (if mp < 10 then mp + 3 else mp - 9)
      in (if m \<le> 2 then y + 1 else y, m, d))"

section \<open>Parsing and printing\<close>

definition parse_fixed_digits :: "string \<Rightarrow> nat \<Rightarrow> int option" where
  "parse_fixed_digits value width =
     (if length value \<noteq> width \<or> \<not> list_all is_ascii_digit value then None else parse_i64 value)"

definition parse_fraction_millis :: "string \<Rightarrow> int option" where
  "parse_fraction_millis fraction =
     (if fraction = [] \<or> \<not> list_all is_ascii_digit fraction then None
      else parse_i64 (take 3 fraction @ drop (min (length fraction) 3) ''000''))"

text \<open>The three fields of a date or a clock, and nothing after them.\<close>

definition parse_fields :: "nat \<Rightarrow> string list \<Rightarrow> (int \<times> int \<times> int) option" where
  "parse_fields width parts =
     (case parts of
        [a, b, c] \<Rightarrow> do {
          a \<leftarrow> parse_fixed_digits a width;
          b \<leftarrow> parse_fixed_digits b 2;
          c \<leftarrow> parse_fixed_digits c 2;
          Some (a, b, c)
        }
      | _ \<Rightarrow> None)"

definition parse_rfc3339_utc_millis :: "string \<Rightarrow> int option" where
  "parse_rfc3339_utc_millis value = do {
     body \<leftarrow> strip_suffix CHR ''Z'' value;
     (date, time) \<leftarrow> split_once CHR ''T'' body;
     (year, month, day) \<leftarrow> parse_fields 4 (str_split CHR ''-'' date);
     if \<not> (1 \<le> month \<and> month \<le> 12) then None
     else do {
       days \<leftarrow> days_in_month year month;
       if \<not> (1 \<le> day \<and> day \<le> days) then None
       else do {
         (clock, fraction_millis) \<leftarrow>
           (case split_once CHR ''.'' time of
              Some (clock, fraction) \<Rightarrow> map_option (Pair clock) (parse_fraction_millis fraction)
            | None \<Rightarrow> Some (time, 0));
         (hour, minute, second) \<leftarrow> parse_fields 2 (str_split CHR '':'' clock);
         if hour > 23 \<or> minute > 59 \<or> second > 60 then None
         else
           let days = days_from_civil year month day;
               seconds = ((days * 24 + hour) * 60 + minute) * 60 + second
           in Some (seconds * 1000 + fraction_millis)
       }
     }
   }"

definition parse_event_instant :: "string \<Rightarrow> int option" where
  "parse_event_instant value =
     (case strip_prefix ''unix-ms:'' value of
        Some millis \<Rightarrow> if millis = [] then None else parse_i64 millis
      | None \<Rightarrow> parse_rfc3339_utc_millis value)"

definition format_rfc3339_utc_millis :: "int \<Rightarrow> string" where
  "format_rfc3339_utc_millis millis =
     (let total_seconds = millis div 1000;
          millis_of_second = millis mod 1000;
          days = total_seconds div 86400;
          secs_of_day = total_seconds mod 86400;
          (year, month, day) = civil_from_days days;
          hour = secs_of_day sdiv 3600;
          minute = (secs_of_day smod 3600) sdiv 60;
          second = secs_of_day smod 60
      in pad_int 4 year @ ''-'' @ pad_int 2 month @ ''-'' @ pad_int 2 day @ ''T'' @
         pad_int 2 hour @ '':'' @ pad_int 2 minute @ '':'' @ pad_int 2 second @ ''.'' @
         pad_int 3 millis_of_second @ ''Z'')"


datatype rust_ordering = Less | Equal | Greater

definition cmp :: "'a::linorder \<Rightarrow> 'a \<Rightarrow> rust_ordering" where
  "cmp x y = (if x < y then Less else if x = y then Equal else Greater)"

definition compare_event_instants :: "string \<Rightarrow> string \<Rightarrow> rust_ordering" where
  "compare_event_instants left right =
     (case (parse_event_instant left, parse_event_instant right) of
        (Some left, Some right) \<Rightarrow> cmp left right
      | (None, None) \<Rightarrow> cmp left right
      | (None, Some _) \<Rightarrow> Less
      | (Some _, None) \<Rightarrow> Greater)"

section \<open>The calendar is a bijection\<close>

lemma sdiv_nonneg [simp]: "0 \<le> a \<Longrightarrow> 0 < b \<Longrightarrow> a sdiv b = a div (b::int)"
  by (cases "a = 0") (simp_all add: signed_divide_int_def)

lemma smod_nonneg [simp]: "0 \<le> a \<Longrightarrow> 0 < b \<Longrightarrow> a smod b = a mod (b::int)"
  by (cases "a = 0") (simp_all add: signed_modulo_int_def)

lemma smod_zero_iff: "a smod b = 0 \<longleftrightarrow> a mod (b::int) = 0"
  by (auto simp: signed_modulo_int_def sgn_0_0 mod_eq_0_iff_dvd)

lemma leap_iff: "is_leap_year y \<longleftrightarrow> (y mod 4 = 0 \<and> y mod 100 \<noteq> 0) \<or> y mod 400 = 0"
  by (simp add: is_leap_year_def smod_zero_iff)

lemma sdiv_floor:
  assumes "0 < (k::int)"
  shows "(if y \<ge> 0 then y else y - (k - 1)) sdiv k = y div k"
proof (cases "y \<ge> 0")
  case False
  have "(k - 1 - y) div k = - (y div k)"
    by (rule int_div_pos_eq [where r = "k - 1 - y mod k"])
      (use assms pos_mod_bound [OF assms, of y] pos_mod_sign [OF assms, of y] in \<open>auto simp: algebra_simps minus_mult_div_eq_mod [symmetric]\<close>)
  with False assms show ?thesis by (simp add: signed_divide_int_def)
qed (use assms in simp)

lemma era_400: "(if y \<ge> 0 then y else y - 399) sdiv 400 = y div (400::int)"
  and era_146097: "(if z \<ge> 0 then z else z - 146096) sdiv 146097 = z div (146097::int)"
  using sdiv_floor [of 400 y] sdiv_floor [of 146097 z] by (simp_all split: if_splits)

lemma era_div: "(e * 400 + r) div 4 = e * 100 + r div (4::int)" "(e * 400 + r) div 100 = e * 4 + r div (100::int)"
  "(e * 400 + r) div 400 = e + r div (400::int)"
  using div_mult_self2 [of 4 r "e * 100"] div_mult_self2 [of 100 r "e * 4"] div_mult_self2 [of 400 r e]
  by (simp_all add: algebra_simps)

lemma era_mod: "(e * 400 + r) mod 4 = r mod (4::int)" "(e * 400 + r) mod 100 = r mod (100::int)"
  "(e * 400 + r) mod 400 = r mod (400::int)"
  using mod_mult_self2 [of r 4 "e * 100"] mod_mult_self2 [of r 100 "e * 4"] mod_mult_self2 [of r 400 e]
  by (simp_all add: algebra_simps)

lemma div_next:
  assumes "0 < (k::int)"
  shows "(y + 1) div k = y div k + (if (y + 1) mod k = 0 then 1 else 0)"
proof (cases "(y + 1) mod k = 0")
  case True
  then obtain q where "y + 1 = k * q" by (auto simp: mod_eq_0_iff_dvd)
  then have y: "y = k * (q - 1) + (k - 1)" by (simp add: algebra_simps)
  have "y div k = q - 1" by (rule int_div_pos_eq [OF y]) (use assms in auto)
  with True \<open>y + 1 = k * q\<close> assms show ?thesis by simp
next
  case False
  have y: "y + 1 = k * (y div k) + (y mod k + 1)" by simp
  have "y mod k + 1 \<noteq> k" using False y by (metis mod_mult_self2_is_0 mult.commute mult.right_neutral distrib_left)
  then have "(y + 1) div k = y div k"
    by (intro int_div_pos_eq [OF y]) (use pos_mod_bound [OF assms, of y] pos_mod_sign [OF assms, of y] in auto)
  with False show ?thesis by simp
qed

text \<open>Days before a year that starts in March, of the calendar and of an era.\<close>

definition year_start :: "int \<Rightarrow> int" where
  "year_start y = 365 * y + y div 4 - y div 100 + y div 400"

definition year_end :: "int \<Rightarrow> int" where
  "year_end y = year_start y + (if is_leap_year (y + 1) then 365 else 364)"

definition year_of_day :: "int \<Rightarrow> int" where
  "year_of_day doe = (doe - doe div 1460 + doe div 36524 - doe div 146096) div 365"

definition month_start :: "int \<Rightarrow> int" where
  "month_start mp = (153 * mp + 2) div 5"

lemma year_start_era: "year_start (e * 400 + r) = e * 146097 + year_start r"
  by (simp add: year_start_def era_div)

lemma year_end_era: "year_end (e * 400 + r) = e * 146097 + year_end r"
proof -
  have "is_leap_year (e * 400 + r + 1) = is_leap_year (r + 1)"
    using era_mod [of e "r + 1"] by (simp add: leap_iff add.assoc)
  then show ?thesis by (simp add: year_end_def year_start_era)
qed

lemma year_next: "year_start (y + 1) = year_end y + 1"
proof -
  have "(y + 1) mod 400 = 0 \<Longrightarrow> (y + 1) mod 100 = 0" "(y + 1) mod 100 = 0 \<Longrightarrow> (y + 1) mod 4 = 0"
    using dvd_trans [of 100 400 "y + 1"] dvd_trans [of 4 100 "y + 1"] by (simp_all add: mod_eq_0_iff_dvd)
  then show ?thesis by (simp add: year_end_def year_start_def leap_iff div_next)
qed

definition leap_shift :: "int \<Rightarrow> int" where
  "leap_shift doe = doe - doe div 1460 + doe div 36524 - doe div 146096"

lemma leap_shift_step:
  assumes "0 \<le> n" and "n < 146096"
  shows "leap_shift n \<le> leap_shift (n + 1)"
proof (cases "n = 146095")
  case False
  have shift: "c' = c \<Longrightarrow> a' \<le> a + 1 \<Longrightarrow> b \<le> b' \<Longrightarrow> n - a + b - c \<le> n + 1 - a' + b' - c'" for a b c a' b' c' :: int
    by simp
  have "(n + 1) div 146096 = n div 146096" using assms False by (simp add: div_pos_pos_trivial)
  moreover have "(n + 1) div 1460 \<le> n div 1460 + 1" by (simp add: div_next)
  moreover have "n div 36524 \<le> (n + 1) div 36524" by (rule zdiv_mono1) simp_all
  ultimately show ?thesis unfolding leap_shift_def by (rule shift)
qed (simp add: leap_shift_def)

lemma leap_shift_mono: "a \<le> b \<Longrightarrow> 0 \<le> a \<Longrightarrow> b \<le> 146096 \<Longrightarrow> leap_shift a \<le> leap_shift b"
proof (induction b rule: int_ge_induct)
  case (step i)
  then show ?case using leap_shift_step [of i] by simp
qed simp

lemma year_of_day_mono: "0 \<le> a \<Longrightarrow> a \<le> b \<Longrightarrow> b \<le> 146096 \<Longrightarrow> year_of_day a \<le> year_of_day b"
  unfolding year_of_day_def leap_shift_def [symmetric] by (simp add: zdiv_mono1 leap_shift_mono)

lemma year_table:
  assumes "0 \<le> y" and "y \<le> 399"
  shows "year_of_day (year_start y) = y" and "year_of_day (year_end y) = y"
    and "0 \<le> year_start y" and "year_start y \<le> year_end y" and "year_end y \<le> 146096"
proof -
  have "list_all (\<lambda>y. year_of_day (year_start y) = y \<and> year_of_day (year_end y) = y \<and> 0 \<le> year_start y \<and>
      year_start y \<le> year_end y \<and> year_end y \<le> 146096) [0..399]"
    by code_simp
  then show "year_of_day (year_start y) = y" "year_of_day (year_end y) = y" "0 \<le> year_start y"
    "year_start y \<le> year_end y" "year_end y \<le> 146096"
    using assms by (simp_all add: list_all_iff)
qed


lemma year_of_day_bounds:
  assumes "0 \<le> doe" and "doe \<le> 146096"
  shows "0 \<le> year_of_day doe" and "year_of_day doe \<le> 399"
    and "year_start (year_of_day doe) \<le> doe" and "doe \<le> year_end (year_of_day doe)"
proof -
  have ends: "year_start 0 = 0" "year_end 399 = 146096" "year_of_day 0 = 0" "year_of_day 146096 = 399" by code_simp+
  let ?y = "year_of_day doe"
  show lo: "0 \<le> ?y" using year_of_day_mono [of 0 doe] assms ends by simp
  show hi: "?y \<le> 399" using year_of_day_mono [of doe 146096] assms ends by simp
  show "year_start ?y \<le> doe"
  proof (rule ccontr)
    assume "\<not> year_start ?y \<le> doe"
    then have "1 \<le> ?y" "doe \<le> year_end (?y - 1)" using lo ends(1) assms year_next [of "?y - 1"] by (cases "?y = 0", auto)
    then show False using year_of_day_mono [of doe "year_end (?y - 1)"] year_table [of "?y - 1"] assms hi by simp
  qed
  show "doe \<le> year_end ?y" 
  proof (rule ccontr)
    assume "\<not> doe \<le> year_end ?y"
    then have "?y \<le> 398" "year_start (?y + 1) \<le> doe" using hi ends(2) assms year_next [of "?y"] by (cases "?y = 399", auto)
    then show False using year_of_day_mono [of "year_start (?y + 1)" doe] year_table [of "?y + 1"] assms lo by simp
  qed
qed

lemma month_of_day_iff: "(5 * doy + 2) div 153 = mp \<longleftrightarrow> month_start mp \<le> doy \<and> doy < month_start (mp + 1)"
proof -
  have "x div 5 \<le> y \<longleftrightarrow> x < (y + 1) * 5" for x y :: int by presburger
  then have le: "month_start p \<le> x \<longleftrightarrow> 153 * p \<le> 5 * x + 2" for p x :: int
    by (auto simp: month_start_def)
  show ?thesis
  proof
    assume "(5 * doy + 2) div 153 = mp"
    then obtain r where r: "5 * doy + 2 = 153 * mp + r" "0 \<le> r" "r < 153"
      using mult_div_mod_eq [of 153 "5 * doy + 2"] pos_mod_bound [of 153 "5 * doy + 2"] pos_mod_sign [of 153 "5 * doy + 2"] by (metis zero_less_numeral)
    then have "153 * mp \<le> 5 * doy + 2" "\<not> 153 * (mp + 1) \<le> 5 * doy + 2" by auto
    then show "month_start mp \<le> doy \<and> doy < month_start (mp + 1)"
      unfolding le [symmetric] by simp
  next
    assume "month_start mp \<le> doy \<and> doy < month_start (mp + 1)"
    then show "(5 * doy + 2) div 153 = mp"
      by (intro int_div_pos_eq [where r = "5 * doy + 2 - 153 * mp"]) (use le [of mp doy] le [of "mp + 1" doy] in auto)
  qed
qed

definition march_month :: "int \<Rightarrow> int" where
  "march_month month = (if month > 2 then month - 3 else month + 9)"

definition march_year :: "int \<Rightarrow> int \<Rightarrow> int" where
  "march_year year month = year - (if month \<le> 2 then 1 else 0)"

definition valid_date :: "int \<Rightarrow> int \<Rightarrow> int \<Rightarrow> bool" where
  "valid_date year month day \<longleftrightarrow> 1 \<le> month \<and> month \<le> 12 \<and>
     1 \<le> day \<and> day \<le> (case days_in_month year month of Some n \<Rightarrow> n | None \<Rightarrow> 0)"

lemma month_cases:
  assumes "1 \<le> (m::int)" and "m \<le> 12"
  shows "m \<in> {1, 2, 3, 4, 5, 6, 7, 8, 9, 10, 11, 12}"
  using assms by (simp; presburger)

lemma valid_date_iff:
  assumes "1 \<le> m" and "m \<le> 12"
  shows "valid_date y m d \<longleftrightarrow> 1 \<le> d \<and> month_start (march_month m) + d \<le>
    (if march_month m = 11 then year_end (march_year y m) - year_start (march_year y m) + 1 else month_start (march_month m + 1))"
  using month_cases [OF assms] unfolding insert_iff empty_iff
  by (elim disjE) (simp_all add: valid_date_def days_in_month_def march_month_def march_year_def month_start_def year_end_def)

lemma days_from_civil_eq:
  assumes "1 \<le> m" and "m \<le> 12"
  shows "days_from_civil y m d = year_start (march_year y m) + month_start (march_month m) + d - 1 - 719468"
proof -
  let ?Y = "march_year y m"
  have Y: "?Y - ?Y div 400 * 400 = ?Y mod 400" by (simp add: minus_div_mult_eq_mod)
  have "year_start ?Y = ?Y div 400 * 146097 + year_start (?Y mod 400)"
    using year_start_era [of "?Y div 400" "?Y mod 400"] by simp
  moreover have "year_start (?Y mod 400) = ?Y mod 400 * 365 + ?Y mod 400 div 4 - ?Y mod 400 div 100"
    by (simp add: year_start_def)
  moreover have "(153 * (if m > 2 then m - 3 else m + 9) + 2) sdiv 5 = month_start (march_month m)"
    using assms by (simp add: month_start_def march_month_def)
  ultimately show ?thesis
    unfolding days_from_civil_def Let_def march_year_def [symmetric] era_400 Y by (simp add: algebra_simps)
qed

lemma year_start_small: "0 \<le> y \<Longrightarrow> y \<le> 399 \<Longrightarrow> 365 * y + y sdiv 4 - y sdiv 100 = year_start y"
  by (simp add: year_start_def)

lemma year_of_day_code:
  assumes "0 \<le> doe" and "doe \<le> 146096"
  shows "(doe - doe sdiv 1460 + doe sdiv 36524 - doe sdiv 146096) sdiv 365 = year_of_day doe"
proof -
  have "0 \<le> leap_shift doe" using leap_shift_mono [of 0 doe] assms by (simp add: leap_shift_def)
  then have "leap_shift doe sdiv 365 = leap_shift doe div 365" by simp
  then show ?thesis using assms(1) by (simp add: year_of_day_def leap_shift_def)
qed

lemma month_code:
  assumes "0 \<le> doy"
  shows "(5 * doy + 2) sdiv 153 = (5 * doy + 2) div 153"
    and "(153 * ((5 * doy + 2) div 153) + 2) sdiv 5 = month_start ((5 * doy + 2) div 153)"
proof -
  have "0 \<le> (5 * doy + 2) div 153" using assms by (simp add: pos_imp_zdiv_nonneg_iff)
  then show "(153 * ((5 * doy + 2) div 153) + 2) sdiv 5 = month_start ((5 * doy + 2) div 153)"
    unfolding month_start_def by (intro sdiv_nonneg) simp_all
qed (use assms in simp)

text \<open>What \<open>civil_from_days\<close> makes of the day \<open>doe\<close> of an era.\<close>

definition civil_of_era :: "int \<Rightarrow> int \<Rightarrow> int \<times> int \<times> int" where
  "civil_of_era era doe =
     (let y = year_of_day doe + era * 400; doy = doe - year_start (year_of_day doe); mp = (5 * doy + 2) div 153;
          m = (if mp < 10 then mp + 3 else mp - 9)
      in (if m \<le> 2 then y + 1 else y, m, doy - month_start mp + 1))"

lemma civil_from_days_eq:
  assumes "z + 719468 = era * 146097 + doe" and doe: "0 \<le> doe" "doe \<le> 146096"
  shows "civil_from_days z = civil_of_era era doe"
proof -
  have era: "(z + 719468) div 146097 = era"
    by (rule int_div_pos_eq [of _ _ _ doe]) (use assms in auto)
  have d: "z + 719468 - era * 146097 = doe" using assms(1) by simp
  have "0 \<le> doe - year_start (year_of_day doe)" using year_of_day_bounds(3) [OF doe] by simp
  note codes = year_of_day_code [OF doe] year_start_small [OF year_of_day_bounds(1,2) [OF doe]] month_code [OF this]
  show ?thesis
    unfolding civil_from_days_def civil_of_era_def Let_def era_146097 era d codes ..
qed

lemma valid_day_of_year:
  assumes "valid_date y m d"
  defines "doy \<equiv> month_start (march_month m) + d - 1"
  shows "0 \<le> doy" and "year_start (march_year y m) + doy \<le> year_end (march_year y m)"
    and "(5 * doy + 2) div 153 = march_month m"
proof -
  have m: "1 \<le> m" "m \<le> 12" using assms(1) by (simp_all add: valid_date_def)
  note v = assms(1) [unfolded valid_date_iff [OF m]]
  have e: "364 \<le> year_end (march_year y m) - year_start (march_year y m)"
    "year_end (march_year y m) - year_start (march_year y m) \<le> 365" by (simp_all add: year_end_def)
  have "0 \<le> doy \<and> year_start (march_year y m) + doy \<le> year_end (march_year y m) \<and>
      month_start (march_month m) \<le> doy \<and> doy < month_start (march_month m + 1)"
    using month_cases [OF m] v e unfolding insert_iff empty_iff doy_def
    by (elim disjE) (simp_all add: march_month_def month_start_def)
  then show "0 \<le> doy" "year_start (march_year y m) + doy \<le> year_end (march_year y m)"
    "(5 * doy + 2) div 153 = march_month m"
    unfolding month_of_day_iff by simp_all
qed


lemma days_civil:
  assumes "civil_from_days z = (y, m, d)"
  shows "valid_date y m d \<and> days_from_civil y m d = z"
proof -
  define era doe where "era = (z + 719468) div 146097" and "doe = (z + 719468) mod 146097"
  have z: "z + 719468 = era * 146097 + doe" by (simp add: era_def doe_def)
  have b: "0 \<le> doe" "doe \<le> 146096" using pos_mod_bound [of 146097 "z + 719468"] by (simp_all add: doe_def)
  define yoe doy mp where "yoe = year_of_day doe" and "doy = doe - year_start yoe" and "mp = (5 * doy + 2) div 153"
  note y = year_of_day_bounds [OF b, folded yoe_def]
  have c: "m = (if mp < 10 then mp + 3 else mp - 9)" "d = doy - month_start mp + 1"
    "y = (if m \<le> 2 then yoe + era * 400 + 1 else yoe + era * 400)"
    using assms unfolding civil_from_days_eq [OF z b] civil_of_era_def Let_def yoe_def [symmetric] doy_def [symmetric] mp_def [symmetric]
    by auto
  have doy: "0 \<le> doy" "doy \<le> year_end yoe - year_start yoe" using y by (auto simp: doy_def)
  then have "doy \<le> 365" by (auto simp: year_end_def split: if_splits)
  have mp: "month_start mp \<le> doy" "doy < month_start (mp + 1)"
    using month_of_day_iff [of doy mp] by (auto simp: mp_def)
  have "0 \<le> mp" "mp \<le> 11" using doy(1) \<open>doy \<le> 365\<close> by (auto simp: mp_def pos_imp_zdiv_nonneg_iff)
  then have m: "1 \<le> m" "m \<le> 12" "march_month m = mp" "march_year y m = era * 400 + yoe"
    by (auto simp: c march_month_def march_year_def)
  show ?thesis
    unfolding valid_date_iff [OF m(1,2)] days_from_civil_eq [OF m(1,2)] m(3,4) year_start_era year_end_era
    using mp doy z by (auto simp: c(2) doy_def)
qed
section \<open>Later dates are later days\<close>

lemma year_start_mono: "a < b \<Longrightarrow> year_end a < year_start b"
proof (induction b rule: int_gr_induct)
  case base
  show ?case using year_next [of a] by simp
next
  case (step i)
  then show ?case using year_next [of i] by (simp add: year_end_def split: if_splits)
qed

lemma month_start_mono: "p < q \<Longrightarrow> month_start (p + 1) \<le> month_start q"
  unfolding month_start_def by (intro zdiv_mono1) simp_all

lemma days_mono:
  assumes v: "valid_date y m d" "valid_date y' m' d'" and less: "(y, m, d) < (y', m', d')"
  shows "days_from_civil y m d < days_from_civil y' m' d'"
proof -
  have m: "1 \<le> m" "m \<le> 12" and m': "1 \<le> m'" "m' \<le> 12" using v by (simp_all add: valid_date_def)
  let ?Y = "march_year y m" and ?Y' = "march_year y' m'" and ?p = "march_month m" and ?p' = "march_month m'"
  note day = valid_day_of_year [OF v(1)] and day' = valid_day_of_year [OF v(2)]
  have "?Y < ?Y' \<or> ?Y = ?Y' \<and> ?p < ?p' \<or> ?Y = ?Y' \<and> ?p = ?p' \<and> d < d'"
    using less m m' by (auto simp: march_year_def march_month_def less_prod_def)
  then have "year_start ?Y + month_start ?p + d < year_start ?Y' + month_start ?p' + d'"
  proof (elim disjE conjE)
    assume "?Y < ?Y'"
    then show ?thesis using year_start_mono [of ?Y ?Y'] day(2) day'(1) by linarith
  next
    assume eq: "?Y = ?Y'" and p: "?p < ?p'"
    have "month_start ?p + d - 1 < month_start (?p + 1)" "month_start ?p' \<le> month_start ?p' + d' - 1"
      using day(3) day'(3) unfolding month_of_day_iff by simp_all
    then show ?thesis using eq month_start_mono [OF p] by simp
  qed simp
  then show ?thesis by (simp add: days_from_civil_eq m m')
qed

lemma civil_mono: "civil_from_days z < civil_from_days z' \<longleftrightarrow> z < z'"
proof -
  have up: "a < b" if less: "civil_from_days a < civil_from_days b" for a b
  proof -
    obtain y m d y' m' d' where c: "civil_from_days a = (y, m, d)" "civil_from_days b = (y', m', d')"
      by (metis prod_cases3)
    show ?thesis using days_mono [of y m d y' m' d'] days_civil [OF c(1)] days_civil [OF c(2)] less unfolding c by simp
  qed
  have "civil_from_days z \<noteq> civil_from_days z'" if "z < z'"
    using that days_civil [of z] days_civil [of z'] by (metis order_less_irrefl prod_cases3)
  then show ?thesis using up [of z z'] up [of z' z] by (meson linorder_neqE order_less_asym)
qed

lemma civil_year_range:
  assumes "civil_from_days z = (y, m, d)"
  shows "0 \<le> y \<longleftrightarrow> -719528 \<le> z" and "y \<le> 9999 \<longleftrightarrow> z \<le> 2932896"
proof -
  have e: "civil_from_days (-719528) = (0, 1, 1)" "civil_from_days 2932897 = (10000, 1, 1)" by code_simp+
  have d: "1 \<le> m" "m \<le> 12" "1 \<le> d" using days_civil [OF assms] by (auto simp: valid_date_def)
  have "z < -719528 \<longleftrightarrow> y < 0" "z < 2932897 \<longleftrightarrow> y < 10000"
    using civil_mono [of z "-719528"] civil_mono [of z 2932897] d unfolding e assms by (auto simp: less_prod_def)
  then show "0 \<le> y \<longleftrightarrow> -719528 \<le> z" "y \<le> 9999 \<longleftrightarrow> z \<le> 2932896" by linarith+
qed

section \<open>Printed fields\<close>

lemma digit_iff: "is_ascii_digit c \<longleftrightarrow> 48 \<le> (of_char c :: int) \<and> (of_char c :: int) \<le> 57"
proof -
  have "is_ascii_digit c \<longleftrightarrow> 48 \<le> (of_char c :: nat) \<and> (of_char c :: nat) \<le> 57"
    by (simp add: is_ascii_digit_def less_eq_char_def)
  moreover have "(of_char c :: int) = int (of_char c)" by (rule of_nat_of_char [symmetric])
  ultimately show ?thesis by linarith
qed

lemma int_value_append: "int_value (s @ [c]) = 10 * int_value s + (of_char c - 48)"
  by (simp add: int_value_def)

lemma int_value_Cons: "int_value (c # s) = (of_char c - 48) * 10 ^ length s + int_value s"
proof (induction s rule: rev_induct)
  case (snoc x s)
  then show ?case using int_value_append [of "c # s" x] int_value_append [of s x] by (simp add: algebra_simps)
qed (simp add: int_value_def)

lemma int_digits_spec:
  assumes "0 \<le> n"
  shows "int_value (int_digits n) = n \<and> list_all is_ascii_digit (int_digits n) \<and> int_digits n \<noteq> [] \<and>
    (\<forall>w. n < 10 ^ Suc w \<longrightarrow> length (int_digits n) \<le> Suc w)"
  using assms
proof (induction n rule: int_digits.induct)
  case (1 n)
  have digit: "(of_char (char_of (48 + k) :: char) :: int) = 48 + k" if "0 \<le> k" "k < 10" for k :: int
    using that by (simp add: of_char_of)
  show ?case
  proof (cases "n < 10")
    case True
    with 1 show ?thesis using digit [of n] by (simp add: int_digits.simps [of n] int_value_def digit_iff)
  next
    case False
    have k: "0 \<le> n mod 10" "n mod 10 < 10" by simp_all
    have IH: "int_value (int_digits (n div 10)) = n div 10" "list_all is_ascii_digit (int_digits (n div 10))"
      "\<And>w. n div 10 < 10 ^ Suc w \<Longrightarrow> length (int_digits (n div 10)) \<le> Suc w"
      using 1 False by (simp_all add: pos_imp_zdiv_nonneg_iff)
    have eq: "int_digits n = int_digits (n div 10) @ [char_of (48 + n mod 10)]"
      using False by (simp add: int_digits.simps [of n])
    have "length (int_digits n) \<le> Suc w" if w: "n < 10 ^ Suc w" for w
    proof (cases w)
      case (Suc v)
      with w have "n div 10 < 10 ^ Suc v" by simp
      with IH(3) Suc show ?thesis by (simp add: eq)
    qed (use w False in simp)
    moreover have "is_ascii_digit (char_of (48 + n mod 10))" using digit [OF k] k unfolding digit_iff by linarith
    ultimately show ?thesis using IH(1,2) digit [OF k] by (simp add: eq int_value_append)
  qed
qed

lemma int_value_zeros: "int_value (replicate k CHR ''0'' @ s) = int_value s"
  by (induction k) (simp_all add: int_value_Cons)

lemma pad_int_spec:
  assumes "0 \<le> n" and "n < 10 ^ w" and "0 < w"
  shows "length (pad_int w n) = w" and "list_all is_ascii_digit (pad_int w n)" and "int_value (pad_int w n) = n"
proof -
  have p: "pad_int w n = replicate (w - length (int_digits n)) CHR ''0'' @ int_digits n"
    using assms(1) by (simp add: pad_int_def Let_def)
  have "length (int_digits n) \<le> w" using int_digits_spec [OF assms(1)] assms(2,3) by (cases w) auto
  then show "length (pad_int w n) = w" by (simp add: p)
  have "is_ascii_digit CHR ''0''" by code_simp
  then show "list_all is_ascii_digit (pad_int w n)"
    using int_digits_spec [OF assms(1)] by (simp add: p list_all_length nth_append)  
  show "int_value (pad_int w n) = n" using int_digits_spec [OF assms(1)] by (simp add: p int_value_zeros)
qed

lemma digits_value_bound:
  "list_all is_ascii_digit s \<Longrightarrow> 0 \<le> int_value s \<and> int_value s < 10 ^ length s"
proof (induction s)
  case (Cons c s)
  then have "0 \<le> (of_char c - 48 :: int)" "(of_char c - 48 :: int) \<le> 9" by (simp_all add: digit_iff)
  then have "0 \<le> (of_char c - 48) * (10::int) ^ length s" "(of_char c - 48) * (10::int) ^ length s \<le> 9 * 10 ^ length s"
    by (simp_all add: mult_right_mono)
  moreover have "0 \<le> int_value s" "int_value s < 10 ^ length s" using Cons by simp_all
  ultimately show ?case unfolding int_value_Cons length_Cons power_Suc by linarith
qed (simp add: int_value_def)

lemma parse_i64_digits:
  assumes "list_all is_ascii_digit s" and "s \<noteq> []" and "length s \<le> 18"
  shows "parse_i64 s = Some (int_value s)"
proof -
  obtain c t where s: "s = c # t" using assms(2) by (cases s) auto
  have "\<not> is_ascii_digit CHR ''-''" "\<not> is_ascii_digit CHR ''+''" by code_simp+
  then have "c \<noteq> CHR ''-''" "c \<noteq> CHR ''+''" using assms(1) s by auto
  moreover have "int_value s < 2 ^ 63"
  proof -
    have "(10::int) ^ length s \<le> 10 ^ 18" using assms(3) by (intro power_increasing) simp_all
    then show ?thesis using digits_value_bound [OF assms(1)] by simp
  qed
  moreover have "0 \<le> int_value s" using digits_value_bound [OF assms(1)] by simp
  ultimately show ?thesis using assms(1) by (simp add: parse_i64_def s)
qed

lemma parse_pad:
  assumes "0 \<le> n" and "n < 10 ^ w" and "0 < w" and "w \<le> 18"
  shows "parse_fixed_digits (pad_int w n) w = Some n"
proof -
  note p = pad_int_spec [OF assms(1-3)]
  have "pad_int w n \<noteq> []" using p(1) assms(3) by auto
  from parse_i64_digits [OF p(2) this] p assms(4) show ?thesis by (simp add: parse_fixed_digits_def)
qed

section \<open>Splitting what was printed\<close>

lemma split_plain: "c \<notin> set s \<Longrightarrow> str_split c s = [s]"
  by (induction s) auto

lemma split_append: "c \<notin> set s \<Longrightarrow> str_split c (s @ c # t) = s # str_split c t"
  by (induction s) auto

lemma split_once_append: "c \<notin> set s \<Longrightarrow> split_once c (s @ c # t) = Some (s, t)"
  by (induction s) auto

lemma strip_suffix_append: "strip_suffix c (s @ [c]) = Some s"
  by (simp add: strip_suffix_def)

lemma digits_no_separator:
  assumes "list_all is_ascii_digit s"
  shows "CHR ''-'' \<notin> set s" and "CHR '':'' \<notin> set s" and "CHR ''T'' \<notin> set s" and "CHR ''.'' \<notin> set s"
proof -
  have "\<not> is_ascii_digit CHR ''-''" "\<not> is_ascii_digit CHR '':''" "\<not> is_ascii_digit CHR ''T''" "\<not> is_ascii_digit CHR ''.''"
    by code_simp+
  then show "CHR ''-'' \<notin> set s" "CHR '':'' \<notin> set s" "CHR ''T'' \<notin> set s" "CHR ''.'' \<notin> set s"
    using assms unfolding list_all_iff by blast+
qed

text \<open>The fields \<open>format_rfc3339_utc_millis\<close> prints.\<close>

definition clock_of :: "int \<Rightarrow> int \<times> int \<times> int \<times> int" where
  "clock_of millis =
     (let sod = millis div 1000 mod 86400 in (sod div 3600, sod mod 3600 div 60, sod mod 60, millis mod 1000))"

lemma millis_day: "t div 1000 div 86400 = t div (86400000::int)"
  using zdiv_zmult2_eq [of 86400 t 1000] by simp

lemma clock_of_spec:
  assumes "clock_of t = (h, mi, se, ms)"
  shows "0 \<le> h \<and> h \<le> 23 \<and> 0 \<le> mi \<and> mi \<le> 59 \<and> 0 \<le> se \<and> se \<le> 59 \<and> 0 \<le> ms \<and> ms \<le> 999"
    and "t = (((t div 86400000 * 24 + h) * 60 + mi) * 60 + se) * 1000 + ms"
proof -
  define sod where "sod = t div 1000 mod 86400"
  have sod: "0 \<le> sod" "sod < 86400" by (simp_all add: sod_def)
  have c: "h = sod div 3600" "mi = sod mod 3600 div 60" "se = sod mod 60" "ms = t mod 1000"
    using assms by (auto simp: clock_of_def Let_def sod_def)
  have "sod mod 3600 mod 60 = sod mod 60" by (simp add: mod_mod_cancel)
  then have r: "sod mod 3600 div 60 * 60 + se = sod mod 3600" using div_mult_mod_eq [of "sod mod 3600" 60] c(3) by simp
  have q: "h * 3600 + sod mod 3600 = sod" using div_mult_mod_eq [of sod 3600] c(1) by simp
  have d: "t div 1000 div 86400 * 86400 + sod = t div 1000" using div_mult_mod_eq [of "t div 1000" 86400] sod_def by simp
  have "t div 1000 * 1000 + ms = t" using div_mult_mod_eq [of t 1000] c(4) by simp
  moreover have "t' = (((D * 24 + h) * 60 + mi) * 60 + se) * 1000 + ms"
    if "mi * 60 + se = M" "h * 3600 + M = S" "D * 86400 + S = T" "T * 1000 + ms = t'" for M S D T t' :: int
    using that by auto
  ultimately show "t = (((t div 86400000 * 24 + h) * 60 + mi) * 60 + se) * 1000 + ms"
    using r q d unfolding millis_day c(2) [symmetric] by blast
  have "sod mod 3600 div 60 \<le> 59" "sod div 3600 \<le> 23"
    using zdiv_mono1 [of "sod mod 3600" 3599 60] zdiv_mono1 [of sod 86399 3600] sod by simp_all
  moreover have "0 \<le> sod mod 3600 div 60" "0 \<le> sod div 3600" using sod by (simp_all add: pos_imp_zdiv_nonneg_iff)
  moreover have "sod mod 60 < 60" "t mod 1000 < 1000" "0 \<le> sod mod 60" "0 \<le> t mod 1000" by simp_all
  then have "0 \<le> sod mod 60 \<and> sod mod 60 \<le> 59 \<and> 0 \<le> t mod 1000 \<and> t mod 1000 \<le> 999" by linarith
  ultimately show "0 \<le> h \<and> h \<le> 23 \<and> 0 \<le> mi \<and> mi \<le> 59 \<and> 0 \<le> se \<and> se \<le> 59 \<and> 0 \<le> ms \<and> ms \<le> 999"
    unfolding c by blast
qed

lemma format_eq:
  assumes "civil_from_days (t div 86400000) = (y, mo, d)" and "clock_of t = (h, mi, se, ms)"
  shows "format_rfc3339_utc_millis t =
    (pad_int 4 y @ CHR ''-'' # pad_int 2 mo @ CHR ''-'' # pad_int 2 d) @ CHR ''T'' #
    ((pad_int 2 h @ CHR '':'' # pad_int 2 mi @ CHR '':'' # pad_int 2 se) @ CHR ''.'' # pad_int 3 ms) @ [CHR ''Z'']"
proof -
  define sod where "sod = t div 1000 mod 86400"
  have sod: "0 \<le> sod" "0 \<le> sod mod 3600" by (simp_all add: sod_def)
  have k: "h = sod div 3600" "mi = sod mod 3600 div 60" "se = sod mod 60" "ms = t mod 1000"
    using assms(2) by (auto simp: clock_of_def Let_def sod_def)
  show ?thesis
    unfolding format_rfc3339_utc_millis_def Let_def millis_day assms(1) sod_def [symmetric] k(4) [symmetric]
    using sod by (simp add: k(1-3))
qed

lemma parse_format:
  assumes "-62167219200000 \<le> t" and "t \<le> 253402300799999"
  shows "parse_rfc3339_utc_millis (format_rfc3339_utc_millis t) = Some t"
proof -
  obtain y mo d h mi se ms where c: "civil_from_days (t div 86400000) = (y, mo, d)" and k: "clock_of t = (h, mi, se, ms)"
    by (metis prod_cases3 prod_cases4)
  have "-719528 \<le> t div 86400000" "t div 86400000 \<le> 2932896"
    using zdiv_mono1 [OF assms(1), of 86400000] zdiv_mono1 [OF assms(2), of 86400000] by simp_all
  then have y: "0 \<le> y" "y \<le> 9999" using civil_year_range [OF c] by simp_all
  note date = days_civil [OF c] and clock = clock_of_spec [OF k]
  have md: "1 \<le> mo" "mo \<le> 12" "1 \<le> d" "d \<le> (case days_in_month y mo of Some n \<Rightarrow> n | None \<Rightarrow> 0)"
    using date by (simp_all add: valid_date_def)
  then obtain n where n: "days_in_month y mo = Some n" "d \<le> n" by (cases "days_in_month y mo") auto
  have "n \<le> 31" using n(1) by (auto simp: days_in_month_def split: if_splits)
  with n have "d \<le> 31" by simp
  note pads = pad_int_spec [of y 4] pad_int_spec [of mo 2] pad_int_spec [of d 2] pad_int_spec [of h 2]
    pad_int_spec [of mi 2] pad_int_spec [of se 2] pad_int_spec [of ms 3]
  have digits: "list_all is_ascii_digit (pad_int 4 y)" "list_all is_ascii_digit (pad_int 2 mo)" "list_all is_ascii_digit (pad_int 2 d)"
    "list_all is_ascii_digit (pad_int 2 h)" "list_all is_ascii_digit (pad_int 2 mi)" "list_all is_ascii_digit (pad_int 2 se)"
    "list_all is_ascii_digit (pad_int 3 ms)"
    using pads y md \<open>d \<le> 31\<close> clock(1) by simp_all
  note no = digits [THEN digits_no_separator(1)] digits [THEN digits_no_separator(2)] digits [THEN digits_no_separator(3)]
    digits [THEN digits_no_separator(4)]
  have fields: "parse_fields 4 [pad_int 4 y, pad_int 2 mo, pad_int 2 d] = Some (y, mo, d)"
    "parse_fields 2 [pad_int 2 h, pad_int 2 mi, pad_int 2 se] = Some (h, mi, se)"
    using y md \<open>d \<le> 31\<close> clock(1) by (simp_all add: parse_fields_def parse_pad)
  have "length (pad_int 3 ms) = 3" "int_value (pad_int 3 ms) = ms" using pads clock(1) by simp_all
  moreover from this have "pad_int 3 ms \<noteq> []" by auto
  ultimately have frac: "parse_fraction_millis (pad_int 3 ms) = Some ms"
    using digits(7) parse_i64_digits [OF digits(7)] by (simp add: parse_fraction_millis_def)
  let ?date = "pad_int 4 y @ CHR ''-'' # pad_int 2 mo @ CHR ''-'' # pad_int 2 d"
  let ?clock = "pad_int 2 h @ CHR '':'' # pad_int 2 mi @ CHR '':'' # pad_int 2 se"
  have "CHR ''T'' \<notin> set ?date" "CHR ''.'' \<notin> set ?clock" using no by simp_all
  note split = split_once_append [OF this(1)] split_once_append [OF this(2)]
  have "strip_suffix CHR ''Z'' (format_rfc3339_utc_millis t) = Some (?date @ CHR ''T'' # (?clock @ CHR ''.'' # pad_int 3 ms))"
    unfolding format_eq [OF c k] using strip_suffix_append [of _ "?date @ CHR ''T'' # (?clock @ CHR ''.'' # pad_int 3 ms)"] by simp
  moreover have "str_split CHR ''-'' ?date = [pad_int 4 y, pad_int 2 mo, pad_int 2 d]"
    "str_split CHR '':'' ?clock = [pad_int 2 h, pad_int 2 mi, pad_int 2 se]"
    using no by (simp_all add: split_append split_plain)
  ultimately show ?thesis
    unfolding parse_rfc3339_utc_millis_def using split fields frac md(1-3) n clock date
    by (simp del: append_assoc append_Cons) 
qed
section \<open>Ranges\<close>









section \<open>Printed instants sort as they should\<close>

lemma digits_less_iff:
  assumes "length a = length b" and "list_all is_ascii_digit a" and "list_all is_ascii_digit b"
  shows "a < b \<longleftrightarrow> int_value a < int_value b"
  using assms
proof (induction a b rule: list_induct2)
  case (Cons c s d t)
  let ?c = "of_char c - 48 :: int" and ?d = "of_char d - 48 :: int" and ?p = "10 ^ length t :: int"
  note b = digits_value_bound [of s] digits_value_bound [of t]
  have IH: "s < t \<longleftrightarrow> int_value s < int_value t" using Cons by simp
  have cd: "c < d \<longleftrightarrow> ?c < ?d" "c = d \<longleftrightarrow> ?c = ?d"
    using of_nat_of_char [of c, where 'a = int] of_nat_of_char [of d, where 'a = int] of_char_eq_iff [of c d, where 'a = int]
    by (auto simp: less_char_def) 
  consider "?c < ?d" | "?c = ?d" | "?d < ?c" by linarith
  then show ?case
  proof cases
    case 1
    then have "(?c + 1) * ?p \<le> ?d * ?p" by (intro mult_right_mono) simp_all
    then have "int_value (c # s) < int_value (d # t)" using b Cons.prems Cons.hyps by (simp add: int_value_Cons algebra_simps)
    with 1 cd show ?thesis by simp
  next
    case 2
    with cd IH Cons.hyps show ?thesis by (simp add: int_value_Cons)
  next
    case 3
    then have "(?d + 1) * ?p \<le> ?c * ?p" by (intro mult_right_mono) simp_all
    then have "int_value (d # t) < int_value (c # s)" using b Cons.prems Cons.hyps by (simp add: int_value_Cons algebra_simps)
    with 3 cd show ?thesis by auto
  qed
qed (simp add: int_value_def)

lemma pad_less_iff:
  assumes "0 \<le> m" "m < 10 ^ w" "0 \<le> n" "n < 10 ^ w" "0 < w"
  shows "pad_int w m @ s < pad_int w n @ t \<longleftrightarrow> m < n \<or> m = n \<and> s < t"
proof -
  note p = pad_int_spec [OF assms(1,2,5)] pad_int_spec [OF assms(3,4,5)]
  have "pad_int w m = pad_int w n \<longleftrightarrow> m = n" using p(3,6) by metis
  moreover have "pad_int w m < pad_int w n \<longleftrightarrow> m < n" using digits_less_iff [of "pad_int w m" "pad_int w n"] p by simp
  ultimately show ?thesis using append_less_iff [of "pad_int w m" "pad_int w n" s t] p by simp
qed

lemma clock_mono:
  assumes "t div 86400000 = u div 86400000"
  shows "clock_of t < clock_of u \<longleftrightarrow> t < u"
proof -
  obtain h mi se ms h' mi' se' ms' where k: "clock_of t = (h, mi, se, ms)" "clock_of u = (h', mi', se', ms')"
    by (metis prod_cases4)
  note c = clock_of_spec [OF k(1)] and c' = clock_of_spec [OF k(2)]
  define D where "D = t div 86400000"
  have tu: "t = D * 86400000 + (((h * 60 + mi) * 60 + se) * 1000 + ms)" "u = D * 86400000 + (((h' * 60 + mi') * 60 + se') * 1000 + ms')"
    using c(2) c'(2) unfolding assms [symmetric] D_def [symmetric] by (simp_all add: algebra_simps)
  have less: "((h * 60 + mi) * 60 + se) * 1000 + ms < ((h' * 60 + mi') * 60 + se') * 1000 + ms'"
    if "(h, mi, se, ms) < (h', mi', se', ms')"
      "0 \<le> mi \<and> mi \<le> 59 \<and> 0 \<le> se \<and> se \<le> 59 \<and> 0 \<le> ms \<and> ms \<le> 999"
      "0 \<le> mi' \<and> mi' \<le> 59 \<and> 0 \<le> se' \<and> se' \<le> 59 \<and> 0 \<le> ms' \<and> ms' \<le> 999"
    for h mi se ms h' mi' se' ms' :: int
    using that by (auto simp: less_prod_def)
  have "t < u \<longleftrightarrow> ((h * 60 + mi) * 60 + se) * 1000 + ms < ((h' * 60 + mi') * 60 + se') * 1000 + ms'"
    unfolding tu by simp
  also have "\<dots> \<longleftrightarrow> (h, mi, se, ms) < (h', mi', se', ms')"
    using less [of h mi se ms h' mi' se' ms'] less [of h' mi' se' ms' h mi se ms] c(1) c'(1)
    by (metis linorder_neqE order_less_asym prod.inject)
  finally show ?thesis by (simp add: k)
qed

lemma pair_less_iff: "(a, b) < (c, d) \<longleftrightarrow> a < c \<or> a = c \<and> b < d" for a c :: "'a::linorder" and b d :: "'b::linorder"
  by auto

lemma printed_fields:
  assumes "-62167219200000 \<le> t" and "t \<le> 253402300799999"
    and c: "civil_from_days (t div 86400000) = (y, mo, d)" and k: "clock_of t = (h, mi, se, ms)"
  shows "0 \<le> y \<and> y < 10000 \<and> 0 \<le> mo \<and> mo < 100 \<and> 0 \<le> d \<and> d < 100 \<and>
    0 \<le> h \<and> h < 100 \<and> 0 \<le> mi \<and> mi < 100 \<and> 0 \<le> se \<and> se < 100 \<and> 0 \<le> ms \<and> ms < 1000"
proof -
  have "-719528 \<le> t div 86400000" "t div 86400000 \<le> 2932896"
    using zdiv_mono1 [OF assms(1), of 86400000] zdiv_mono1 [OF assms(2), of 86400000] by simp_all
  then have "0 \<le> y" "y \<le> 9999" using civil_year_range [OF c] by simp_all
  moreover have "0 \<le> mo \<and> mo < 100 \<and> 0 \<le> d \<and> d < 100"
    using days_civil [OF c] by (auto simp: valid_date_def days_in_month_def split: if_splits)
  ultimately show ?thesis using clock_of_spec(1) [OF k] by simp
qed

lemma format_less_iff:
  assumes t: "-62167219200000 \<le> t" "t \<le> 253402300799999" and u: "-62167219200000 \<le> u" "u \<le> 253402300799999"
  shows "format_rfc3339_utc_millis t < format_rfc3339_utc_millis u \<longleftrightarrow> t < u"
proof -
  obtain y mo d h mi se ms where c: "civil_from_days (t div 86400000) = (y, mo, d)" and k: "clock_of t = (h, mi, se, ms)"
    by (metis prod_cases3 prod_cases4)
  obtain y' mo' d' h' mi' se' ms' where c': "civil_from_days (u div 86400000) = (y', mo', d')" and k': "clock_of u = (h', mi', se', ms')"
    by (metis prod_cases3 prod_cases4)
  note f = printed_fields [OF t c k] and f' = printed_fields [OF u c' k']
  have "format_rfc3339_utc_millis t < format_rfc3339_utc_millis u \<longleftrightarrow>
      ((y, mo, d), (h, mi, se, ms)) < ((y', mo', d'), (h', mi', se', ms'))"
    unfolding format_eq [OF c k] format_eq [OF c' k'] append_assoc append_Cons
    using f f' by (simp only: pair_less_iff prod.inject) (auto simp: pad_less_iff)
  also have "\<dots> \<longleftrightarrow> (civil_from_days (t div 86400000), clock_of t) < (civil_from_days (u div 86400000), clock_of u)"
    by (simp add: c k c' k')
  also have "\<dots> \<longleftrightarrow> t < u"
  proof (cases "t div 86400000 = u div 86400000")
    case True
    then show ?thesis using clock_mono [OF True] unfolding pair_less_iff by simp
  next
    case False
    then have "civil_from_days (t div 86400000) \<noteq> civil_from_days (u div 86400000)"
      using civil_mono by (metis linorder_neqE order_less_irrefl)
    moreover have "t div 86400000 < u div 86400000 \<longleftrightarrow> t < u"
      using False zdiv_mono1 [of t u 86400000] zdiv_mono1 [of u t 86400000] by auto
    ultimately show ?thesis unfolding pair_less_iff civil_mono by blast
  qed
  finally show ?thesis .
qed

lemma format_starts_with_digit:
  assumes "-62167219200000 \<le> t" and "t \<le> 253402300799999"
  shows "strip_prefix ''unix-ms:'' (format_rfc3339_utc_millis t) = None"
proof -
  obtain y mo d h mi se ms where c: "civil_from_days (t div 86400000) = (y, mo, d)" and k: "clock_of t = (h, mi, se, ms)"
    by (metis prod_cases3 prod_cases4)
  note f = printed_fields [OF assms c k]
  have "list_all is_ascii_digit (pad_int 4 y)" "length (pad_int 4 y) = 4" using pad_int_spec [of y 4] f by simp_all
  then obtain x xs where "pad_int 4 y = x # xs" "is_ascii_digit x" by (cases "pad_int 4 y") auto
  moreover have "\<not> is_ascii_digit CHR ''u''" by code_simp
  ultimately show ?thesis unfolding format_eq [OF c k] by (auto simp: strip_prefix_def)
qed

lemma cmp_cases:
  "cmp x y = Less \<longleftrightarrow> x < y" "cmp x y = Equal \<longleftrightarrow> x = y" "cmp x y = Greater \<longleftrightarrow> y < x"
  by (auto simp: cmp_def)

text \<open>Malformed values first, in their own order, then the instants.\<close>

definition instant_key :: "string \<Rightarrow> (bool \<times> int) \<times> string" where
  "instant_key s = (case parse_event_instant s of None \<Rightarrow> ((False, 0), s) | Some t \<Rightarrow> ((True, t), []))"

lemma compare_eq_cmp: "compare_event_instants a b = cmp (instant_key a) (instant_key b)"
  by (cases "parse_event_instant a"; cases "parse_event_instant b")
    (auto simp: compare_event_instants_def instant_key_def cmp_def less_prod_def)

section \<open>Properties\<close>

text \<open>C7. Printing an instant and parsing it back is the identity, through the civil calendar and the text:
  for every millisecond from the year 0000 to the year 9999 the printed RFC 3339 string is
  accepted by the parser, and gives the same millisecond.\<close>

theorem instant_round_trip:
  assumes "-62167219200000 \<le> t" and "t \<le> 253402300799999"
  shows "parse_event_instant (format_rfc3339_utc_millis t) = Some t"
  using parse_format [OF assms] format_starts_with_digit [OF assms] by (simp add: parse_event_instant_def)

theorem instant_round_trip_witness:
  "parse_event_instant (format_rfc3339_utc_millis 1783303159002) = Some 1783303159002"
  by (rule instant_round_trip) simp_all





text \<open>C16. Normalised instants compare as text the way they compare as instants: within the years 0000 to
  9999 the printed strings are ordered lexicographically exactly as the milliseconds are.\<close>

theorem normalized_order_lexical:
  assumes "-62167219200000 \<le> t" "t \<le> 253402300799999" and "-62167219200000 \<le> u" "u \<le> 253402300799999"
  shows "format_rfc3339_utc_millis t < format_rfc3339_utc_millis u \<longleftrightarrow> t < u"
  by (rule format_less_iff [OF assms])

theorem normalized_order_lexical_witness:
  "format_rfc3339_utc_millis (-1) < format_rfc3339_utc_millis 1000"
  using normalized_order_lexical [of "-1" 1000] by simp


text \<open>\<open>compare_event_instants\<close> is one total preorder of all strings, legal or not: swapping the
  arguments reverses the answer, the answers chain, and two strings compare equal exactly
  when they are the same or both denote one instant, in whichever of the two legal forms.\<close>

theorem compare_is_total_preorder:
  "(compare_event_instants a b = Less \<longleftrightarrow> compare_event_instants b a = Greater) \<and>
   (compare_event_instants a b = Equal \<longleftrightarrow> a = b \<or> (\<exists>t. parse_event_instant a = Some t \<and> parse_event_instant b = Some t)) \<and>
   (compare_event_instants a b \<noteq> Greater \<longrightarrow> compare_event_instants b c \<noteq> Greater \<longrightarrow> compare_event_instants a c \<noteq> Greater)"
proof -
  have "instant_key a = instant_key b \<longleftrightarrow> a = b \<or> (\<exists>t. parse_event_instant a = Some t \<and> parse_event_instant b = Some t)"
    by (auto simp: instant_key_def split: option.splits)
  then show ?thesis unfolding compare_eq_cmp cmp_cases by auto
qed

theorem compare_is_total_preorder_witness:
  "compare_event_instants ''1970-01-01T00:00:00.001Z'' ''unix-ms:1'' = Equal"
proof -
  have "parse_event_instant ''1970-01-01T00:00:00.001Z'' = Some 1" "parse_event_instant ''unix-ms:1'' = Some 1" by code_simp+
  with compare_is_total_preorder [of "''1970-01-01T00:00:00.001Z''" "''unix-ms:1''"] show ?thesis by blast
qed

end
