(* ===== verification/Change_Pages.thy ===== *)
theory Change_Pages
  imports Change_Projection Instant "HOL-Library.Word"
begin

text \<open>
  The list of Changes: its orders and page keys (\<open>src/src/session/change_order.rs\<close>), and the selection
  and windowing of a page (\<open>src/src/session/derived_access/changes.rs\<close>,
  \<open>src/src/documents/change.rs\<close>). A page ends at the key of its last row, and the next page starts
  behind that key. \<open>sort_by\<close> and \<open>partition_point\<close> are those of Rust's slices.
\<close>

section \<open>Orders\<close>

datatype change_list_order_v1 = ChangeIdAsc | ActivityDesc | AttentionWait

fun order_as_str :: "change_list_order_v1 \<Rightarrow> string" where
  "order_as_str ChangeIdAsc = ''change_id_asc''"
| "order_as_str ActivityDesc = ''activity_desc''"
| "order_as_str AttentionWait = ''attention_wait''"

definition order_parse :: "string \<Rightarrow> change_list_order_v1 option" where
  "order_parse s =
     (if s = ''change_id_asc'' then Some ChangeIdAsc
      else if s = ''activity_desc'' then Some ActivityDesc
      else if s = ''attention_wait'' then Some AttentionWait
      else None)"

definition admitted_on_attention_lens :: "change_list_order_v1 \<Rightarrow> bool" where
  "admitted_on_attention_lens ord = True"

definition admitted_on_changes_lens :: "change_list_order_v1 \<Rightarrow> bool" where
  "admitted_on_changes_lens ord \<longleftrightarrow> ord \<noteq> AttentionWait"

definition default_for_changes :: change_list_order_v1 where
  "default_for_changes = ActivityDesc"

definition default_for_attention :: change_list_order_v1 where
  "default_for_attention = AttentionWait"

record attention_wait_key_v1 =
  aw_tier_rank :: "8 word"
  aw_oldest_observed_at :: string

record change_order_key =
  ok_change_id :: string
  ok_activity_at :: "string option"
  ok_tier_rank :: "8 word option"
  ok_oldest_observed_at :: "string option"

text \<open>\<open>Ordering::then_with\<close> and \<open>Option::zip\<close>.\<close>

definition then_with :: "rust_ordering \<Rightarrow> rust_ordering \<Rightarrow> rust_ordering" where
  "then_with first next = (if first = Equal then next else first)"

definition zip_option :: "'a option \<Rightarrow> 'b option \<Rightarrow> ('a \<times> 'b) option" where
  "zip_option a b = (case (a, b) of (Some x, Some y) \<Rightarrow> Some (x, y) | _ \<Rightarrow> None)"

text \<open>The arms of the two matches: a present value comes before an absent one.\<close>

definition present_first :: "('a \<Rightarrow> 'a \<Rightarrow> rust_ordering) \<Rightarrow> 'a option \<Rightarrow> 'a option \<Rightarrow> rust_ordering" where
  "present_first compare left right =
     (case (left, right) of
        (Some l, Some r) \<Rightarrow> compare l r
      | (Some _, None) \<Rightarrow> Less
      | (None, Some _) \<Rightarrow> Greater
      | (None, None) \<Rightarrow> Equal)"

definition compare_change_order ::
  "change_list_order_v1 \<Rightarrow> change_order_key \<Rightarrow> change_order_key \<Rightarrow> rust_ordering" where
  "compare_change_order ord left right =
     (let by_id = cmp (ok_change_id left) (ok_change_id right) in
      case ord of
        ChangeIdAsc \<Rightarrow> by_id
      | ActivityDesc \<Rightarrow>
          then_with
            (present_first (\<lambda>left_at right_at. compare_event_instants right_at left_at)
               (ok_activity_at left) (ok_activity_at right)) by_id
      | AttentionWait \<Rightarrow>
          then_with
            (present_first (\<lambda>(left_tier, left_at) (right_tier, right_at).
                 then_with (cmp left_tier right_tier) (compare_event_instants left_at right_at))
               (zip_option (ok_tier_rank left) (ok_oldest_observed_at left))
               (zip_option (ok_tier_rank right) (ok_oldest_observed_at right))) by_id)"

datatype change_page_key_v1 =
    PK_ChangeIdAsc string
  | PK_ActivityDesc "string option" string
  | PK_AttentionWait "8 word option" "string option" string

definition from_order_key :: "change_list_order_v1 \<Rightarrow> change_order_key \<Rightarrow> change_page_key_v1" where
  "from_order_key ord key =
     (case ord of
        ChangeIdAsc \<Rightarrow> PK_ChangeIdAsc (ok_change_id key)
      | ActivityDesc \<Rightarrow> PK_ActivityDesc (ok_activity_at key) (ok_change_id key)
      | AttentionWait \<Rightarrow> PK_AttentionWait (ok_tier_rank key) (ok_oldest_observed_at key) (ok_change_id key))"

fun page_key_order :: "change_page_key_v1 \<Rightarrow> change_list_order_v1" where
  "page_key_order (PK_ChangeIdAsc _) = ChangeIdAsc"
| "page_key_order (PK_ActivityDesc _ _) = ActivityDesc"
| "page_key_order (PK_AttentionWait _ _ _) = AttentionWait"

fun page_key_change_id :: "change_page_key_v1 \<Rightarrow> string" where
  "page_key_change_id (PK_ChangeIdAsc i) = i"
| "page_key_change_id (PK_ActivityDesc _ i) = i"
| "page_key_change_id (PK_AttentionWait _ _ i) = i"

fun page_order_key :: "change_page_key_v1 \<Rightarrow> change_order_key" where
  "page_order_key (PK_ChangeIdAsc i) =
     \<lparr>ok_change_id = i, ok_activity_at = None, ok_tier_rank = None, ok_oldest_observed_at = None\<rparr>"
| "page_order_key (PK_ActivityDesc activity_at i) =
     \<lparr>ok_change_id = i, ok_activity_at = activity_at, ok_tier_rank = None, ok_oldest_observed_at = None\<rparr>"
| "page_order_key (PK_AttentionWait tier_rank oldest_observed_at i) =
     \<lparr>ok_change_id = i, ok_activity_at = None, ok_tier_rank = tier_rank, ok_oldest_observed_at = oldest_observed_at\<rparr>"

text \<open>The loop of \<open>is_strictly_ordered\<close>, with the key it saw last.\<close>

fun strictly_ordered_after :: "change_list_order_v1 \<Rightarrow> change_order_key option \<Rightarrow> change_order_key list \<Rightarrow> bool" where
  "strictly_ordered_after ord previous [] = True"
| "strictly_ordered_after ord previous (key # keys) =
     (case previous of
        Some last_key \<Rightarrow>
          if compare_change_order ord last_key key \<noteq> Less then False
          else strictly_ordered_after ord (Some key) keys
      | None \<Rightarrow> strictly_ordered_after ord (Some key) keys)"

definition is_strictly_ordered :: "change_list_order_v1 \<Rightarrow> change_order_key list \<Rightarrow> bool" where
  "is_strictly_ordered ord keys = strictly_ordered_after ord None keys"

section \<open>Slices\<close>

text \<open>\<open>sort_by\<close> is a stable sort; \<open>partition_point\<close> is the length of the first part of a slice that the
  predicate splits in two.\<close>

fun insert_by :: "('a \<Rightarrow> 'a \<Rightarrow> rust_ordering) \<Rightarrow> 'a \<Rightarrow> 'a list \<Rightarrow> 'a list" where
  "insert_by compare x [] = [x]"
| "insert_by compare x (y # ys) =
     (if compare x y = Greater then y # insert_by compare x ys else x # y # ys)"

definition sort_by :: "('a \<Rightarrow> 'a \<Rightarrow> rust_ordering) \<Rightarrow> 'a list \<Rightarrow> 'a list" where
  "sort_by compare xs = foldr (insert_by compare) xs []"

definition partition_point :: "('a \<Rightarrow> bool) \<Rightarrow> 'a list \<Rightarrow> nat" where
  "partition_point p xs = length (takeWhile p xs)"

section \<open>Selection of a page\<close>

datatype change_declaration_state_v1 = DS_Authoritative | DS_Incomplete | DS_Conflicted

record change_summary_v1 =
  cs_change_id :: string
  cs_declaration_state :: change_declaration_state_v1
  cs_title_assertions :: "string list"
  cs_member_count :: nat
  cs_current_revision_refs :: "revision_ref_v1 list"
  cs_topology :: change_topology_v1
  cs_lifecycle :: change_lifecycle_v1
  cs_attention_summary :: string
  cs_availability_summary :: string
  cs_diagnostics :: "string list"
  cs_projection_stamp :: string
  cs_activity_at :: "string option"
  cs_attention_wait_at :: "attention_wait_key_v1 option"

definition change_summary_order_key :: "change_summary_v1 \<Rightarrow> change_order_key" where
  "change_summary_order_key summary =
     \<lparr>ok_change_id = cs_change_id summary, ok_activity_at = cs_activity_at summary,
      ok_tier_rank = map_option aw_tier_rank (cs_attention_wait_at summary),
      ok_oldest_observed_at = map_option aw_oldest_observed_at (cs_attention_wait_at summary)\<rparr>"

datatype change_page_lens = Lens_Changes | Lens_Attention

definition default_order :: "change_page_lens \<Rightarrow> change_list_order_v1" where
  "default_order lens = (case lens of Lens_Changes \<Rightarrow> default_for_changes | Lens_Attention \<Rightarrow> default_for_attention)"

definition admits :: "change_page_lens \<Rightarrow> change_list_order_v1 \<Rightarrow> bool" where
  "admits lens ord =
     (case lens of Lens_Changes \<Rightarrow> admitted_on_changes_lens ord | Lens_Attention \<Rightarrow> admitted_on_attention_lens ord)"

definition require_admitted_order :: "change_page_lens \<Rightarrow> change_list_order_v1 \<Rightarrow> unit result" where
  "require_admitted_order lens ord =
     (if admits lens ord then Inr ()
      else Inl (Message (''Change page order '' @ order_as_str ord @ '' is not admitted on this lens'')))"

datatype attention_filter = AF_Clear | AF_InProgress | AF_Incomplete | AF_Conflicted

fun attention_filter_name :: "attention_filter \<Rightarrow> string" where
  "attention_filter_name AF_Clear = ''clear''"
| "attention_filter_name AF_InProgress = ''in_progress''"
| "attention_filter_name AF_Incomplete = ''incomplete''"
| "attention_filter_name AF_Conflicted = ''conflicted''"

datatype availability_filter = VF_Available | VF_Incomplete

fun availability_filter_name :: "availability_filter \<Rightarrow> string" where
  "availability_filter_name VF_Available = ''available''"
| "availability_filter_name VF_Incomplete = ''incomplete''"

text \<open>A boundary is the key of the row before a page, \<open>None\<close> for page one.\<close>

type_synonym page_boundary = "change_page_key_v1 option"

record page_continuation =
  pc_expected_projection_stamp :: string
  pc_boundary :: page_boundary

record page_selection =
  sel_limit :: nat
  sel_after :: "page_continuation option"
  sel_summary_query :: "string option"
  sel_topology :: "change_topology_v1 option"
  sel_lifecycle :: "change_lifecycle_v1 option"
  sel_attention :: "attention_filter option"
  sel_availability :: "availability_filter option"
  sel_order :: "change_list_order_v1 option"

datatype page_request = Bare | Bounded page_selection

definition order_for :: "page_request \<Rightarrow> change_page_lens \<Rightarrow> change_list_order_v1" where
  "order_for request lens =
     (case request of
        Bare \<Rightarrow> default_order lens
      | Bounded selection \<Rightarrow> (case sel_order selection of None \<Rightarrow> default_order lens | Some ord \<Rightarrow> ord))"

record page_window =
  pw_projection_stamp :: string
  pw_previous :: "page_boundary option"
  pw_next :: "page_boundary option"
  pw_last :: "page_boundary option"

record page_result =
  pr_change_ids :: "string list"
  pr_window :: "page_window option"

text \<open>The filters of a bounded request.\<close>

definition selection_matches :: "page_selection \<Rightarrow> change_summary_v1 \<Rightarrow> bool" where
  "selection_matches selection summary \<longleftrightarrow>
     (case sel_topology selection of None \<Rightarrow> True | Some topology \<Rightarrow> cs_topology summary = topology) \<and>
     (case sel_lifecycle selection of None \<Rightarrow> True | Some lifecycle \<Rightarrow> cs_lifecycle summary = lifecycle) \<and>
     (case sel_attention selection of
        None \<Rightarrow> True | Some attention \<Rightarrow> cs_attention_summary summary = attention_filter_name attention) \<and>
     (case sel_availability selection of
        None \<Rightarrow> True | Some availability \<Rightarrow> cs_availability_summary summary = availability_filter_name availability)"

definition select_bodyless_change_candidates ::
  "change_page_lens \<Rightarrow> change_summary_v1 list \<Rightarrow> string \<Rightarrow> page_request \<Rightarrow> change_list_order_v1 \<Rightarrow> string list result" where
  "select_bodyless_change_candidates lens summaries projection_stamp request ord =
     and_then (require_admitted_order lens ord) (\<lambda>_.
     if (case request of
           Bounded selection \<Rightarrow> (case sel_order selection of None \<Rightarrow> False | Some requested \<Rightarrow> requested \<noteq> ord)
         | Bare \<Rightarrow> False) then
       Inl (Message ''derived Change selection order disagrees with the page order'')
     else if \<not> distinct (map cs_change_id summaries) then
       Inl (Message ''bodyless Change selection contains a duplicate Change identity'')
     else
       let candidates = sort_by (\<lambda>left right.
             compare_change_order ord (change_summary_order_key left) (change_summary_order_key right)) summaries;
           candidates = (if lens = Lens_Attention
             then filter (\<lambda>summary. cs_lifecycle summary \<noteq> CL_Accepted) candidates else candidates)
       in case request of
            Bare \<Rightarrow> Inr (map cs_change_id candidates)
          | Bounded selection \<Rightarrow>
              if (case sel_after selection of
                    None \<Rightarrow> False
                  | Some continuation \<Rightarrow> pc_expected_projection_stamp continuation \<noteq> projection_stamp) then
                Inl (Message ''derived Change continuation belongs to a different projection'')
              else Inr (map cs_change_id (filter (selection_matches selection) candidates)))"

definition keys_by_id :: "change_summary_v1 list \<Rightarrow> (string \<times> change_order_key) list" where
  "keys_by_id summaries =
     fold (\<lambda>summary m. bm_insert (cs_change_id summary) (change_summary_order_key summary) m) summaries []"

definition key_of :: "change_summary_v1 list \<Rightarrow> string \<Rightarrow> change_order_key result" where
  "key_of summaries change_id =
     (case bm_get (keys_by_id summaries) change_id of
        Some key \<Rightarrow> Inr key
      | None \<Rightarrow> Inl (Message (''bodyless Change candidate '' @ change_id @ '' has no summary'')))"

definition boundary_before :: "change_list_order_v1 \<Rightarrow> change_order_key list \<Rightarrow> nat \<Rightarrow> page_boundary" where
  "boundary_before ord keys page_start =
     (if page_start = 0 then None else Some (from_order_key ord (keys ! (page_start - 1))))"

text \<open>The index a page starts at.\<close>

definition page_start_of :: "change_list_order_v1 \<Rightarrow> change_order_key list \<Rightarrow> page_selection \<Rightarrow> nat result" where
  "page_start_of ord keys selection =
     (case sel_after selection of
        None \<Rightarrow> Inr 0
      | Some continuation \<Rightarrow>
          (case pc_boundary continuation of
             None \<Rightarrow> Inr 0
           | Some boundary \<Rightarrow>
               if page_key_order boundary \<noteq> ord then
                 Inl (Message ''derived Change continuation was issued under a different order'')
               else
                 Inr (partition_point
                        (\<lambda>key. compare_change_order ord key (page_order_key boundary) \<noteq> Greater) keys)))"

definition page_window_of ::
  "string list \<Rightarrow> change_order_key list \<Rightarrow> string \<Rightarrow> nat \<Rightarrow> change_list_order_v1 \<Rightarrow> nat \<Rightarrow> page_result" where
  "page_window_of candidates keys projection_stamp limit ord start =
     (let end_index = min (start + limit) (length candidates);
          last_page_start = (if length candidates = 0 then 0 else (length candidates - 1) div limit * limit)
      in \<lparr>pr_change_ids = take (end_index - start) (drop start candidates),
          pr_window = Some
            \<lparr>pw_projection_stamp = projection_stamp,
             pw_previous = (if start > 0 then Some (boundary_before ord keys (start - limit)) else None),
             pw_next = (if end_index < length candidates then Some (boundary_before ord keys end_index) else None),
             pw_last = (if last_page_start \<noteq> start then Some (boundary_before ord keys last_page_start) else None)\<rparr>\<rparr>)"

definition paginate_bodyless_change_candidates ::
  "string list \<Rightarrow> change_summary_v1 list \<Rightarrow> string \<Rightarrow> page_request \<Rightarrow> change_list_order_v1 \<Rightarrow> page_result result" where
  "paginate_bodyless_change_candidates candidates summaries projection_stamp request ord =
     and_then (try_map (key_of summaries) candidates) (\<lambda>keys.
     if \<not> is_strictly_ordered ord keys then
       Inl (Message ''bodyless Change candidates are not strictly ordered'')
     else
       case request of
         Bare \<Rightarrow> Inr \<lparr>pr_change_ids = candidates, pr_window = None\<rparr>
       | Bounded selection \<Rightarrow>
           and_then (page_start_of ord keys selection) (\<lambda>start.
             Inr (page_window_of candidates keys projection_stamp (sel_limit selection) ord start)))"

definition select_bodyless_change_page ::
  "change_page_lens \<Rightarrow> change_summary_v1 list \<Rightarrow> string \<Rightarrow> page_request \<Rightarrow> change_list_order_v1 \<Rightarrow> page_result result" where
  "select_bodyless_change_page lens summaries projection_stamp request ord =
     and_then (select_bodyless_change_candidates lens summaries projection_stamp request ord) (\<lambda>candidates.
     if (case request of Bounded selection \<Rightarrow> sel_summary_query selection \<noteq> None | Bare \<Rightarrow> False) then
       Inl (Message ''derived Change summary query requires exhaustive proposal selection'')
     else paginate_bodyless_change_candidates candidates summaries projection_stamp request ord)"

section \<open>Comparisons\<close>

text \<open>What a comparison function of Rust promises: swapping the arguments reverses the answer, and answers
  chain.\<close>

locale ordering_contract =
  fixes compare :: "'a \<Rightarrow> 'a \<Rightarrow> rust_ordering"
  assumes swap: "compare a b = Less \<longleftrightarrow> compare b a = Greater"
    and chain: "compare a b \<noteq> Greater \<Longrightarrow> compare b c \<noteq> Greater \<Longrightarrow> compare a c \<noteq> Greater"
begin

lemma equal_sym: "compare a b = Equal \<longleftrightarrow> compare b a = Equal"
  using swap [of a b] swap [of b a] by (cases "compare a b"; cases "compare b a") auto

lemma refl_equal: "compare a a = Equal"
  using swap [of a a] by (cases "compare a a") auto

lemma less_chain: "compare a b = Less \<Longrightarrow> compare b c \<noteq> Greater \<Longrightarrow> compare a c = Less"
  using chain [of a b c] chain [of b c a] swap [of a b] equal_sym [of a c] by (cases "compare a c") auto

lemma less_trans: "compare a b = Less \<Longrightarrow> compare b c = Less \<Longrightarrow> compare a c = Less"
  using less_chain by auto

lemma set_insert_by: "set (insert_by compare x xs) = insert x (set xs)"
  by (induction xs) auto

lemma sorted_insert_by:
  "sorted_wrt (\<lambda>a b. compare a b \<noteq> Greater) xs \<Longrightarrow> sorted_wrt (\<lambda>a b. compare a b \<noteq> Greater) (insert_by compare x xs)"
proof (induction xs)
  case (Cons y ys)
  show ?case
  proof (cases "compare x y = Greater")
    case True
    then have "compare y x = Less" using swap by blast
    with True Cons show ?thesis by (auto simp: set_insert_by)
  next
    case False
    with Cons show ?thesis using chain [of x y] by auto
  qed
qed simp

lemma set_sort_by: "set (sort_by compare xs) = set xs"
  unfolding sort_by_def by (induction xs) (auto simp: set_insert_by)

lemma sorted_sort_by: "sorted_wrt (\<lambda>a b. compare a b \<noteq> Greater) (sort_by compare xs)"
  unfolding sort_by_def by (induction xs) (auto intro: sorted_insert_by)

lemma length_sort_by: "length (sort_by compare xs) = length xs"
proof -
  have "length (insert_by compare x ys) = Suc (length ys)" for x ys by (induction ys) auto
  then show ?thesis unfolding sort_by_def by (induction xs) auto
qed

lemma distinct_sort_by: "distinct xs \<Longrightarrow> distinct (sort_by compare xs)"
  by (metis card_distinct distinct_card length_sort_by set_sort_by)

text \<open>Where equal elements are the same, sorting is strict.\<close>

lemma strict_sort_by:
  assumes "distinct xs" and "\<And>a b. a \<in> set xs \<Longrightarrow> b \<in> set xs \<Longrightarrow> compare a b = Equal \<Longrightarrow> a = b"
  shows "sorted_wrt (\<lambda>a b. compare a b = Less) (sort_by compare xs)"
proof -
  have "sorted_wrt (\<lambda>a b. compare a b \<noteq> Greater \<and> a \<noteq> b) (sort_by compare xs)"
    using sorted_sort_by [of xs] distinct_sort_by [OF assms(1)] by (simp add: sorted_wrt_iff_nth_less distinct_conv_nth)
  then show ?thesis
    using assms(2) set_sort_by [of xs]
    by (elim sorted_wrt_mono_rel [rotated]) (metis rust_ordering.exhaust)
qed

text \<open>In a strictly sorted list the elements up to one of them are a first part, and it ends there.\<close>

lemma partition_point_nth:
  assumes "sorted_wrt (\<lambda>a b. compare a b = Less) xs" and "i < length xs"
  shows "partition_point (\<lambda>x. compare x (xs ! i) \<noteq> Greater) xs = Suc i"
proof -
  let ?p = "\<lambda>x. compare x (xs ! i) \<noteq> Greater"
  have below: "?p x" if x: "x \<in> set (take (Suc i) xs)" for x
  proof -
    obtain j where "j \<le> i" "x = xs ! j" using x assms(2) by (auto simp: in_set_conv_nth less_Suc_eq_le)
    then show ?thesis
      using assms refl_equal [of "xs ! i"] by (cases "j = i") (auto simp: sorted_wrt_iff_nth_less)
  qed
  have above: "\<not> ?p (xs ! Suc i)" if "Suc i < length xs"
    using assms that swap by (simp add: sorted_wrt_iff_nth_less)
  have "takeWhile ?p (take (Suc i) xs @ drop (Suc i) xs) = take (Suc i) xs @ takeWhile ?p (drop (Suc i) xs)"
    using below by (intro takeWhile_append2) auto
  moreover have "takeWhile ?p (drop (Suc i) xs) = []"
    using above by (cases "Suc i < length xs") (simp_all add: Cons_nth_drop_Suc [symmetric])
  ultimately show ?thesis using assms(2) by (simp add: partition_point_def)
qed

end

lemma contract_cmp: "ordering_contract cmp"
  by unfold_locales (auto simp: cmp_def split: if_splits)

lemma contract_pull: "ordering_contract c \<Longrightarrow> ordering_contract (\<lambda>a b. c (f a) (f b))"
  by (auto simp: ordering_contract_def)

lemma contract_flip: "ordering_contract c \<Longrightarrow> ordering_contract (\<lambda>a b. c b a)"
  unfolding ordering_contract_def by blast

lemma contract_then:
  assumes "ordering_contract c" and "ordering_contract d"
  shows "ordering_contract (\<lambda>a b. then_with (c a b) (d a b))"
proof
  fix a b x
  note sc = ordering_contract.swap [OF assms(1)] and sd = ordering_contract.swap [OF assms(2)]
    and ec = ordering_contract.equal_sym [OF assms(1)]
  show "then_with (c a b) (d a b) = Less \<longleftrightarrow> then_with (c b a) (d b a) = Greater"
    using sc [of a b] sd [of a b] ec [of a b] by (auto simp: then_with_def)
  assume 1: "then_with (c a b) (d a b) \<noteq> Greater" and 2: "then_with (c b x) (d b x) \<noteq> Greater"
  have ab: "c a b \<noteq> Greater" and bx: "c b x \<noteq> Greater" using 1 2 by (auto simp: then_with_def split: if_splits)
  show "then_with (c a x) (d a x) \<noteq> Greater"
  proof (cases "c a b = Equal \<and> c b x = Equal")
    case True
    then have "d a x \<noteq> Greater"
      using 1 2 ordering_contract.chain [OF assms(2), of a b x] by (auto simp: then_with_def)
    then show ?thesis
      using ordering_contract.chain [OF assms(1) ab bx] by (simp add: then_with_def)
  next
    case False
    have "c a x = Less"
    proof (cases "c a b = Equal")
      case True
      then have "c x b = Greater" using False bx sc [of b x] by (metis rust_ordering.exhaust)
      then have "c x a = Greater"
        using ordering_contract.chain [OF assms(1), of x a b] True by auto
      then show ?thesis using sc by blast
    next
      case False
      then have "c a b = Less" using ab by (metis rust_ordering.exhaust)
      then show ?thesis using ordering_contract.less_chain [OF assms(1) _ bx] by blast
    qed
    then show ?thesis by (simp add: then_with_def)
  qed
qed

lemma contract_present: "ordering_contract c \<Longrightarrow> ordering_contract (present_first c)"
  unfolding ordering_contract_def
  by (auto simp: present_first_def split: option.splits)

lemma contract_instants: "ordering_contract compare_event_instants"
  unfolding compare_eq_cmp [abs_def] by (rule contract_pull [OF contract_cmp])

interpretation change_order: ordering_contract "compare_change_order ord"
proof -
  have by_id: "ordering_contract (\<lambda>a b. cmp (ok_change_id a) (ok_change_id b))"
    by (rule contract_pull [OF contract_cmp])
  have activity: "ordering_contract (\<lambda>a b. present_first (\<lambda>l r. compare_event_instants r l) (ok_activity_at a) (ok_activity_at b))"
    by (rule contract_pull [OF contract_present [OF contract_flip [OF contract_instants]]])
  have wait: "ordering_contract (\<lambda>(lt :: 8 word, la) (rt, ra). then_with (cmp lt rt) (compare_event_instants la ra))"
    using contract_then [OF contract_pull [OF contract_cmp, of "fst :: 8 word \<times> string \<Rightarrow> 8 word"]
        contract_pull [OF contract_instants, of snd]]
    by (simp add: case_prod_unfold)
  have attention: "ordering_contract (\<lambda>a b. present_first (\<lambda>(lt, la) (rt, ra). then_with (cmp lt rt) (compare_event_instants la ra))
      (zip_option (ok_tier_rank a) (ok_oldest_observed_at a)) (zip_option (ok_tier_rank b) (ok_oldest_observed_at b)))"
    by (rule contract_pull [OF contract_present [OF wait]])
  show "ordering_contract (compare_change_order ord)"
    by (cases ord) (simp_all add: compare_change_order_def [abs_def] Let_def by_id contract_then [OF activity by_id] contract_then [OF attention by_id])
qed

lemma compare_equal_id: "compare_change_order ord a b = Equal \<Longrightarrow> ok_change_id a = ok_change_id b"
  by (cases ord) (auto simp: compare_change_order_def then_with_def Let_def cmp_def split: if_splits)

text \<open>Comparing adjacent keys is enough.\<close>

lemma strictly_ordered_after_iff:
  "strictly_ordered_after ord previous keys \<longleftrightarrow>
     sorted_wrt (\<lambda>a b. compare_change_order ord a b = Less) ((case previous of None \<Rightarrow> [] | Some k \<Rightarrow> [k]) @ keys)"
proof (induction keys arbitrary: previous)
  case (Cons k ks)
  then show ?case
    using change_order.less_trans [of ord] by (cases previous) auto
qed (auto split: option.split)

lemma is_strictly_ordered_iff:
  "is_strictly_ordered ord keys \<longleftrightarrow> sorted_wrt (\<lambda>a b. compare_change_order ord a b = Less) keys"
  by (simp add: is_strictly_ordered_def strictly_ordered_after_iff)

text \<open>A page key compares like the key of the row it was made from.\<close>

lemma page_key_faithful:
  "compare_change_order ord x (page_order_key (from_order_key ord k)) = compare_change_order ord x k"
  "page_key_order (from_order_key ord k) = ord"
  by (cases ord; simp add: compare_change_order_def from_order_key_def Let_def)+

section \<open>The listing\<close>

text \<open>What a lens and the filters of a request let through.\<close>

definition listed :: "change_page_lens \<Rightarrow> page_request \<Rightarrow> change_summary_v1 \<Rightarrow> bool" where
  "listed lens request summary \<longleftrightarrow>
     (lens = Lens_Attention \<longrightarrow> cs_lifecycle summary \<noteq> CL_Accepted) \<and>
     (case request of Bare \<Rightarrow> True | Bounded selection \<Rightarrow> selection_matches selection summary)"

abbreviation compare_summaries :: "change_list_order_v1 \<Rightarrow> change_summary_v1 \<Rightarrow> change_summary_v1 \<Rightarrow> rust_ordering" where
  "compare_summaries ord \<equiv> \<lambda>a b. compare_change_order ord (change_summary_order_key a) (change_summary_order_key b)"

interpretation summary_order: ordering_contract "compare_summaries ord"
  by (rule contract_pull [OF change_order.ordering_contract_axioms])

lemma select_candidates_Inr:
  assumes "select_bodyless_change_candidates lens summaries stamp request ord = Inr ids"
  shows "distinct (map cs_change_id summaries)"
    and "ids = map cs_change_id (filter (listed lens request) (sort_by (compare_summaries ord) summaries))"
proof -
  have *: "distinct (map cs_change_id summaries) \<and>
    ids = map cs_change_id (filter (listed lens request) (sort_by (compare_summaries ord) summaries))"
  proof (cases request)
    case Bare
    then show ?thesis
      using assms by (auto simp: select_bodyless_change_candidates_def and_then_eq_Inr_iff listed_def [abs_def] Let_def split: if_splits)
  next
    case (Bounded sel)
    then show ?thesis
      using assms
      by (auto simp: select_bodyless_change_candidates_def and_then_eq_Inr_iff listed_def [abs_def] Let_def conj_commute split: if_splits)
  qed
  then show "distinct (map cs_change_id summaries)"
    and "ids = map cs_change_id (filter (listed lens request) (sort_by (compare_summaries ord) summaries))" by auto
qed

lemma candidates_sorted:
  assumes "distinct (map cs_change_id summaries)"
  shows "sorted_wrt (\<lambda>a b. compare_summaries ord a b = Less) (filter p (sort_by (compare_summaries ord) summaries))"
proof (intro sorted_wrt_filter summary_order.strict_sort_by)
  show "distinct summaries" using assms by (simp add: distinct_map)
  fix a b
  assume "a \<in> set summaries" "b \<in> set summaries" "compare_summaries ord a b = Equal"
  then show "a = b"
    using assms compare_equal_id by (fastforce simp: distinct_map inj_on_def change_summary_order_key_def)
qed

lemma key_of_summary:
  assumes "distinct (map cs_change_id summaries)" and "s \<in> set summaries"
  shows "key_of summaries (cs_change_id s) = Inr (change_summary_order_key s)"
proof -
  have "keys_by_id summaries =
      fold (\<lambda>(k, v). bm_insert k v) (map (\<lambda>s. (cs_change_id s, change_summary_order_key s)) summaries) []"
    by (simp add: keys_by_id_def fold_map comp_def)
  then have "bm_get (keys_by_id summaries) = map_of (rev (map (\<lambda>s. (cs_change_id s, change_summary_order_key s)) summaries))"
    using bm_fold_insert [of "[]" "map (\<lambda>s. (cs_change_id s, change_summary_order_key s)) summaries"] by simp
  moreover have "distinct (map fst (rev (map (\<lambda>s. (cs_change_id s, change_summary_order_key s)) summaries)))"
    using assms(1) by (simp add: rev_map [symmetric] comp_def)
  ultimately have "bm_get (keys_by_id summaries) (cs_change_id s) = Some (change_summary_order_key s)"
    using assms(2) by (simp add: map_of_is_SomeI)
  then show ?thesis by (simp add: key_of_def)
qed

lemma keys_of_candidates:
  assumes "distinct (map cs_change_id summaries)" and "set S \<subseteq> set summaries"
  shows "try_map (key_of summaries) (map cs_change_id S) = Inr (map change_summary_order_key S)"
  using assms by (auto simp: try_map_Inr_iff intro!: key_of_summary)

section \<open>Pages\<close>

text \<open>The boundary in front of page \<open>k\<close>: the key of the row before it.\<close>

definition page_bound :: "change_summary_v1 list \<Rightarrow> change_list_order_v1 \<Rightarrow> nat \<Rightarrow> string list \<Rightarrow> nat \<Rightarrow> page_boundary" where
  "page_bound summaries ord limit ids k =
     (if k = 0 then None
      else map_option (from_order_key ord) (bm_get (keys_by_id summaries) (ids ! (k * limit - 1))))"

definition last_page :: "nat \<Rightarrow> string list \<Rightarrow> nat" where
  "last_page limit ids = (length ids - 1) div limit"

lemma boundary_page_bound:
  assumes "distinct (map cs_change_id summaries)" and "set S \<subseteq> set summaries"
    and "0 < limit" and "k * limit \<le> length S"
  shows "boundary_before ord (map change_summary_order_key S) (k * limit) =
    page_bound summaries ord limit (map cs_change_id S) k"
proof (cases "k = 0")
  case False
  with assms(3,4) have i: "k * limit - 1 < length S" by (cases "k * limit") auto
  then have "S ! (k * limit - 1) \<in> set summaries" using assms(2) by auto
  from key_of_summary [OF assms(1) this]
  have "bm_get (keys_by_id summaries) (cs_change_id (S ! (k * limit - 1))) = Some (change_summary_order_key (S ! (k * limit - 1)))"
    by (simp add: key_of_def split: option.splits)
  with False i assms(3) show ?thesis by (simp add: boundary_before_def page_bound_def)
qed (simp add: boundary_before_def page_bound_def)

lemma page_start_at:
  assumes "sorted_wrt (\<lambda>a b. compare_change_order ord a b = Less) keys" and "i \<le> length keys"
    and "sel_after sel = Some \<lparr>pc_expected_projection_stamp = stamp, pc_boundary = boundary_before ord keys i\<rparr>"
  shows "page_start_of ord keys sel = Inr i"
proof (cases i)
  case (Suc j)
  then show ?thesis
    using assms change_order.partition_point_nth [OF assms(1), of j]
    by (simp add: page_start_of_def boundary_before_def page_key_faithful)
qed (use assms in \<open>simp add: page_start_of_def boundary_before_def\<close>)

lemma page_window_at:
  assumes "0 < limit" and "k = 0 \<or> k * limit < length ids"
  shows "page_window_of ids keys stamp limit ord (k * limit) =
    \<lparr>pr_change_ids = take limit (drop (k * limit) ids),
     pr_window = Some
       \<lparr>pw_projection_stamp = stamp,
        pw_previous = (if k = 0 then None else Some (boundary_before ord keys ((k - 1) * limit))),
        pw_next = (if Suc k * limit < length ids then Some (boundary_before ord keys (Suc k * limit)) else None),
        pw_last = (if last_page limit ids = k then None else Some (boundary_before ord keys (last_page limit ids * limit)))\<rparr>\<rparr>"
proof -
  have e: "min (k * limit + limit) (length ids) < length ids \<longleftrightarrow> Suc k * limit < length ids"
    "Suc k * limit < length ids \<Longrightarrow> min (k * limit + limit) (length ids) = Suc k * limit"
    by (auto simp: algebra_simps)
  have t: "take (min (k * limit + limit) (length ids) - k * limit) (drop (k * limit) ids) = take limit (drop (k * limit) ids)"
    using assms(2) by (auto simp: min_def)
  have p: "0 < k * limit \<longleftrightarrow> k \<noteq> 0" "k * limit - limit = (k - 1) * limit"
    using assms(1) by (auto simp: diff_mult_distrib)
  have l: "(if length ids = 0 then 0 else (length ids - 1) div limit * limit) = last_page limit ids * limit"
    by (simp add: last_page_def)
  have "last_page limit ids * limit \<noteq> k * limit \<longleftrightarrow> last_page limit ids \<noteq> k" using assms(1) by simp
  then show ?thesis unfolding page_window_of_def Let_def t l p(2) using e p(1) by (simp add: add.commute)
qed

lemma last_page_bound: "0 < limit \<Longrightarrow> last_page limit ids * limit \<le> length ids"
  unfolding last_page_def by (metis diff_le_self div_times_less_eq_dividend le_trans)

lemma select_same_stamp:
  "select_bodyless_change_candidates lens summaries stamp
     (Bounded (sel\<lparr>sel_after := Some \<lparr>pc_expected_projection_stamp = stamp, pc_boundary = b\<rparr>\<rparr>)) ord =
   select_bodyless_change_candidates lens summaries stamp (Bounded (sel\<lparr>sel_after := None\<rparr>)) ord"
proof -
  have "selection_matches (sel\<lparr>sel_after := x\<rparr>) = selection_matches sel" for x
    by (rule ext) (simp add: selection_matches_def)
  then show ?thesis unfolding select_bodyless_change_candidates_def by simp
qed

section \<open>Properties\<close>

definition demo_summary :: "string \<Rightarrow> string option \<Rightarrow> change_summary_v1" where
  "demo_summary i activity =
     \<lparr>cs_change_id = i, cs_declaration_state = DS_Authoritative, cs_title_assertions = [], cs_member_count = 1,
      cs_current_revision_refs = [], cs_topology = Initial, cs_lifecycle = InProgress,
      cs_attention_summary = ''in_progress'', cs_availability_summary = ''available'', cs_diagnostics = [],
      cs_projection_stamp = ''p'', cs_activity_at = activity, cs_attention_wait_at = None\<rparr>"

definition demo_summaries :: "change_summary_v1 list" where
  "demo_summaries =
     [demo_summary ''a'' None, demo_summary ''b'' (Some ''unix-ms:1''), demo_summary ''c'' (Some ''1970-01-01T00:00:00.002Z'')]"

definition demo_selection :: page_selection where
  "demo_selection =
     \<lparr>sel_limit = 2, sel_after = None, sel_summary_query = None, sel_topology = None, sel_lifecycle = Some InProgress,
      sel_attention = Some AF_InProgress, sel_availability = None, sel_order = None\<rparr>"

lemma demo_listing:
  "select_bodyless_change_candidates Lens_Changes demo_summaries ''p'' (Bounded (demo_selection\<lparr>sel_after := None\<rparr>)) ActivityDesc =
     Inr [''c'', ''b'', ''a'']"
  by code_simp



text \<open>C8. The pages tile the listing: the page behind the boundary of page \<open>k\<close> holds the next \<open>limit\<close> Changes of the
  listing, none skipped and none repeated, and its links lead to the page before, the page after
  and the last page. Selection and windowing never fail on a boundary they issued themselves.\<close>

theorem pages_tile_listing:
  assumes "select_bodyless_change_candidates lens summaries stamp (Bounded (sel\<lparr>sel_after := None\<rparr>)) ord = Inr ids"
    and "sel_summary_query sel = None" and "0 < sel_limit sel" and "k = 0 \<or> k * sel_limit sel < length ids"
  defines "bound \<equiv> page_bound summaries ord (sel_limit sel) ids"
  shows "select_bodyless_change_page lens summaries stamp
      (Bounded (sel\<lparr>sel_after := Some \<lparr>pc_expected_projection_stamp = stamp, pc_boundary = bound k\<rparr>\<rparr>)) ord =
    Inr \<lparr>pr_change_ids = take (sel_limit sel) (drop (k * sel_limit sel) ids),
         pr_window = Some
           \<lparr>pw_projection_stamp = stamp,
            pw_previous = (if k = 0 then None else Some (bound (k - 1))),
            pw_next = (if Suc k * sel_limit sel < length ids then Some (bound (Suc k)) else None),
            pw_last = (if last_page (sel_limit sel) ids = k then None else Some (bound (last_page (sel_limit sel) ids)))\<rparr>\<rparr>"
proof -
  let ?n = "sel_limit sel" and ?req = "Bounded (sel\<lparr>sel_after := None\<rparr>)"
  let ?after = "sel\<lparr>sel_after := Some \<lparr>pc_expected_projection_stamp = stamp, pc_boundary = bound k\<rparr>\<rparr>"
  define S where "S = filter (listed lens ?req) (sort_by (compare_summaries ord) summaries)"
  let ?keys = "map change_summary_order_key S"
  note sel = select_candidates_Inr [OF assms(1), folded S_def]
  have sub: "set S \<subseteq> set summaries" by (auto simp: S_def summary_order.set_sort_by)
  have sorted: "sorted_wrt (\<lambda>a b. compare_change_order ord a b = Less) ?keys"
    unfolding S_def sorted_wrt_map by (rule candidates_sorted [OF sel(1)])
  have bnd: "boundary_before ord ?keys (j * ?n) = bound j" if "j * ?n \<le> length ids" for j
    using that boundary_page_bound [OF sel(1) sub assms(3), of j ord] sel(2) by (simp add: bound_def)
  have k: "k * ?n \<le> length ids" using assms(4) by auto
  have select: "select_bodyless_change_candidates lens summaries stamp (Bounded ?after) ord = Inr ids"
    using assms(1) by (simp add: select_same_stamp)
  have start: "page_start_of ord ?keys ?after = Inr (k * ?n)"
    using k sel(2) by (intro page_start_at [OF sorted, of _ _ stamp]) (simp_all add: bnd)
  have window: "page_window_of ids ?keys stamp ?n ord (k * ?n) =
      \<lparr>pr_change_ids = take ?n (drop (k * ?n) ids),
       pr_window = Some \<lparr>pw_projection_stamp = stamp, pw_previous = (if k = 0 then None else Some (bound (k - 1))),
         pw_next = (if Suc k * ?n < length ids then Some (bound (Suc k)) else None),
         pw_last = (if last_page ?n ids = k then None else Some (bound (last_page ?n ids)))\<rparr>\<rparr>"
    unfolding page_window_at [OF assms(3,4)]
    using bnd [of "k - 1"] bnd [of "Suc k"] bnd [OF last_page_bound [OF assms(3)]] k by (auto simp: diff_mult_distrib)
  show ?thesis
    using sorted start window keys_of_candidates [OF sel(1) sub] assms(2)
    by (simp add: select_bodyless_change_page_def select paginate_bodyless_change_candidates_def sel(2) [symmetric]
        is_strictly_ordered_iff)
qed

theorem pages_tile_listing_witness:
  "\<exists>window. select_bodyless_change_page Lens_Changes demo_summaries ''p''
      (Bounded (demo_selection\<lparr>sel_after := Some \<lparr>pc_expected_projection_stamp = ''p'',
         pc_boundary = page_bound demo_summaries ActivityDesc 2 [''c'', ''b'', ''a''] 1\<rparr>\<rparr>)) ActivityDesc =
    Inr \<lparr>pr_change_ids = [''a''], pr_window = Some window\<rparr> \<and> pw_next window = None \<and> pw_previous window = Some None"
  using pages_tile_listing [OF demo_listing, of 1]
  by (simp add: demo_selection_def page_bound_def last_page_def)

end
