(* ===== verification/Spec2Isabelle.thy ===== *)
theory Spec2Isabelle
  imports Revision_Graph Model_Types Signing Effective Event_Store Git_Capture Change_Pages
begin

text \<open>
  A verification library for Pointbreak (the Rust crate under \<open>src/src\<close>): a store of
  content-addressed, signed events about code review, and the projections that turn an unordered
  set of such events into Changes, Revisions, threads and attention.

  \<^bold>\<open>The program.\<close> A reviewer's tool builds an \<^emph>\<open>event\<close>: a payload of one of the event families, a
  target, a writer and an instant, under an idempotency key (\<open>session/event\<close>). Ids, payload
  hashes and record hashes are SHA-256 digests of canonical JSON (\<open>canonical_hash.rs\<close>, \<open>model\<close>).
  The event may be signed, and is checked against a trust policy when it is ingested
  (\<open>session/signing\<close>, \<open>crypto\<close>). The event store writes it once, under the digest of its key
  (\<open>session/store\<close>, \<open>storage\<close>). Readers list all events and fold them into state: the Change
  projection (\<open>session/projection/change.rs\<close>, \<open>model/change.rs\<close>), supersession among Revisions
  (\<open>session/projection/supersession.rs\<close>) and, on top of both, the replacement authority attention
  reads (\<open>session/workflow/attention/effective.rs\<close>). Instants are text, parsed and printed by
  hand (\<open>session/identity/instant.rs\<close>).

  \<^bold>\<open>Conventions.\<close> A struct is a \<open>record\<close>, an enum a \<open>datatype\<close>, and definitions keep the names of the
  source. A \<open>BTreeSet\<close> is a strictly increasing list and a \<open>BTreeMap\<close> an association list with
  strictly increasing keys, so that iteration order is that of the source; the locales
  \<open>ordered_set\<close> and \<open>ordered_map\<close> state their contracts and are interpreted on the operations
  \<open>bs_insert\<close> and \<open>bm_insert\<close>. \<open>Result\<close> is a sum with the errors of \<open>error.rs\<close> on the left; each
  early return and \<open>?\<close> of the source is a branch. A Rust \<open>String\<close> is the list of its UTF-8 bytes.
  What lies outside the crate is an argument: SHA-256 (\<open>sha256\<close> of the record \<open>externals\<close>), the
  serde text of a payload or an event (\<open>store_codec\<close>), Ed25519 and base58 (the crypto record of
  \<open>Signing\<close>). A theorem that relies on such code names what it relies on, and its witness
  instantiates it. Collision freedom is never assumed: a theorem about ids concludes that the
  objects agree \<^emph>\<open>or\<close> exhibits two different inputs with one digest.

  \<^bold>\<open>The theories\<close>, in the order they build on each other:

  \<^item> \<open>Prelude\<close>: results, ordered collections, and folds over event sets whose order must not be
    observable (\<open>unordered_fold\<close>, interpreted in \<open>Change_Fold\<close>).
  \<^item> \<open>Canonical_Json\<close> (\<open>canonical_hash.rs\<close>): canonical JSON, hex and digests; canonical text
    determines the value.
  \<^item> \<open>Model_Types\<close> (\<open>model\<close>), \<open>Event_Types\<close>, \<open>Event_Payloads\<close>, \<open>Change_Claims\<close>, \<open>Relation_Claims\<close>,
    \<open>Events\<close> (\<open>session/event\<close>): ids, event kinds and codes, every payload family with its key, the
    claims with their builders and validators, the envelope, subjects and record hashes. Builders
    produce what validators accept; ids and hashes pin what they are derived from; the subject of
    an event can be read back.
  \<^item> \<open>Signing\<close> (\<open>session/signing\<close>, \<open>crypto\<close>, \<open>session/event/tbs.rs\<close>, \<open>signature.rs\<close>): the signed view,
    verification, trust, ingest policy and the co-signature gate. Signing then verifying succeeds;
    what the strict policy lets through carries a valid signature by a trusted key.
  \<^item> \<open>Event_Store\<close> (\<open>session/store/event_store.rs\<close>, \<open>session/store/backend/local.rs\<close>, \<open>storage/mod.rs\<close>,
    part of \<open>session/store/capabilities.rs\<close>): validation, decoding, write-once publication and
    listing. The directory is a map from paths to bytes; the locale \<open>write_once_journal\<close> is the
    contract of a journal backend. The store refines a first-write-wins map; the step relation
    \<open>publish_step\<close> interleaves the system calls of any number of writers, which behave as if they
    took turns, and finish.
  \<^item> \<open>Revision_Graph\<close> (\<open>model/change.rs\<close>): current Revisions, cycle search, diverging heads, each
    equated with its meaning on paths.
  \<^item> \<open>Change_Fold\<close>, \<open>Change_Projection\<close>, \<open>Change_Acceptance\<close> (\<open>session/projection/change.rs\<close>): fact
    extraction, the fold over facts, the view per Change, and the specification over sets of facts
    that it refines: which Changes exist, when one is accepted, which errors can occur, and that
    the order of events does not show.
  \<^item> \<open>Union_Find\<close>, \<open>Tarjan\<close>, \<open>Supersession\<close> (\<open>session/projection/supersession.rs\<close>): threads by
    union-find with path halving, cycles by an iterative strongly-connected-components search, and
    the supersession view, each equal to its definition by paths.
  \<^item> \<open>Effective\<close> (\<open>session/workflow/attention/effective.rs\<close>): the relations of usable Changes as
    replacement authority, over the two projections.
  \<^item> \<open>Instant\<close> (\<open>session/identity/instant.rs\<close>): the RFC 3339 parser and printer, the civil calendar,
    and the comparison of instants, with 64-bit bounds.
  \<^item> \<open>Std_Text\<close>, \<open>Git_Diff\<close>, \<open>Git_Capture\<close> (\<open>git/patch.rs\<close>, \<open>git/raw.rs\<close>, \<open>git/ingest.rs\<close>): what the code uses
    of Rust's text functions, the parsers of git's two diff listings and their combination into
    the files of a snapshot. For changes printed in git's documented formats the capture returns
    the right files, hunks and line numbers; hunks are well formed for any text; one kind of row
    is lost.
  \<^item> \<open>Change_Pages\<close> (\<open>session/change_order.rs\<close>, the page selection of \<open>session/derived_access/changes.rs\<close>,
    the summary of \<open>documents/change.rs\<close>): the orders of the Change list and its pages. The locale
    \<open>ordering_contract\<close> is what Rust asks of a comparison; the orders meet it. A listing holds the
    right Changes in strict order, and its pages tile it.

  \<^bold>\<open>Loops.\<close> A loop over a collection is structural recursion. The work-list loops \<open>visit\<close>,
  \<open>ancestors_loop\<close> and \<open>connect_loop\<close> are total functions with a termination proof: each round
  uses up a node that occurs in the graph. The loops \<open>find_root\<close> and \<open>tarjan_loop\<close>, which end only on
  arrays with the invariant the code keeps, are \<open>partial_function (option)\<close>, with \<open>None\<close> for a run
  without end, and the theorems state that they return. No fuel is used.

  \<^bold>\<open>Not modelled.\<close> The command line, the inspector and its documents (\<open>cli\<close>, \<open>documents\<close>, \<open>main.rs\<close>,
  \<open>extensions\<close>) render state to terminals, HTML and JSON and make no decisions of their own about
  it. Derived access (\<open>session/derived_access\<close>), apart from the selection of a page, is a cache in
  SQLite, whose behaviour is that of a database outside the crate. Git access (\<open>git\<close>, without the patch parser), keys and agents (\<open>keys\<close>) and highlighting
  (\<open>highlight\<close>) are input and output or calls of libraries. Of \<open>session/workflow\<close>, only the
  replacement authority is modelled: the other workflows compose the store, the builders and git.
  Of the store, the coordinator of derived indexes, the activated-capability router, the NTFS and
  in-memory journals, migration, bundles and content artifacts are left out, and a file system call
  does not fail otherwise than by the path being taken or absent. Serde's text forms are parameters.
\<close>

end
